(* ===== verification/Prelude.thy ===== *)
theory Prelude
  imports Main "HOL-Library.Word" "HOL-Library.Char_ord" "HOL-Library.List_Lexorder"
    "HOL-Library.Sublist"
begin

text \<open>
  Shared vocabulary of the development: the machine types of the Go program, the collections
  of rewrite rules the components extend, and generic lemmas on lists, maps and results that
  several components use.

  Go strings are byte sequences, so they are \<^typ>\<open>string\<close> (a list of 8-bit characters).
  \<open>int64\<close> and \<open>time.Duration\<close> are 64-bit words read by \<^const>\<open>sint\<close>; instants
  (\<open>time.Time\<close>) are integers counting nanoseconds.
\<close>

section \<open>Collections of rules\<close>

text \<open>
  \<open>string_ops\<close>: the string operations reduced to list functions;
  \<open>go_defs\<close>: definitions that concrete evaluation unfolds;
  \<open>world_simps\<close>: what each effect does to the fields of the world.
\<close>

named_theorems string_ops
named_theorems go_defs
named_theorems world_simps

section \<open>Machine types\<close>

type_synonym int64 = "64 word"
type_synonym duration = "64 word"
type_synonym time = int
type_synonym rune = nat

abbreviation byte :: "char \<Rightarrow> nat" where
  "byte c \<equiv> of_char c"

abbreviation chr :: "nat \<Rightarrow> char" where
  "chr n \<equiv> char_of n"

text \<open>The range of the Go type \<open>int64\<close> (and of \<open>int\<close> on the 64-bit targets of the image).\<close>

definition in_int64 :: "int \<Rightarrow> bool" where
  "in_int64 i \<longleftrightarrow> - (2 ^ 63) \<le> i \<and> i < 2 ^ 63"

lemma sint_of_int64 [simp]: "in_int64 i \<Longrightarrow> sint (word_of_int i :: int64) = i"
  by (simp add: in_int64_def sint_sbintrunc' signed_take_bit_int_eq_self)

lemma sint_in_int64 [simp]: "in_int64 (sint (d :: int64))"
  using sint_range_size [of d] by (simp add: in_int64_def word_size)

lemma byte_less_256 [simp]: "byte c < 256"
  using of_char_mod_256 [of c, where 'a = nat] by (metis mod_less_divisor zero_less_numeral)

section \<open>Lists\<close>

lemma concat_map_append_sep:
  "concat (map f (xs @ ys)) = concat (map f xs) @ concat (map f ys)"
  by simp

lemma foldl_invariant:
  assumes "P a" and "\<And>a x. P a \<Longrightarrow> x \<in> set xs \<Longrightarrow> P (f a x)"
  shows "P (foldl f a xs)"
  using assms by (induction xs arbitrary: a) auto

lemma dropWhile_hd_neq: "dropWhile P xs = y # ys \<Longrightarrow> \<not> P y"
  by (metis hd_dropWhile list.discI list.sel(1))

section \<open>Results\<close>

text \<open>Go's \<open>(value, error)\<close> results are sums with the error on the left.\<close>

definition is_ok :: "'e + 'a \<Rightarrow> bool" where
  "is_ok r \<longleftrightarrow> (case r of Inl _ \<Rightarrow> False | Inr _ \<Rightarrow> True)"

lemma is_ok_simps [simp]: "is_ok (Inr a)" "\<not> is_ok (Inl e)"
  by (simp_all add: is_ok_def)

lemma is_ok_iff: "is_ok r \<longleftrightarrow> (\<exists>a. r = Inr a)"
  by (cases r) simp_all

text \<open>A chain of guards \<open>if b { return err }\<close>, read as a conjunction.\<close>

lemma guard_None_iff: "(if b then Some e else x) = None \<longleftrightarrow> \<not> b \<and> x = None"
  by simp

lemma case_guard_None_iff: "(case y of None \<Rightarrow> x | Some z \<Rightarrow> Some (f z)) = None \<longleftrightarrow> y = None \<and> x = None"
  by (cases y) simp_all

lemma guard_Inr_iff: "(if b then Inl e else x) = Inr r \<longleftrightarrow> \<not> b \<and> x = Inr r"
  by simp

lemmas guards = guard_None_iff case_guard_None_iff guard_Inr_iff

end
