(* ===== verification/Go_Strings.thy ===== *)
theory Go_Strings
  imports Prelude
begin

text \<open>
  The parts of Go's \<open>strings\<close>, \<open>strconv\<close>, \<open>unicode/utf8\<close> and \<open>net/url\<close> packages that
  the webhook calls, on byte strings. UTF-8 decoding follows the decoder of \<open>unicode/utf8\<close>
  (an invalid byte is the rune U+FFFD of width 1). Two tables of the Unicode database that
  ship with the Go toolchain are parameters, collected in the record \<open>unicode\<close>: the lower
  case mapping of the runes from 128 on and the printable runes above U+00FF. Everything
  the program does with them holds for any tables.
\<close>

record unicode =
  uc_lower :: "rune \<Rightarrow> rune"
  uc_print :: "rune \<Rightarrow> bool"

section \<open>UTF-8\<close>

definition RuneError :: rune where
  "RuneError = 65533"

definition is_cont :: "char \<Rightarrow> bool" where
  "is_cont c \<longleftrightarrow> 128 \<le> byte c \<and> byte c < 192"

text \<open>The range of the second byte depends on the first: no overlong form, no surrogate, no
  rune above U+10FFFF.\<close>

definition second_ok :: "nat \<Rightarrow> char \<Rightarrow> bool" where
  "second_ok b0 c \<longleftrightarrow>
     (if b0 = 224 then 160 else if b0 = 240 then 144 else 128) \<le> byte c \<and>
     byte c \<le> (if b0 = 237 then 159 else if b0 = 244 then 143 else 191)"

fun decode_tail :: "nat \<Rightarrow> string \<Rightarrow> (rune \<times> nat) option" where
  "decode_tail b0 (c1 # c2 # c3 # cs) =
     (if 194 \<le> b0 \<and> b0 \<le> 223 then
        (if second_ok b0 c1 then Some ((b0 - 192) * 64 + (byte c1 - 128), 2) else None)
      else if 224 \<le> b0 \<and> b0 \<le> 239 then
        (if second_ok b0 c1 \<and> is_cont c2
         then Some ((b0 - 224) * 4096 + (byte c1 - 128) * 64 + (byte c2 - 128), 3) else None)
      else if 240 \<le> b0 \<and> b0 \<le> 244 then
        (if second_ok b0 c1 \<and> is_cont c2 \<and> is_cont c3
         then Some ((b0 - 240) * 262144 + (byte c1 - 128) * 4096 + (byte c2 - 128) * 64
                    + (byte c3 - 128), 4) else None)
      else None)"
| "decode_tail b0 [c1, c2] =
     (if 194 \<le> b0 \<and> b0 \<le> 223 then
        (if second_ok b0 c1 then Some ((b0 - 192) * 64 + (byte c1 - 128), 2) else None)
      else if 224 \<le> b0 \<and> b0 \<le> 239 then
        (if second_ok b0 c1 \<and> is_cont c2
         then Some ((b0 - 224) * 4096 + (byte c1 - 128) * 64 + (byte c2 - 128), 3) else None)
      else None)"
| "decode_tail b0 [c1] =
     (if 194 \<le> b0 \<and> b0 \<le> 223 \<and> second_ok b0 c1
      then Some ((b0 - 192) * 64 + (byte c1 - 128), 2) else None)"
| "decode_tail b0 [] = None"

definition DecodeRune :: "string \<Rightarrow> rune \<times> nat" where
  "DecodeRune s = (case s of
     [] \<Rightarrow> (RuneError, 0)
   | c # cs \<Rightarrow>
       if byte c < 128 then (byte c, 1)
       else case decode_tail (byte c) cs of Some rw \<Rightarrow> rw | None \<Rightarrow> (RuneError, 1))"

text \<open>The loop \<open>for _, r := range s\<close>: each rune with its width.\<close>

fun runes :: "string \<Rightarrow> (rune \<times> nat) list" where
  "runes [] = []"
| "runes (c # cs) = DecodeRune (c # cs) # runes (drop (snd (DecodeRune (c # cs)) - 1) cs)"

definition RuneStart :: "char \<Rightarrow> bool" where
  "RuneStart c \<longleftrightarrow> \<not> is_cont c"

definition DecodeLastRune :: "string \<Rightarrow> rune \<times> nat" where
  "DecodeLastRune s =
     (if s = [] then (RuneError, 0)
      else if byte (last s) < 128 then (byte (last s), 1)
      else case find (\<lambda>k. k \<le> length s \<and> RuneStart (s ! (length s - k))) [2, 3, 4] of
          None \<Rightarrow> (RuneError, 1)
        | Some k \<Rightarrow>
            if snd (DecodeRune (drop (length s - k) s)) = k
            then DecodeRune (drop (length s - k) s) else (RuneError, 1))"

definition EncodeRune :: "rune \<Rightarrow> string" where
  "EncodeRune r =
     (if r < 128 then [chr r]
      else if r < 2048 then [chr (192 + r div 64), chr (128 + r mod 64)]
      else if 1114111 < r \<or> (55296 \<le> r \<and> r \<le> 57343) then [chr 239, chr 191, chr 189]
      else if r < 65536 then
        [chr (224 + r div 4096), chr (128 + r div 64 mod 64), chr (128 + r mod 64)]
      else [chr (240 + r div 262144), chr (128 + r div 4096 mod 64),
            chr (128 + r div 64 mod 64), chr (128 + r mod 64)])"

definition ascii :: "string \<Rightarrow> bool" where
  "ascii s \<longleftrightarrow> list_all (\<lambda>c. byte c < 128) s"

lemma decode_tail_width: "decode_tail b cs = Some (r, w) \<Longrightarrow> 2 \<le> w \<and> w \<le> 4 \<and> w \<le> Suc (length cs)"
  by (induction b cs rule: decode_tail.induct) (auto split: if_splits)

lemma DecodeRune_ascii [simp]: "byte c < 128 \<Longrightarrow> DecodeRune (c # cs) = (byte c, 1)"
  by (simp add: DecodeRune_def)

lemma DecodeRune_width: "s \<noteq> [] \<Longrightarrow> 1 \<le> snd (DecodeRune s) \<and> snd (DecodeRune s) \<le> length s"
  by (cases s) (auto simp: DecodeRune_def split: option.splits dest: decode_tail_width)

lemma DecodeLastRune_width: "s \<noteq> [] \<Longrightarrow> 1 \<le> snd (DecodeLastRune s) \<and> snd (DecodeLastRune s) \<le> length s"
  by (auto simp: DecodeLastRune_def find_Some_iff Suc_le_eq split: option.splits)

lemma DecodeLastRune_ascii [simp]:
  "s \<noteq> [] \<Longrightarrow> byte (last s) < 128 \<Longrightarrow> DecodeLastRune s = (byte (last s), 1)"
  by (simp add: DecodeLastRune_def)

lemma runes_ascii: "ascii s \<Longrightarrow> runes s = map (\<lambda>c. (byte c, 1)) s"
  by (induction s) (simp_all add: ascii_def)

section \<open>Package strings\<close>

definition HasPrefix :: "string \<Rightarrow> string \<Rightarrow> bool" where
  "HasPrefix s p \<longleftrightarrow> length p \<le> length s \<and> take (length p) s = p"

definition HasSuffix :: "string \<Rightarrow> string \<Rightarrow> bool" where
  "HasSuffix s p \<longleftrightarrow> length p \<le> length s \<and> drop (length s - length p) s = p"

definition TrimPrefix :: "string \<Rightarrow> string \<Rightarrow> string" where
  "TrimPrefix s p = (if HasPrefix s p then drop (length p) s else s)"

definition TrimSuffix :: "string \<Rightarrow> string \<Rightarrow> string" where
  "TrimSuffix s p = (if HasSuffix s p then take (length s - length p) s else s)"

text \<open>\<open>strings.TrimRight(s, "x")\<close> for a cutset of one ASCII byte.\<close>

definition TrimRight1 :: "string \<Rightarrow> char \<Rightarrow> string" where
  "TrimRight1 s c = rev (dropWhile (\<lambda>x. x = c) (rev s))"

fun IndexByte :: "string \<Rightarrow> char \<Rightarrow> nat option" where
  "IndexByte [] b = None"
| "IndexByte (c # cs) b = (if c = b then Some 0 else map_option Suc (IndexByte cs b))"

fun Contains :: "string \<Rightarrow> string \<Rightarrow> bool" where
  "Contains [] p = (p = [])"
| "Contains (c # cs) p = (HasPrefix (c # cs) p \<or> Contains cs p)"

text \<open>\<open>strings.Split(s, sep)\<close> for a separator of one byte: never empty.\<close>

fun Split1 :: "string \<Rightarrow> char \<Rightarrow> string list" where
  "Split1 [] b = [[]]"
| "Split1 (c # cs) b =
     (if c = b then [] # Split1 cs b
      else (case Split1 cs b of [] \<Rightarrow> [[c]] | l # ls \<Rightarrow> (c # l) # ls))"

fun Join :: "string list \<Rightarrow> string \<Rightarrow> string" where
  "Join [] sep = []"
| "Join [x] sep = x"
| "Join (x # y # ys) sep = x @ sep @ Join (y # ys) sep"

definition ascii_lower :: "char \<Rightarrow> char" where
  "ascii_lower c = (if 65 \<le> byte c \<and> byte c \<le> 90 then chr (byte c + 32) else c)"

definition unicode_ToLower :: "unicode \<Rightarrow> rune \<Rightarrow> rune" where
  "unicode_ToLower u r =
     (if r < 128 then (if 65 \<le> r \<and> r \<le> 90 then r + 32 else r) else uc_lower u r)"

definition ToLower :: "unicode \<Rightarrow> string \<Rightarrow> string" where
  "ToLower u s =
     (if ascii s then map ascii_lower s
      else concat (map (\<lambda>(r, w). EncodeRune (unicode_ToLower u r)) (runes s)))"

definition IsSpace :: "rune \<Rightarrow> bool" where
  "IsSpace r \<longleftrightarrow> (9 \<le> r \<and> r \<le> 13) \<or> r = 32 \<or> r = 133 \<or> r = 160 \<or> r = 5760 \<or>
     (8192 \<le> r \<and> r \<le> 8202) \<or> r = 8232 \<or> r = 8233 \<or> r = 8239 \<or> r = 8287 \<or> r = 12288"

fun TrimLeftSpace :: "string \<Rightarrow> string" where
  "TrimLeftSpace [] = []"
| "TrimLeftSpace (c # cs) =
     (if IsSpace (fst (DecodeRune (c # cs)))
      then TrimLeftSpace (drop (snd (DecodeRune (c # cs)) - 1) cs) else c # cs)"

function TrimRightSpace :: "string \<Rightarrow> string" where
  "TrimRightSpace s =
     (if s \<noteq> [] \<and> IsSpace (fst (DecodeLastRune s))
      then TrimRightSpace (take (length s - snd (DecodeLastRune s)) s) else s)"
  by pat_completeness auto
termination
  by (relation "measure length") (auto dest: DecodeLastRune_width simp: Suc_le_eq)

declare TrimRightSpace.simps [simp del]

definition TrimSpace :: "string \<Rightarrow> string" where
  "TrimSpace s = TrimRightSpace (TrimLeftSpace s)"


section \<open>Laws of the string operations\<close>

lemma HasPrefix_iff [string_ops]: "HasPrefix s p \<longleftrightarrow> (\<exists>t. s = p @ t)"
  unfolding HasPrefix_def by (metis append_eq_conv_conj append_take_drop_id length_append le_add1)

lemma HasSuffix_iff [string_ops]: "HasSuffix s p \<longleftrightarrow> (\<exists>t. s = t @ p)"
proof
  assume "HasSuffix s p"
  then have "s = take (length s - length p) s @ p"
    unfolding HasSuffix_def by (metis append_take_drop_id)
  then show "\<exists>t. s = t @ p" ..
qed (auto simp: HasSuffix_def)

lemma TrimPrefix_append [simp]: "TrimPrefix (p @ s) p = s"
  by (simp add: TrimPrefix_def HasPrefix_def)

lemma TrimPrefix_id: "\<not> HasPrefix s p \<Longrightarrow> TrimPrefix s p = s"
  by (simp add: TrimPrefix_def)

lemma TrimSuffix_append [simp]: "TrimSuffix (s @ p) p = s"
  by (simp add: TrimSuffix_def HasSuffix_def)

lemma TrimSuffix_id: "\<not> HasSuffix s p \<Longrightarrow> TrimSuffix s p = s"
  by (simp add: TrimSuffix_def)

lemma HasSuffix_single: "HasSuffix s [c] \<longleftrightarrow> s \<noteq> [] \<and> last s = c"
  by (auto simp: HasSuffix_iff intro: append_butlast_last_id [symmetric])

lemma HasPrefix_single: "HasPrefix s [c] \<longleftrightarrow> s \<noteq> [] \<and> hd s = c"
  by (cases s) (auto simp: HasPrefix_iff)

lemma IndexByte_None: "IndexByte s b = None \<longleftrightarrow> b \<notin> set s"
  by (induction s) auto

lemma IndexByte_Some:
  "IndexByte s b = Some i \<Longrightarrow> i < length s \<and> s = take i s @ b # drop (Suc i) s \<and> b \<notin> set (take i s)"
  by (induction s arbitrary: i) (auto split: if_splits)

lemma IndexByte_append: "b \<notin> set l \<Longrightarrow> IndexByte (l @ b # t) b = Some (length l)"
  by (induction l) auto

lemma Contains_iff [string_ops]: "Contains s p \<longleftrightarrow> (\<exists>a t. s = a @ p @ t)"
proof (induction s)
  case (Cons c cs)
  then show ?case
    by (auto simp: HasPrefix_iff Cons_eq_append_conv)
qed simp

lemma Contains_single: "Contains s [c] \<longleftrightarrow> c \<in> set s"
  by (auto simp: Contains_iff in_set_conv_decomp)

subsection \<open>Splitting and joining\<close>

lemma Split1_nonempty [simp]: "Split1 s b \<noteq> []"
  by (cases s) (auto split: list.splits)

lemma Split1_Cons: "c \<noteq> b \<Longrightarrow> Split1 (c # cs) b = (c # hd (Split1 cs b)) # tl (Split1 cs b)"
  by (cases "Split1 cs b") auto

lemma length_Split1: "length (Split1 s b) = Suc (count_list s b)"
  by (induction s) (auto simp: Split1_Cons simp del: Split1.simps(2), simp_all)

lemma Split1_no_sep: "b \<notin> set s \<Longrightarrow> Split1 s b = [s]"
  by (induction s) auto

lemma Split1_append: "b \<notin> set l \<Longrightarrow> Split1 (l @ b # t) b = l # Split1 t b"
  by (induction l) auto

lemma Split1_labels: "l \<in> set (Split1 s b) \<Longrightarrow> b \<notin> set l"
proof (induction s arbitrary: l)
  case (Cons c cs)
  then show ?case
    by (cases "Split1 cs b") (auto split: if_splits)
qed simp

lemma Join_Cons: "xs \<noteq> [] \<Longrightarrow> Join (x # xs) sep = x @ sep @ Join xs sep"
  by (cases xs) auto

lemma Join_Split1: "Join (Split1 s b) [b] = s"
proof (induction s)
  case (Cons c cs)
  show ?case
  proof (cases "c = b")
    case True
    with Cons show ?thesis by (simp add: Join_Cons)
  next
    case False
    obtain l ls where s: "Split1 cs b = l # ls"
      by (cases "Split1 cs b") auto
    with Cons False show ?thesis by (cases ls) auto
  qed
qed simp

lemma Split1_Join:
  "xs \<noteq> [] \<Longrightarrow> \<forall>x\<in>set xs. b \<notin> set x \<Longrightarrow> Split1 (Join xs [b]) b = xs"
proof (induction xs rule: induct_list012)
  case (3 x y ys)
  then show ?case by (simp add: Split1_append)
qed (auto simp: Split1_no_sep)

subsection \<open>Lower case\<close>

lemma ascii_Nil [simp]: "ascii []"
  and ascii_Cons [simp]: "ascii (c # s) \<longleftrightarrow> byte c < 128 \<and> ascii s"
  and ascii_append [simp]: "ascii (s @ t) \<longleftrightarrow> ascii s \<and> ascii t"
  by (simp_all add: ascii_def)

lemma byte_ascii_lower:
  "byte (ascii_lower c) = (if 65 \<le> byte c \<and> byte c \<le> 90 then byte c + 32 else byte c)"
  by (simp add: ascii_lower_def of_char_of)

lemma ascii_lower_idem [simp]: "ascii_lower (ascii_lower c) = ascii_lower c"
  by (auto simp: ascii_lower_def of_char_of)

lemma ascii_ToLower [simp]: "ascii s \<Longrightarrow> ToLower u s = map ascii_lower s"
  by (simp add: ToLower_def)

lemma ascii_map_lower [simp]: "ascii s \<Longrightarrow> ascii (map ascii_lower s)"
  by (induction s) (auto simp: byte_ascii_lower)

lemma ToLower_idem: "ascii s \<Longrightarrow> ToLower u (ToLower u s) = ToLower u s"
  by simp

lemma ToLower_append: "ascii s \<Longrightarrow> ascii t \<Longrightarrow> ToLower u (s @ t) = ToLower u s @ ToLower u t"
  by simp

lemma ascii_lower_other: "byte c < 65 \<or> 90 < byte c \<Longrightarrow> ascii_lower c = c"
  by (auto simp: ascii_lower_def)

lemma ascii_lower_eq_iff:
  "byte d < 65 \<or> 122 < byte d \<or> (90 < byte d \<and> byte d < 97) \<Longrightarrow> ascii_lower c = d \<longleftrightarrow> c = d"
  by (auto simp: ascii_lower_def of_char_of split: if_splits)

subsection \<open>White space\<close>

lemma TrimRightSpace_id:
  "s = [] \<or> \<not> IsSpace (fst (DecodeLastRune s)) \<Longrightarrow> TrimRightSpace s = s"
  by (subst TrimRightSpace.simps) auto

lemma TrimLeftSpace_id: "\<not> IsSpace (fst (DecodeRune s)) \<Longrightarrow> TrimLeftSpace s = s"
  by (cases s) auto

lemma TrimRightSpace_prefix: "\<exists>t. s = TrimRightSpace s @ t"
proof (induction s rule: TrimRightSpace.induct)
  case (1 s)
  show ?case
  proof (cases "s \<noteq> [] \<and> IsSpace (fst (DecodeLastRune s))")
    case True
    let ?k = "length s - snd (DecodeLastRune s)"
    from 1 [OF True] obtain t where "take ?k s = TrimRightSpace (take ?k s) @ t" ..
    then have "s = TrimRightSpace (take ?k s) @ (t @ drop ?k s)"
      by (metis append.assoc append_take_drop_id)
    moreover have "TrimRightSpace s = TrimRightSpace (take ?k s)"
      using True by (subst TrimRightSpace.simps) simp
    ultimately show ?thesis by metis
  qed (auto simp: TrimRightSpace_id)
qed

lemma TrimLeftSpace_suffix: "\<exists>t. s = t @ TrimLeftSpace s"
proof (induction s rule: TrimLeftSpace.induct)
  case (2 c cs)
  show ?case
  proof (cases "IsSpace (fst (DecodeRune (c # cs)))")
    case True
    let ?k = "snd (DecodeRune (c # cs)) - 1"
    from 2 [OF True] obtain t where "drop ?k cs = t @ TrimLeftSpace (drop ?k cs)" ..
    then have "c # cs = (c # take ?k cs @ t) @ TrimLeftSpace (drop ?k cs)"
      by (metis append.assoc append_Cons append_take_drop_id)
    moreover have "TrimLeftSpace (c # cs) = TrimLeftSpace (drop ?k cs)"
      using True by simp
    ultimately show ?thesis by metis
  qed auto
qed simp

text \<open>A non-empty ASCII string that neither begins nor ends with white space is unchanged.\<close>

definition no_outer_space :: "string \<Rightarrow> bool" where
  "no_outer_space s \<longleftrightarrow> s = [] \<or>
     (byte (hd s) < 128 \<and> \<not> IsSpace (byte (hd s)) \<and> byte (last s) < 128 \<and> \<not> IsSpace (byte (last s)))"

lemma TrimSpace_id: "no_outer_space s \<Longrightarrow> TrimSpace s = s"
proof (cases s)
  case (Cons c cs)
  assume "no_outer_space s"
  with Cons show ?thesis
    by (simp add: TrimSpace_def no_outer_space_def TrimLeftSpace_id TrimRightSpace_id)
qed (simp add: TrimSpace_def TrimRightSpace_id)

lemma set_TrimSpace: "set (TrimSpace s) \<subseteq> set s"
  using TrimLeftSpace_suffix [of s] TrimRightSpace_prefix [of "TrimLeftSpace s"]
  unfolding TrimSpace_def by (metis Un_iff set_append subsetI)

lemma ascii_TrimSpace [simp]: "ascii s \<Longrightarrow> ascii (TrimSpace s)"
  using set_TrimSpace [of s] by (auto simp: ascii_def list_all_iff)

end
