(* ===== verification/Go_Strconv.thy ===== *)
theory Go_Strconv
  imports Go_Strings
begin

text \<open>
  Number formatting and parsing (\<open>%d\<close>, \<open>strconv.Atoi\<close>), quoting (\<open>strconv.Quote\<close>,
  \<open>%q\<close>) and path escaping (\<open>url.PathEscape\<close>), with their round trips.
\<close>

section \<open>Decimal numbers\<close>

definition digit :: "nat \<Rightarrow> char" where
  "digit d = chr (48 + d)"

fun dec :: "nat \<Rightarrow> string" where
  "dec n = (if n < 10 then [digit n] else dec (n div 10) @ [digit (n mod 10)])"

declare dec.simps [simp del]

definition Itoa :: "int \<Rightarrow> string" where
  "Itoa i = (if i < 0 then CHR ''-'' # dec (nat (- i)) else dec (nat i))"

definition is_digit :: "char \<Rightarrow> bool" where
  "is_digit c \<longleftrightarrow> 48 \<le> byte c \<and> byte c \<le> 57"

definition undec :: "string \<Rightarrow> nat" where
  "undec s = foldl (\<lambda>n c. 10 * n + (byte c - 48)) 0 s"

definition parse_digits :: "string \<Rightarrow> nat option" where
  "parse_digits s = (if s \<noteq> [] \<and> list_all is_digit s then Some (undec s) else None)"

definition Atoi :: "string \<Rightarrow> int option" where
  "Atoi s =
     (let neg = HasPrefix s ''-'';
          ds = (if neg \<or> HasPrefix s ''+'' then drop 1 s else s)
      in case parse_digits ds of
           None \<Rightarrow> None
         | Some n \<Rightarrow>
             let i = (if neg then - int n else int n) in if in_int64 i then Some i else None)"

lemma byte_digit [simp]: "d < 10 \<Longrightarrow> byte (digit d) = 48 + d"
  by (simp add: digit_def of_char_of)

lemma dec_digits: "list_all is_digit (dec n)"
proof (induction n rule: dec.induct)
  case (1 n)
  moreover have "d < 10 \<Longrightarrow> is_digit (digit d)" for d
    by (simp add: is_digit_def)
  ultimately show ?case
    by (subst dec.simps) auto
qed

lemma dec_nonempty [simp]: "dec n \<noteq> []"
  by (subst dec.simps) simp

lemma undec_snoc: "undec (s @ [c]) = 10 * undec s + (byte c - 48)"
  by (simp add: undec_def)

lemma undec_dec [simp]: "undec (dec n) = n"
proof (induction n rule: dec.induct)
  case (1 n)
  then show ?case
    by (subst dec.simps) (simp add: undec_snoc, simp add: undec_def)
qed

lemma parse_digits_dec [simp]: "parse_digits (dec n) = Some n"
  by (simp add: parse_digits_def dec_digits)

lemma hd_dec_digit: "is_digit (hd (dec n))"
  using dec_digits [of n] dec_nonempty [of n] by (cases "dec n") simp_all

lemma dec_no_sign: "\<not> HasPrefix (dec n) ''-''" "\<not> HasPrefix (dec n) ''+''"
  using hd_dec_digit [of n] by (auto simp: HasPrefix_single is_digit_def)

lemma Atoi_Itoa: "in_int64 i \<Longrightarrow> Atoi (Itoa i) = Some i"
proof (cases "i < 0")
  case True
  moreover assume "in_int64 i"
  ultimately show ?thesis
    by (simp add: Atoi_def Itoa_def Let_def HasPrefix_single)
next
  case False
  moreover assume "in_int64 i"
  ultimately show ?thesis
    by (simp add: Atoi_def Itoa_def Let_def dec_no_sign)
qed

lemma Atoi_range: "Atoi s = Some i \<Longrightarrow> in_int64 i"
  by (auto simp: Atoi_def Let_def split: option.splits if_splits)

lemma Itoa_no_slash: "CHR ''/'' \<notin> set (Itoa i)"
proof -
  have "\<not> is_digit (CHR ''/'')" by (simp add: is_digit_def)
  then have "CHR ''/'' \<notin> set (dec n)" for n
    using dec_digits [of n] by (auto simp: list_all_iff)
  then show ?thesis by (simp add: Itoa_def)
qed

section \<open>Quoting\<close>

definition hexdigit :: "nat \<Rightarrow> char" where
  "hexdigit d = (if d < 10 then chr (48 + d) else chr (87 + d))"

definition HEXDIGIT :: "nat \<Rightarrow> char" where
  "HEXDIGIT d = (if d < 10 then chr (48 + d) else chr (55 + d))"

primrec hex :: "nat \<Rightarrow> nat \<Rightarrow> string" where
  "hex 0 n = []"
| "hex (Suc k) n = hex k (n div 16) @ [hexdigit (n mod 16)]"

definition IsPrint :: "unicode \<Rightarrow> rune \<Rightarrow> bool" where
  "IsPrint u r =
     (if r < 256 then (32 \<le> r \<and> r < 127) \<or> (161 \<le> r \<and> r \<noteq> 173) else uc_print u r)"

definition backslash :: char where
  "backslash = chr 92"

definition dquote :: char where
  "dquote = chr 34"

definition escape_rune :: "unicode \<Rightarrow> rune \<Rightarrow> rune \<Rightarrow> string" where
  "escape_rune u q r =
     (if r = q \<or> r = 92 then backslash # EncodeRune r
      else if IsPrint u r then EncodeRune r
      else if r = 7 then backslash # ''a''
      else if r = 8 then backslash # ''b''
      else if r = 12 then backslash # ''f''
      else if r = 10 then backslash # ''n''
      else if r = 13 then backslash # ''r''
      else if r = 9 then backslash # ''t''
      else if r = 11 then backslash # ''v''
      else if r < 32 \<or> r = 127 then backslash # ''x'' @ hex 2 r
      else if 1114111 < r \<or> (55296 \<le> r \<and> r \<le> 57343) then backslash # ''ufffd''
      else if r < 65536 then backslash # ''u'' @ hex 4 r
      else backslash # ''U'' @ hex 8 r)"

text \<open>An invalid byte (decoded as U+FFFD with width 1) is written as \<open>\xNN\<close>.\<close>

fun quote_body :: "unicode \<Rightarrow> rune \<Rightarrow> string \<Rightarrow> string" where
  "quote_body u q [] = []"
| "quote_body u q (c # cs) =
     (let (r, w) = DecodeRune (c # cs)
      in (if w = 1 \<and> r = RuneError then backslash # ''x'' @ hex 2 (byte c) else escape_rune u q r)
         @ quote_body u q (drop (w - 1) cs))"

definition Quote :: "unicode \<Rightarrow> string \<Rightarrow> string" where
  "Quote u s = dquote # quote_body u 34 s @ [dquote]"

text \<open>\<open>%q\<close> on a rune: single quotes.\<close>

definition QuoteRune :: "unicode \<Rightarrow> rune \<Rightarrow> string" where
  "QuoteRune u r = chr 39 # escape_rune u 39 r @ [chr 39]"

text \<open>The characters that quoting leaves alone: printable ASCII but for the quote and the backslash.\<close>

definition plain_char :: "char \<Rightarrow> bool" where
  "plain_char c \<longleftrightarrow> 32 \<le> byte c \<and> byte c < 127 \<and> byte c \<noteq> 34 \<and> byte c \<noteq> 92"

lemma quote_body_plain: "list_all plain_char s \<Longrightarrow> quote_body u 34 s = s"
proof (induction s)
  case (Cons c cs)
  then have "byte c < 128" "escape_rune u 34 (byte c) = [c]" "byte c \<noteq> RuneError"
    by (auto simp: plain_char_def escape_rune_def IsPrint_def EncodeRune_def RuneError_def)
  with Cons show ?case by simp
qed simp

lemma Quote_plain: "list_all plain_char s \<Longrightarrow> Quote u s = dquote # s @ [dquote]"
  by (simp add: Quote_def quote_body_plain)

section \<open>Path escaping\<close>

definition shouldEscape :: "char \<Rightarrow> bool" where
  "shouldEscape c \<longleftrightarrow> \<not> ((97 \<le> byte c \<and> byte c \<le> 122) \<or> (65 \<le> byte c \<and> byte c \<le> 90) \<or>
     (48 \<le> byte c \<and> byte c \<le> 57) \<or> c \<in> set ''-_.~$&+:=@'')"

definition PathEscape :: "string \<Rightarrow> string" where
  "PathEscape s =
     concat (map (\<lambda>c. if shouldEscape c
                      then [CHR ''%'', HEXDIGIT (byte c div 16), HEXDIGIT (byte c mod 16)]
                      else [c]) s)"

definition unhex :: "char \<Rightarrow> nat option" where
  "unhex c =
     (if 48 \<le> byte c \<and> byte c \<le> 57 then Some (byte c - 48)
      else if 65 \<le> byte c \<and> byte c \<le> 70 then Some (byte c - 55)
      else if 97 \<le> byte c \<and> byte c \<le> 102 then Some (byte c - 87)
      else None)"

text \<open>The decoder a server applies to one path segment.\<close>

fun PathUnescape :: "string \<Rightarrow> string option" where
  "PathUnescape [] = Some []"
| "PathUnescape (c # cs) =
     (if c = CHR ''%'' then
        (case cs of
           h # l # rest \<Rightarrow>
             (case (unhex h, unhex l) of
                (Some a, Some b) \<Rightarrow> map_option ((#) (chr (16 * a + b))) (PathUnescape rest)
              | _ \<Rightarrow> None)
         | _ \<Rightarrow> None)
      else map_option ((#) c) (PathUnescape cs))"

lemma unhex_HEXDIGIT: "d < 16 \<Longrightarrow> unhex (HEXDIGIT d) = Some d"
  by (auto simp: unhex_def HEXDIGIT_def of_char_of)

lemma PathUnescape_PathEscape: "PathUnescape (PathEscape s) = Some s"
proof (induction s)
  case (Cons c cs)
  show ?case
  proof (cases "shouldEscape c")
    case True
    have "byte c div 16 < 16"
      using byte_less_256 [of c] by (simp add: less_mult_imp_div_less)
    with True Cons show ?thesis
      by (simp add: PathEscape_def unhex_HEXDIGIT)
  next
    case False
    then have "c \<noteq> CHR ''%''" by (auto simp: shouldEscape_def)
    with False Cons show ?thesis by (simp add: PathEscape_def)
  qed
qed (simp add: PathEscape_def)

lemma HEXDIGIT_no_slash: "d < 16 \<Longrightarrow> HEXDIGIT d \<noteq> CHR ''/''"
  using unhex_HEXDIGIT [of d] by (auto simp: unhex_def)

lemma PathEscape_no_slash: "CHR ''/'' \<notin> set (PathEscape s)"
proof -
  have "byte c div 16 < 16" "byte c mod 16 < 16" for c
    using byte_less_256 [of c] by (simp_all add: less_mult_imp_div_less)
  then have "HEXDIGIT (byte c div 16) \<noteq> CHR ''/''" "HEXDIGIT (byte c mod 16) \<noteq> CHR ''/''" for c
    by (simp_all add: HEXDIGIT_no_slash)
  moreover have "shouldEscape (CHR ''/'')"
    by (simp add: shouldEscape_def)
  ultimately show ?thesis
    by (auto simp: PathEscape_def dest: sym)
qed

lemma PathEscape_inj: "PathEscape s = PathEscape t \<Longrightarrow> s = t"
  by (metis PathUnescape_PathEscape option.inject)

lemma PathEscape_plain: "list_all (\<lambda>c. \<not> shouldEscape c) s \<Longrightarrow> PathEscape s = s"
  by (induction s) (simp_all add: PathEscape_def)

end
