(* ===== verification/Errors.thy ===== *)
theory Errors
  imports Go_Strconv
begin

text \<open>
  Go error values and the typed errors of \<open>src/internal/hcloud/errors.go\<close>. An error is a
  chain: \<open>fmt.Errorf\<close> with one \<open>%w\<close> wraps an inner error between two pieces of text
  (\<open>EWrap\<close>), \<open>errors.New\<close> and \<open>fmt.Errorf\<close> without \<open>%w\<close> are \<open>ENew\<close>, and an error
  value made by code outside the program (the JSON package, the Kubernetes client) is
  \<open>EExt\<close> with its text. \<open>errors.Is\<close> and \<open>errors.As\<close> walk the chain.
\<close>

section \<open>Error values\<close>

datatype sentinel =
    ErrNoMatch
  | ErrInvalidToken
  | ErrForbidden
  | ErrNotFound
  | ErrConflict
  | ErrInvalidZoneName
  | ErrRateLimited
  | ErrServer

datatype ctx_error = Canceled | DeadlineExceeded

record APIError =
  StatusCode :: int
  Code :: string
  Message :: string
  RetryAfter :: duration

datatype goerr =
    ENew string
  | ESentinel sentinel
  | EAPI APIError
  | EWrap string goerr string
  | ECtx ctx_error
  | EExt string

type_synonym 'a result = "goerr + 'a"

definition APIError_Is :: "APIError \<Rightarrow> sentinel \<Rightarrow> bool" where
  "APIError_Is e target = (case target of
     ErrInvalidToken \<Rightarrow> StatusCode e = 401
   | ErrForbidden \<Rightarrow> StatusCode e = 403
   | ErrNotFound \<Rightarrow> StatusCode e = 404
   | ErrConflict \<Rightarrow> StatusCode e = 409
   | ErrInvalidZoneName \<Rightarrow> StatusCode e = 422
   | ErrRateLimited \<Rightarrow> StatusCode e = 429
   | ErrServer \<Rightarrow> 500 \<le> StatusCode e \<and> StatusCode e < 600
   | _ \<Rightarrow> False)"

fun errors_Is :: "goerr \<Rightarrow> sentinel \<Rightarrow> bool" where
  "errors_Is (ESentinel s) target = (s = target)"
| "errors_Is (EAPI a) target = APIError_Is a target"
| "errors_Is (EWrap pre e post) target = errors_Is e target"
| "errors_Is _ target = False"

fun errors_As :: "goerr \<Rightarrow> APIError option" where
  "errors_As (EAPI a) = Some a"
| "errors_As (EWrap pre e post) = errors_As e"
| "errors_As _ = None"

section \<open>Error texts\<close>

definition APIError_Error :: "unicode \<Rightarrow> APIError \<Rightarrow> string" where
  "APIError_Error u e =
     (if Code e \<noteq> [] then
        ''hcloud API error: status='' @ Itoa (StatusCode e) @ '' code='' @ Quote u (Code e) @
        '' message='' @ Quote u (Message e)
      else ''hcloud API error: status='' @ Itoa (StatusCode e) @ '' message='' @ Quote u (Message e))"

fun sentinel_text :: "sentinel \<Rightarrow> string" where
  "sentinel_text ErrNoMatch = ''no configured zone-apex matches FQDN''"
| "sentinel_text ErrInvalidToken = ''hcloud: invalid or revoked token''"
| "sentinel_text ErrForbidden = ''hcloud: forbidden (token does not own this resource)''"
| "sentinel_text ErrNotFound = ''hcloud: resource not found''"
| "sentinel_text ErrConflict = ''hcloud: resource already exists (conflict)''"
| "sentinel_text ErrInvalidZoneName = ''hcloud: invalid zone name (subdomain or unknown TLD)''"
| "sentinel_text ErrRateLimited = ''hcloud: rate limited''"
| "sentinel_text ErrServer = ''hcloud: upstream server error''"

fun ctx_error_text :: "ctx_error \<Rightarrow> string" where
  "ctx_error_text Canceled = ''context canceled''"
| "ctx_error_text DeadlineExceeded = ''context deadline exceeded''"

fun Error :: "unicode \<Rightarrow> goerr \<Rightarrow> string" where
  "Error u (ENew s) = s"
| "Error u (ESentinel s) = sentinel_text s"
| "Error u (EAPI a) = APIError_Error u a"
| "Error u (EWrap pre e post) = pre @ Error u e @ post"
| "Error u (ECtx c) = ctx_error_text c"
| "Error u (EExt s) = s"

section \<open>Classification\<close>

lemma APIError_Is_status:
  "APIError_Is a ErrInvalidToken \<longleftrightarrow> StatusCode a = 401"
  "APIError_Is a ErrForbidden \<longleftrightarrow> StatusCode a = 403"
  "APIError_Is a ErrNotFound \<longleftrightarrow> StatusCode a = 404"
  "APIError_Is a ErrConflict \<longleftrightarrow> StatusCode a = 409"
  "APIError_Is a ErrInvalidZoneName \<longleftrightarrow> StatusCode a = 422"
  "APIError_Is a ErrRateLimited \<longleftrightarrow> StatusCode a = 429"
  "APIError_Is a ErrServer \<longleftrightarrow> 500 \<le> StatusCode a \<and> StatusCode a < 600"
  "\<not> APIError_Is a ErrNoMatch"
  by (simp_all add: APIError_Is_def)

lemma APIError_Is_unique: "APIError_Is a s \<Longrightarrow> APIError_Is a t \<Longrightarrow> s = t"
  by (cases s; cases t) (simp_all add: APIError_Is_status)

text \<open>
  An error matches at most one sentinel, however deep the chain: the branches of a
  \<open>switch\<close> over \<open>errors.Is\<close> cannot compete.
\<close>

lemma errors_Is_unique: "errors_Is e s \<Longrightarrow> errors_Is e t \<Longrightarrow> s = t"
  by (induction e) (auto dest: APIError_Is_unique)

lemma errors_Is_As:
  "errors_Is e s \<Longrightarrow> s \<noteq> ErrNoMatch \<Longrightarrow> errors_As e = Some a \<Longrightarrow> APIError_Is a s"
  by (induction e) auto

lemma errors_As_Is: "errors_As e = Some a \<Longrightarrow> errors_Is e s \<longleftrightarrow> APIError_Is a s"
  by (induction e) auto

end
