(* ===== verification/Runtime.thy ===== *)
theory Runtime
  imports Errors
begin

text \<open>
  The world the program acts on and the effects it has: the clock, contexts with a deadline
  (package \<open>context\<close>), structured logging (\<open>log/slog\<close>), HTTP requests and Kubernetes
  reads. The world holds the current instant, the trace of everything the program did
  towards the outside, and a component \<open>ext\<close> of arbitrary type for whatever is outside
  (the Hetzner servers, the Kubernetes API server). Calls to the outside are parameters: they
  read the instant and \<open>ext\<close>, and return a result, the time they took and the new \<open>ext\<close>.

  \<open>src/internal/hcloud/clock.go\<close> is modelled here: the interface \<open>Clock\<close> as a record of
  functions with its contract as a locale, and \<open>realClock\<close> as its implementation.
\<close>

section \<open>Log lines, requests, the trace\<close>

datatype level = LevelDebug | LevelInfo | LevelWarn | LevelError

fun level_num :: "level \<Rightarrow> int" where
  "level_num LevelDebug = - 4"
| "level_num LevelInfo = 0"
| "level_num LevelWarn = 4"
| "level_num LevelError = 8"

lemma level_num_inj: "level_num a = level_num b \<Longrightarrow> a = b"
  by (cases a; cases b) simp_all

instantiation level :: linorder
begin

definition less_eq_level :: "level \<Rightarrow> level \<Rightarrow> bool" where
  "less_eq_level a b \<longleftrightarrow> level_num a \<le> level_num b"

definition less_level :: "level \<Rightarrow> level \<Rightarrow> bool" where
  "less_level a b \<longleftrightarrow> level_num a < level_num b"

instance
  by standard (auto simp: less_eq_level_def less_level_def intro: level_num_inj)

end

datatype attr = AStr string string | AInt string int | ADur string duration

record log_entry =
  le_level :: level
  le_msg :: string
  le_attrs :: "attr list"

record http_request =
  rq_method :: string
  rq_url :: string
  rq_header :: "(string \<times> string) list"
  rq_body :: "string option"

text \<open>
  A response: \<open>rs_Body\<close> are the bytes that can be read from its body and \<open>rs_BodyErr\<close> the error
  at which reading stops, if it does not reach the end (a connection that breaks, a context that
  is done). \<open>io.ReadAll\<close> returns both.
\<close>

record http_response =
  rs_StatusCode :: int
  rs_Header :: "(string \<times> string) list"
  rs_Body :: string
  rs_BodyErr :: "string option"

definition io_ReadAll :: "http_response \<Rightarrow> string \<times> string option" where
  [simp]: "io_ReadAll resp = (rs_Body resp, rs_BodyErr resp)"

type_synonym answer = "string + http_response"

text \<open>The events: what the program sends and receives, the Secrets it asks for, its sleeps and log
  lines. An answer carries what the clock of the client read when it arrived.\<close>

datatype event =
    HttpSent http_request
  | HttpAnswered time answer
  | SecretRead string string
  | SleepFor duration
  | Logged log_entry

record 'e world =
  now :: time
  trace :: "event list"
  ext :: 'e

definition emit :: "event \<Rightarrow> 'e world \<Rightarrow> 'e world" where
  "emit ev w = w\<lparr>trace := trace w @ [ev]\<rparr>"

definition call_out :: "(time \<Rightarrow> 'e \<Rightarrow> 'a \<times> nat \<times> 'e) \<Rightarrow> 'e world \<Rightarrow> 'a \<times> 'e world" where
  "call_out f w = (case f (now w) (ext w) of
     (r, dt, x) \<Rightarrow> (r, w\<lparr>now := now w + int dt, ext := x\<rparr>))"

text \<open>A logger is what its handler's \<open>Enabled\<close> answers; enabled lines reach the trace.\<close>

type_synonym logger = "level \<Rightarrow> bool"

definition LogAttrs :: "logger \<Rightarrow> level \<Rightarrow> string \<Rightarrow> attr list \<Rightarrow> 'e world \<Rightarrow> 'e world" where
  "LogAttrs lg lvl msg attrs w =
     (if lg lvl then emit (Logged \<lparr>le_level = lvl, le_msg = msg, le_attrs = attrs\<rparr>) w else w)"

text \<open>\<open>slog.Default()\<close> is enabled from \<open>Info\<close> on.\<close>

definition slog_Default :: logger where
  "slog_Default lvl \<longleftrightarrow> LevelInfo \<le> lvl"

fun http_sent :: "event list \<Rightarrow> http_request list" where
  "http_sent [] = []"
| "http_sent (HttpSent r # es) = r # http_sent es"
| "http_sent (_ # es) = http_sent es"

text \<open>The requests and answers, in order; an exchange is a request and the answer to it.\<close>

fun http_log :: "event list \<Rightarrow> event list" where
  "http_log [] = []"
| "http_log (HttpSent r # es) = HttpSent r # http_log es"
| "http_log (HttpAnswered t a # es) = HttpAnswered t a # http_log es"
| "http_log (_ # es) = http_log es"

definition exchanges :: "(http_request \<times> time \<times> answer) list \<Rightarrow> event list" where
  "exchanges xs = concat (map (\<lambda>(rq, t, a). [HttpSent rq, HttpAnswered t a]) xs)"

fun slept :: "event list \<Rightarrow> duration list" where
  "slept [] = []"
| "slept (SleepFor d # es) = d # slept es"
| "slept (_ # es) = slept es"

fun secrets_read :: "event list \<Rightarrow> (string \<times> string) list" where
  "secrets_read [] = []"
| "secrets_read (SecretRead ns n # es) = (ns, n) # secrets_read es"
| "secrets_read (_ # es) = secrets_read es"

fun logged :: "event list \<Rightarrow> log_entry list" where
  "logged [] = []"
| "logged (Logged l # es) = l # logged es"
| "logged (_ # es) = logged es"

lemma http_sent_append [simp]: "http_sent (xs @ ys) = http_sent xs @ http_sent ys"
  by (induction xs rule: http_sent.induct) simp_all

lemma http_log_append [simp]: "http_log (xs @ ys) = http_log xs @ http_log ys"
  by (induction xs rule: http_log.induct) simp_all

lemma http_sent_log: "http_sent (http_log es) = http_sent es"
  by (induction es rule: http_log.induct) simp_all

lemma exchanges_simps [simp]:
  "exchanges [] = []" "exchanges ((rq, t, a) # xs) = HttpSent rq # HttpAnswered t a # exchanges xs"
  "exchanges (xs @ ys) = exchanges xs @ exchanges ys"
  by (simp_all add: exchanges_def)

lemma http_sent_exchanges [simp]: "http_sent (exchanges xs) = map fst xs"
  by (induction xs) auto

lemma slept_append [simp]: "slept (xs @ ys) = slept xs @ slept ys"
  by (induction xs rule: slept.induct) simp_all

lemma secrets_read_append [simp]: "secrets_read (xs @ ys) = secrets_read xs @ secrets_read ys"
  by (induction xs rule: secrets_read.induct) simp_all

lemma logged_append [simp]: "logged (xs @ ys) = logged xs @ logged ys"
  by (induction xs rule: logged.induct) simp_all

lemma emit_simps [simp]:
  "now (emit ev w) = now w" "trace (emit ev w) = trace w @ [ev]" "ext (emit ev w) = ext w"
  by (simp_all add: emit_def)

lemma LogAttrs_simps [simp]:
  "now (LogAttrs lg lvl msg attrs w) = now w"
  "ext (LogAttrs lg lvl msg attrs w) = ext w"
  "http_sent (trace (LogAttrs lg lvl msg attrs w)) = http_sent (trace w)"
  "http_log (trace (LogAttrs lg lvl msg attrs w)) = http_log (trace w)"
  "slept (trace (LogAttrs lg lvl msg attrs w)) = slept (trace w)"
  "secrets_read (trace (LogAttrs lg lvl msg attrs w)) = secrets_read (trace w)"
  by (simp_all add: LogAttrs_def)

lemma call_out_frame:
  "call_out f w = (r, w') \<Longrightarrow> trace w' = trace w \<and> now w \<le> now w'"
  by (auto simp: call_out_def split: prod.splits)

section \<open>Contexts\<close>

text \<open>
  A context is the instant at which it is done and the error it reports from then on;
  \<open>Background\<close> is never done. The deferred \<open>cancel\<close> calls run after the last use of
  their context and have no effect on the model.
\<close>

record ctx =
  ctx_done :: "(time \<times> ctx_error) option"

definition Background :: ctx where
  "Background = \<lparr>ctx_done = None\<rparr>"

definition WithTimeout :: "ctx \<Rightarrow> duration \<Rightarrow> time \<Rightarrow> ctx" where
  "WithTimeout c d t = (case ctx_done c of
     None \<Rightarrow> \<lparr>ctx_done = Some (t + sint d, DeadlineExceeded)\<rparr>
   | Some (t0, e) \<Rightarrow>
       if t0 \<le> t + sint d then c else \<lparr>ctx_done = Some (t + sint d, DeadlineExceeded)\<rparr>)"

definition ctx_Err :: "ctx \<Rightarrow> time \<Rightarrow> ctx_error option" where
  "ctx_Err c t = (case ctx_done c of
     None \<Rightarrow> None
   | Some (t0, e) \<Rightarrow> if t0 \<le> t then Some e else None)"

text \<open>\<open>by_deadline c w t\<close>: the instant \<open>t\<close> is no later than the moment \<open>c\<close> is done, or no
  later than the world's clock if that moment has passed.\<close>

definition by_deadline :: "ctx \<Rightarrow> 'e world \<Rightarrow> time \<Rightarrow> bool" where
  "by_deadline c w t \<longleftrightarrow> (case ctx_done c of None \<Rightarrow> True | Some (t0, e) \<Rightarrow> t \<le> max (now w) t0)"

lemma by_deadline_refl [simp]: "by_deadline c w (now w)"
  by (simp add: by_deadline_def split: option.splits)

lemma by_deadline_cong: "now w = now w' \<Longrightarrow> by_deadline c w t = by_deadline c w' t"
  unfolding by_deadline_def by (simp split: option.split)

lemma by_deadline_emit [simp]: "by_deadline c (emit ev w) t = by_deadline c w t"
  by (rule by_deadline_cong) simp

lemma by_deadline_LogAttrs [simp]: "by_deadline c (LogAttrs lg lvl msg attrs w) t = by_deadline c w t"
  by (rule by_deadline_cong) simp

lemma by_deadline_trans:
  "by_deadline c w (now w') \<Longrightarrow> by_deadline c w' t \<Longrightarrow> by_deadline c w t"
  by (auto simp: by_deadline_def split: option.splits)

lemma by_deadline_WithTimeout:
  "by_deadline (WithTimeout c d (now w)) w t \<Longrightarrow> by_deadline c w t"
  by (auto simp: by_deadline_def WithTimeout_def split: option.splits prod.splits if_splits)

section \<open>The clock\<close>

record 'e clock =
  clock_Now :: "'e world \<Rightarrow> time"
  clock_Sleep :: "ctx \<Rightarrow> duration \<Rightarrow> 'e world \<Rightarrow> goerr option \<times> 'e world"

text \<open>
  The contract written on the interface in \<open>clock.go\<close>: \<open>Sleep\<close> blocks for \<open>d\<close>, or returns
  early with the error of the context if that is done, and only then; nothing else is touched,
  and it never outlasts the context.
\<close>

locale clock_contract =
  fixes Sleep :: "ctx \<Rightarrow> duration \<Rightarrow> 'e world \<Rightarrow> goerr option \<times> 'e world"
  assumes sleep_full: "Sleep c d w = (None, w') \<Longrightarrow> now w' = now w + max 0 (sint d)"
    and sleep_early: "Sleep c d w = (Some e, w') \<Longrightarrow>
      now w \<le> now w' \<and> (\<exists>x. e = ECtx x \<and> ctx_Err c (now w') = Some x)"
    and sleep_frame: "Sleep c d w = (r, w') \<Longrightarrow> trace w' = trace w \<and> ext w' = ext w"
    and sleep_deadline: "Sleep c d w = (r, w') \<Longrightarrow> by_deadline c w (now w')"
    and sleep_undisturbed: "Sleep c d w = (r, w') \<Longrightarrow> ctx_Err c (now w + max 0 (sint d)) = None \<Longrightarrow> r = None"
begin

lemma sleep_mono: "Sleep c d w = (r, w') \<Longrightarrow> now w \<le> now w'"
  using sleep_full sleep_early by (cases r) fastforce+

lemma background_sleeps: "Sleep Background d w = (r, w') \<Longrightarrow> r = None"
  using sleep_early [of Background d w _ w'] by (cases r) (auto simp: Background_def ctx_Err_def)

end

text \<open>
  \<open>realClock.Sleep\<close>. When the timer and the context become ready at the same instant,
  \<open>select\<close> picks one of them; \<open>pick\<close> is that choice.
\<close>

definition realClock_Now :: "'e world \<Rightarrow> time" where
  "realClock_Now w = now w"

definition realClock_Sleep ::
  "(time \<Rightarrow> bool) \<Rightarrow> ctx \<Rightarrow> duration \<Rightarrow> 'e world \<Rightarrow> goerr option \<times> 'e world" where
  "realClock_Sleep pick c d w =
     (if sint d \<le> 0 then (map_option ECtx (ctx_Err c (now w)), w)
      else
        let wake = now w + sint d in
        case ctx_done c of
          None \<Rightarrow> (None, w\<lparr>now := wake\<rparr>)
        | Some (t0, e) \<Rightarrow>
            if t0 < wake \<or> (t0 = wake \<and> pick (now w))
            then (Some (ECtx e), w\<lparr>now := max (now w) t0\<rparr>)
            else (None, w\<lparr>now := wake\<rparr>))"

definition realClock :: "(time \<Rightarrow> bool) \<Rightarrow> 'e clock" where
  "realClock pick = \<lparr>clock_Now = realClock_Now, clock_Sleep = realClock_Sleep pick\<rparr>"

interpretation real_clock: clock_contract "realClock_Sleep pick" for pick
proof unfold_locales
  fix c d and w w' :: "'e world"
  assume "realClock_Sleep pick c d w = (None, w')"
  then show "now w' = now w + max 0 (sint d)"
    by (auto simp: realClock_Sleep_def Let_def split: option.splits if_splits)
next
  fix c d and w w' :: "'e world" and e
  assume "realClock_Sleep pick c d w = (Some e, w')"
  then show "now w \<le> now w' \<and> (\<exists>x. e = ECtx x \<and> ctx_Err c (now w') = Some x)"
    by (auto simp: realClock_Sleep_def Let_def ctx_Err_def split: option.splits if_splits)
next
  fix c d and w w' :: "'e world" and r
  assume r: "realClock_Sleep pick c d w = (r, w')"
  then show "trace w' = trace w \<and> ext w' = ext w" "by_deadline c w (now w')"
    by (auto simp: realClock_Sleep_def Let_def by_deadline_def split: option.splits if_splits)
  assume "ctx_Err c (now w + max 0 (sint d)) = None"
  with r show "r = None"
    by (auto simp: realClock_Sleep_def Let_def ctx_Err_def split: option.splits if_splits)
qed

end
