(* ===== verification/Json.thy ===== *)
theory Json
  imports Runtime
begin

text \<open>
  The part of Go's \<open>encoding/json\<close> the program uses, on byte strings: the syntax accepted by
  the scanner (\<open>json_Parse\<close>, with its nesting limit), the compact output of \<open>Marshal\<close>
  (\<open>json_print\<close>, with HTML escaping), and the decoding of values into Go types: \<open>null\<close>
  leaves a scalar or struct field unchanged and empties a slice, an unknown member is
  ignored, a member matches a field by its exact name or else by its folded name, the last
  of several members for a field wins. The texts of decoding errors are parameters.
\<close>

section \<open>Library parameters\<close>

text \<open>
  Parts of the Go library whose result the program only passes on: Unicode tables, texts of
  JSON errors, calendar parsing (HTTP dates, RFC 3339) and URL syntax errors.
\<close>

datatype json =
    JNull
  | JBool bool
  | JNum string
  | JStr string
  | JArr "json list"
  | JObj "(string \<times> json) list"

record golib =
  lib_unicode :: unicode
  json_SyntaxText :: "string \<Rightarrow> string"
  json_TypeText :: "string \<Rightarrow> json \<Rightarrow> string"
  time_UnmarshalJSON :: "json \<Rightarrow> string + time"
  http_ParseTime :: "string \<Rightarrow> time option"
  url_ParseError :: "string \<Rightarrow> string option"

section \<open>Scanner\<close>

definition json_ws :: "char \<Rightarrow> bool" where
  "json_ws c \<longleftrightarrow> byte c = 32 \<or> byte c = 9 \<or> byte c = 13 \<or> byte c = 10"

definition skip_ws :: "string \<Rightarrow> string" where
  "skip_ws s = dropWhile json_ws s"

text \<open>Four hexadecimal digits after \<open>\u\<close>.\<close>

fun getu4 :: "string \<Rightarrow> nat option" where
  "getu4 (a # b # c # d # cs) =
     (case (unhex a, unhex b, unhex c, unhex d) of
        (Some p, Some q, Some r, Some t) \<Rightarrow> Some (4096 * p + 256 * q + 16 * r + t)
      | _ \<Rightarrow> None)"
| "getu4 _ = None"

definition is_surrogate :: "nat \<Rightarrow> bool" where
  "is_surrogate r \<longleftrightarrow> 55296 \<le> r \<and> r \<le> 57343"

text \<open>The rune of a surrogate pair, if the two halves form one.\<close>

definition utf16_decode :: "nat \<Rightarrow> nat \<Rightarrow> nat option" where
  "utf16_decode hi lo =
     (if 55296 \<le> hi \<and> hi < 56320 \<and> 56320 \<le> lo \<and> lo \<le> 57343
      then Some ((hi - 55296) * 1024 + (lo - 56320) + 65536) else None)"

definition simple_escape :: "char \<Rightarrow> char option" where
  "simple_escape c =
     (if c = dquote \<or> c = backslash \<or> c = CHR ''/'' then Some c
      else if c = CHR ''b'' then Some (chr 8)
      else if c = CHR ''f'' then Some (chr 12)
      else if c = CHR ''n'' then Some (chr 10)
      else if c = CHR ''r'' then Some (chr 13)
      else if c = CHR ''t'' then Some (chr 9)
      else None)"

text \<open>The rest of a string after its opening quote, with the text after the closing one.\<close>

function parse_string :: "string \<Rightarrow> (string \<times> string) option" where
  "parse_string [] = None"
| "parse_string (c # cs) =
     (if c = dquote then Some ([], cs)
      else if c = backslash then
        (case cs of
           [] \<Rightarrow> None
         | e # es \<Rightarrow>
             (case simple_escape e of
                Some x \<Rightarrow> map_option (\<lambda>(s, r). (x # s, r)) (parse_string es)
              | None \<Rightarrow>
                  if e = CHR ''u'' then
                    (case getu4 es of
                       None \<Rightarrow> None
                     | Some r \<Rightarrow>
                         if is_surrogate r then
                           (case (if take 2 (drop 4 es) = [backslash, CHR ''u'']
                                  then Option.bind (getu4 (drop 6 es)) (utf16_decode r) else None) of
                              Some p \<Rightarrow> map_option (\<lambda>(s, t). (EncodeRune p @ s, t)) (parse_string (drop 10 es))
                            | None \<Rightarrow> map_option (\<lambda>(s, t). (EncodeRune RuneError @ s, t)) (parse_string (drop 4 es)))
                         else map_option (\<lambda>(s, t). (EncodeRune r @ s, t)) (parse_string (drop 4 es)))
                  else None))
      else if byte c < 32 then None
      else if byte c < 128 then map_option (\<lambda>(s, t). (c # s, t)) (parse_string cs)
      else
        map_option (\<lambda>(s, t). (EncodeRune (fst (DecodeRune (c # cs))) @ s, t))
          (parse_string (drop (snd (DecodeRune (c # cs)) - 1) cs)))"
  by pat_completeness auto
termination
  by (relation "measure length") auto

definition digits_prefix :: "string \<Rightarrow> string \<times> string" where
  "digits_prefix s = (takeWhile is_digit s, dropWhile is_digit s)"

text \<open>A number literal: sign, integer part without leading zeros, fraction, exponent.\<close>

definition parse_int_part :: "string \<Rightarrow> (string \<times> string) option" where
  "parse_int_part s = (case s of
     [] \<Rightarrow> None
   | c # cs \<Rightarrow>
       if c = CHR ''0'' then Some ([c], cs)
       else if is_digit c then Some (c # takeWhile is_digit cs, dropWhile is_digit cs)
       else None)"

definition parse_frac :: "string \<Rightarrow> (string \<times> string) option" where
  "parse_frac s = (case s of
     [] \<Rightarrow> Some ([], [])
   | c # cs \<Rightarrow>
       if c = CHR ''.'' then
         (if takeWhile is_digit cs = [] then None
          else Some (c # takeWhile is_digit cs, dropWhile is_digit cs))
       else Some ([], s))"

definition parse_exp :: "string \<Rightarrow> (string \<times> string) option" where
  "parse_exp s = (case s of
     [] \<Rightarrow> Some ([], [])
   | c # cs \<Rightarrow>
       if c = CHR ''e'' \<or> c = CHR ''E'' then
         (let sg = (case cs of d # _ \<Rightarrow> if d = CHR ''+'' \<or> d = CHR ''-'' then [d] else [] | [] \<Rightarrow> []);
              ds = drop (length sg) cs
          in if takeWhile is_digit ds = [] then None
             else Some (c # sg @ takeWhile is_digit ds, dropWhile is_digit ds))
       else Some ([], s))"

definition parse_number :: "string \<Rightarrow> (string \<times> string) option" where
  "parse_number s =
     (let sg = (if HasPrefix s ''-'' then ''-'' else []) in
      case parse_int_part (drop (length sg) s) of
        None \<Rightarrow> None
      | Some (i, s1) \<Rightarrow>
          (case parse_frac s1 of
             None \<Rightarrow> None
           | Some (f, s2) \<Rightarrow>
               (case parse_exp s2 of
                  None \<Rightarrow> None
                | Some (e, s3) \<Rightarrow> Some (sg @ i @ f @ e, s3))))"

definition maxNestingDepth :: nat where
  "maxNestingDepth = 10000"

text \<open>The text after the character \<open>c\<close>, if that is the next one after white space.\<close>

definition expect :: "char \<Rightarrow> string \<Rightarrow> string option" where
  "expect c s = (case skip_ws s of [] \<Rightarrow> None | x # t \<Rightarrow> if x = c then Some t else None)"

text \<open>
  Values, array elements and object members; the first argument is fuel (one unit per call,
  twice the length of the input suffices), the second the nesting depth.
\<close>

fun parse_value :: "nat \<Rightarrow> nat \<Rightarrow> string \<Rightarrow> (json \<times> string) option"
  and parse_elems :: "nat \<Rightarrow> nat \<Rightarrow> string \<Rightarrow> (json list \<times> string) option"
  and parse_members :: "nat \<Rightarrow> nat \<Rightarrow> string \<Rightarrow> ((string \<times> json) list \<times> string) option" where
  "parse_value 0 d s = None"
| "parse_value (Suc k) d s =
     (case skip_ws s of
        [] \<Rightarrow> None
      | c # cs \<Rightarrow>
          if c = dquote then map_option (\<lambda>(x, t). (JStr x, t)) (parse_string cs)
          else if c = CHR ''['' then
            (if maxNestingDepth \<le> d then None
             else
               (case expect (CHR '']'') cs of
                  Some t \<Rightarrow> Some (JArr [], t)
                | None \<Rightarrow> map_option (\<lambda>(xs, t). (JArr xs, t)) (parse_elems k (Suc d) cs)))
          else if c = CHR ''{'' then
            (if maxNestingDepth \<le> d then None
             else
               (case expect (CHR ''}'') cs of
                  Some t \<Rightarrow> Some (JObj [], t)
                | None \<Rightarrow> map_option (\<lambda>(ms, t). (JObj ms, t)) (parse_members k (Suc d) cs)))
          else if HasPrefix (c # cs) ''null'' then Some (JNull, drop 4 (c # cs))
          else if HasPrefix (c # cs) ''true'' then Some (JBool True, drop 4 (c # cs))
          else if HasPrefix (c # cs) ''false'' then Some (JBool False, drop 5 (c # cs))
          else map_option (\<lambda>(x, t). (JNum x, t)) (parse_number (c # cs)))"
| "parse_elems 0 d s = None"
| "parse_elems (Suc k) d s =
     (case parse_value k d s of
        None \<Rightarrow> None
      | Some (v, t) \<Rightarrow>
          (case expect (CHR '','') t of
             Some t' \<Rightarrow> map_option (\<lambda>(vs, r). (v # vs, r)) (parse_elems k d t')
           | None \<Rightarrow> map_option (\<lambda>r. ([v], r)) (expect (CHR '']'') t)))"
| "parse_members 0 d s = None"
| "parse_members (Suc k) d s =
     (case Option.bind (expect dquote s) parse_string of
        None \<Rightarrow> None
      | Some (key, t) \<Rightarrow>
          (case Option.bind (expect (CHR '':'') t) (parse_value k d) of
             None \<Rightarrow> None
           | Some (v, t2) \<Rightarrow>
               (case expect (CHR '','') t2 of
                  Some t' \<Rightarrow> map_option (\<lambda>(ms, r). ((key, v) # ms, r)) (parse_members k d t')
                | None \<Rightarrow> map_option (\<lambda>r. ([(key, v)], r)) (expect (CHR ''}'') t2))))"

definition json_Parse :: "golib \<Rightarrow> string \<Rightarrow> string + json" where
  "json_Parse lib s = (case parse_value (2 * length s + 2) 0 s of
     None \<Rightarrow> Inl (json_SyntaxText lib s)
   | Some (v, t) \<Rightarrow> if skip_ws t = [] then Inr v else Inl (json_SyntaxText lib s))"

section \<open>Printer\<close>

definition json_escape :: "rune \<Rightarrow> string" where
  "json_escape r =
     (if r = 34 \<or> r = 92 then [backslash, chr r]
      else if r = 8 then [backslash, CHR ''b'']
      else if r = 12 then [backslash, CHR ''f'']
      else if r = 10 then [backslash, CHR ''n'']
      else if r = 13 then [backslash, CHR ''r'']
      else if r = 9 then [backslash, CHR ''t'']
      else if r < 32 \<or> r = 60 \<or> r = 62 \<or> r = 38 then backslash # ''u00'' @ hex 2 r
      else if r = 8232 \<or> r = 8233 then backslash # ''u202'' @ hex 1 r
      else EncodeRune r)"

fun json_string_body :: "string \<Rightarrow> string" where
  "json_string_body [] = []"
| "json_string_body (c # cs) =
     (let (r, w) = DecodeRune (c # cs)
      in (if r = RuneError \<and> w = 1 then backslash # ''ufffd'' else json_escape r)
         @ json_string_body (drop (w - 1) cs))"

definition json_string :: "string \<Rightarrow> string" where
  "json_string s = dquote # json_string_body s @ [dquote]"

fun json_print :: "json \<Rightarrow> string"
  and json_print_list :: "json list \<Rightarrow> string"
  and json_print_members :: "(string \<times> json) list \<Rightarrow> string" where
  "json_print JNull = ''null''"
| "json_print (JBool b) = (if b then ''true'' else ''false'')"
| "json_print (JNum n) = n"
| "json_print (JStr s) = json_string s"
| "json_print (JArr vs) = ''['' @ json_print_list vs @ '']''"
| "json_print (JObj ms) = ''{'' @ json_print_members ms @ ''}''"
| "json_print_list [] = []"
| "json_print_list [v] = json_print v"
| "json_print_list (v # w # vs) = json_print v @ '','' @ json_print_list (w # vs)"
| "json_print_members [] = []"
| "json_print_members [(k, v)] = json_string k @ '':'' @ json_print v"
| "json_print_members ((k, v) # m # ms) =
     json_string k @ '':'' @ json_print v @ '','' @ json_print_members (m # ms)"

section \<open>Decoding into Go types\<close>

text \<open>Field names are ASCII; folding maps to upper case, and the Kelvin sign and the long s to
  their ASCII letters.\<close>

definition fold_rune :: "rune \<Rightarrow> rune" where
  "fold_rune r =
     (if 97 \<le> r \<and> r \<le> 122 then r - 32 else if r = 8490 then 75 else if r = 383 then 83 else r)"

definition folded_name :: "string \<Rightarrow> rune list" where
  "folded_name s = map (fold_rune \<circ> fst) (runes s)"

definition json_field :: "string \<Rightarrow> (string \<times> 'f) list \<Rightarrow> 'f option" where
  "json_field key flds = (case map_of flds key of
     Some f \<Rightarrow> Some f
   | None \<Rightarrow> map_option snd (find (\<lambda>(n, f). folded_name n = folded_name key) flds))"

type_synonym 'a decoder = "'a \<Rightarrow> json \<Rightarrow> string + 'a"

definition dec_string :: "golib \<Rightarrow> string \<Rightarrow> string decoder" where
  "dec_string lib fld cur j = (case j of
     JNull \<Rightarrow> Inr cur
   | JStr s \<Rightarrow> Inr s
   | _ \<Rightarrow> Inl (json_TypeText lib fld j))"

definition dec_bool :: "golib \<Rightarrow> string \<Rightarrow> bool decoder" where
  "dec_bool lib fld cur j = (case j of
     JNull \<Rightarrow> Inr cur
   | JBool b \<Rightarrow> Inr b
   | _ \<Rightarrow> Inl (json_TypeText lib fld j))"

definition dec_int :: "golib \<Rightarrow> string \<Rightarrow> int decoder" where
  "dec_int lib fld cur j = (case j of
     JNull \<Rightarrow> Inr cur
   | JNum n \<Rightarrow> (case Atoi n of Some i \<Rightarrow> Inr i | None \<Rightarrow> Inl (json_TypeText lib fld j))
   | _ \<Rightarrow> Inl (json_TypeText lib fld j))"

definition dec_int64 :: "golib \<Rightarrow> string \<Rightarrow> int64 decoder" where
  "dec_int64 lib fld cur j = (case dec_int lib fld (sint cur) j of
     Inl e \<Rightarrow> Inl e
   | Inr i \<Rightarrow> Inr (word_of_int i))"

definition dec_int_ptr :: "golib \<Rightarrow> string \<Rightarrow> int option decoder" where
  "dec_int_ptr lib fld cur j = (case j of
     JNull \<Rightarrow> Inr None
   | _ \<Rightarrow> (case dec_int lib fld 0 j of Inl e \<Rightarrow> Inl e | Inr i \<Rightarrow> Inr (Some i)))"

fun dec_all :: "(json \<Rightarrow> string + 'a) \<Rightarrow> json list \<Rightarrow> string + 'a list" where
  "dec_all f [] = Inr []"
| "dec_all f (j # js) = (case f j of
     Inl e \<Rightarrow> Inl e
   | Inr x \<Rightarrow> (case dec_all f js of Inl e \<Rightarrow> Inl e | Inr xs \<Rightarrow> Inr (x # xs)))"

definition dec_slice :: "golib \<Rightarrow> string \<Rightarrow> (json \<Rightarrow> string + 'a) \<Rightarrow> 'a list decoder" where
  "dec_slice lib fld f cur j = (case j of
     JNull \<Rightarrow> Inr []
   | JArr js \<Rightarrow> dec_all f js
   | _ \<Rightarrow> Inl (json_TypeText lib fld j))"

fun dec_members :: "(string \<times> 'a decoder) list \<Rightarrow> 'a \<Rightarrow> (string \<times> json) list \<Rightarrow> string + 'a" where
  "dec_members flds cur [] = Inr cur"
| "dec_members flds cur ((key, v) # ms) = (case json_field key flds of
     None \<Rightarrow> dec_members flds cur ms
   | Some f \<Rightarrow> (case f cur v of Inl e \<Rightarrow> Inl e | Inr cur' \<Rightarrow> dec_members flds cur' ms))"

definition dec_struct :: "golib \<Rightarrow> string \<Rightarrow> (string \<times> 'a decoder) list \<Rightarrow> 'a decoder" where
  "dec_struct lib fld flds cur j = (case j of
     JNull \<Rightarrow> Inr cur
   | JObj ms \<Rightarrow> dec_members flds cur ms
   | _ \<Rightarrow> Inl (json_TypeText lib fld j))"

text \<open>Lift a decoder of one field to the struct it belongs to.\<close>

definition dec_field :: "('a \<Rightarrow> 'b) \<Rightarrow> ('b \<Rightarrow> 'a \<Rightarrow> 'a) \<Rightarrow> 'b decoder \<Rightarrow> 'a decoder" where
  "dec_field get put f cur j = (case f (get cur) j of Inl e \<Rightarrow> Inl e | Inr x \<Rightarrow> Inr (put x cur))"

definition json_Unmarshal :: "golib \<Rightarrow> 'a decoder \<Rightarrow> 'a \<Rightarrow> string \<Rightarrow> string + 'a" where
  "json_Unmarshal lib decode zero raw = (case json_Parse lib raw of
     Inl e \<Rightarrow> Inl e
   | Inr j \<Rightarrow> decode zero j)"

end
