(* ===== verification/Wire.thy ===== *)
theory Wire
  imports Json
begin

text \<open>
  The wire types of \<open>src/internal/hcloud/types.go\<close> and the error envelope of
  \<open>errors.go\<close>: records with the source's fields, the JSON decoders their tags describe, and
  the encoders of the two request bodies. A \<open>map[string]string\<close> is an association list with
  distinct keys; slices of requests are non-nil, as the solver builds them.
\<close>

section \<open>Types\<close>

record Zone =
  zone_ID :: int64
  zone_Name :: string
  zone_Mode :: string
  zone_Status :: string
  zone_TTL :: int
  zone_RecordsCnt :: int
  zone_Created :: time

record Record =
  rec_Value :: string
  rec_Comment :: string

record RRSet =
  rr_ID :: string
  rr_Name :: string
  rr_Type :: string
  rr_TTL :: "int option"
  rr_Records :: "Record list"
  rr_Protect :: bool
  rr_ZoneID :: int64
  rr_Labels :: "(string \<times> string) list"

record pagination =
  pg_Page :: int
  pg_PerPage :: int
  pg_PreviousPage :: int
  pg_NextPage :: int
  pg_LastPage :: int
  pg_TotalEntries :: int

record meta =
  meta_Pagination :: pagination

record listZonesResponse =
  lz_Zones :: "Zone list"
  lz_Meta :: meta

record Action =
  act_ID :: int64
  act_Command :: string
  act_Status :: string
  act_Progress :: int

record CreateRRSetRequest =
  crq_Name :: string
  crq_Type :: string
  crq_TTL :: "int option"
  crq_Records :: "Record list"
  crq_Labels :: "(string \<times> string) list"

record SetRRSetRecordsRequest =
  srq_Records :: "Record list"

record hcloudErrorBody =
  eb_Code :: string
  eb_Message :: string

section \<open>Zero values\<close>

text \<open>The zero \<open>time.Time\<close> is the first instant of year 1.\<close>

definition zero_time :: time where
  "zero_time = - 62135596800 * 1000000000"

definition zero_Zone :: Zone where
  "zero_Zone = \<lparr>zone_ID = 0, zone_Name = [], zone_Mode = [], zone_Status = [], zone_TTL = 0,
     zone_RecordsCnt = 0, zone_Created = zero_time\<rparr>"

definition zero_Record :: Record where
  "zero_Record = \<lparr>rec_Value = [], rec_Comment = []\<rparr>"

definition zero_RRSet :: RRSet where
  "zero_RRSet = \<lparr>rr_ID = [], rr_Name = [], rr_Type = [], rr_TTL = None, rr_Records = [],
     rr_Protect = False, rr_ZoneID = 0, rr_Labels = []\<rparr>"

definition zero_pagination :: pagination where
  "zero_pagination = \<lparr>pg_Page = 0, pg_PerPage = 0, pg_PreviousPage = 0, pg_NextPage = 0,
     pg_LastPage = 0, pg_TotalEntries = 0\<rparr>"

definition zero_meta :: meta where
  "zero_meta = \<lparr>meta_Pagination = zero_pagination\<rparr>"

definition zero_listZonesResponse :: listZonesResponse where
  "zero_listZonesResponse = \<lparr>lz_Zones = [], lz_Meta = zero_meta\<rparr>"

definition zero_Action :: Action where
  "zero_Action = \<lparr>act_ID = 0, act_Command = [], act_Status = [], act_Progress = 0\<rparr>"

definition zero_hcloudErrorBody :: hcloudErrorBody where
  "zero_hcloudErrorBody = \<lparr>eb_Code = [], eb_Message = []\<rparr>"

section \<open>Decoders\<close>

definition dec_time :: "golib \<Rightarrow> time decoder" where
  "dec_time lib cur j = (case j of JNull \<Rightarrow> Inr cur | _ \<Rightarrow> time_UnmarshalJSON lib j)"

definition dec_string_map :: "golib \<Rightarrow> string \<Rightarrow> (string \<times> string) list decoder" where
  "dec_string_map lib fld cur j = (case j of
     JNull \<Rightarrow> Inr []
   | JObj ms \<Rightarrow>
       foldl (\<lambda>r (k, v). case r of
           Inl e \<Rightarrow> Inl e
         | Inr m \<Rightarrow>
             (case dec_string lib fld [] v of
                Inl e \<Rightarrow> Inl e
              | Inr s \<Rightarrow> Inr (filter (\<lambda>(k', _). k' \<noteq> k) m @ [(k, s)])))
         (Inr cur) ms
   | _ \<Rightarrow> Inl (json_TypeText lib fld j))"

definition dec_Zone :: "golib \<Rightarrow> Zone decoder" where
  "dec_Zone lib = dec_struct lib ''Zone''
     [(''id'', dec_field zone_ID (\<lambda>x z. z\<lparr>zone_ID := x\<rparr>) (dec_int64 lib ''id'')),
      (''name'', dec_field zone_Name (\<lambda>x z. z\<lparr>zone_Name := x\<rparr>) (dec_string lib ''name'')),
      (''mode'', dec_field zone_Mode (\<lambda>x z. z\<lparr>zone_Mode := x\<rparr>) (dec_string lib ''mode'')),
      (''status'', dec_field zone_Status (\<lambda>x z. z\<lparr>zone_Status := x\<rparr>) (dec_string lib ''status'')),
      (''ttl'', dec_field zone_TTL (\<lambda>x z. z\<lparr>zone_TTL := x\<rparr>) (dec_int lib ''ttl'')),
      (''records_count'', dec_field zone_RecordsCnt (\<lambda>x z. z\<lparr>zone_RecordsCnt := x\<rparr>)
         (dec_int lib ''records_count'')),
      (''created'', dec_field zone_Created (\<lambda>x z. z\<lparr>zone_Created := x\<rparr>) (dec_time lib))]"

definition dec_Record :: "golib \<Rightarrow> Record decoder" where
  "dec_Record lib = dec_struct lib ''Record''
     [(''value'', dec_field rec_Value (\<lambda>x r. r\<lparr>rec_Value := x\<rparr>) (dec_string lib ''value'')),
      (''comment'', dec_field rec_Comment (\<lambda>x r. r\<lparr>rec_Comment := x\<rparr>) (dec_string lib ''comment''))]"

definition dec_RRSet :: "golib \<Rightarrow> RRSet decoder" where
  "dec_RRSet lib = dec_struct lib ''RRSet''
     [(''id'', dec_field rr_ID (\<lambda>x r. r\<lparr>rr_ID := x\<rparr>) (dec_string lib ''id'')),
      (''name'', dec_field rr_Name (\<lambda>x r. r\<lparr>rr_Name := x\<rparr>) (dec_string lib ''name'')),
      (''type'', dec_field rr_Type (\<lambda>x r. r\<lparr>rr_Type := x\<rparr>) (dec_string lib ''type'')),
      (''ttl'', dec_field rr_TTL (\<lambda>x r. r\<lparr>rr_TTL := x\<rparr>) (dec_int_ptr lib ''ttl'')),
      (''records'', dec_field rr_Records (\<lambda>x r. r\<lparr>rr_Records := x\<rparr>)
         (dec_slice lib ''records'' (dec_Record lib zero_Record))),
      (''protected'', dec_field rr_Protect (\<lambda>x r. r\<lparr>rr_Protect := x\<rparr>) (dec_bool lib ''protected'')),
      (''zone_id'', dec_field rr_ZoneID (\<lambda>x r. r\<lparr>rr_ZoneID := x\<rparr>) (dec_int64 lib ''zone_id'')),
      (''labels'', dec_field rr_Labels (\<lambda>x r. r\<lparr>rr_Labels := x\<rparr>) (dec_string_map lib ''labels''))]"

definition dec_pagination :: "golib \<Rightarrow> pagination decoder" where
  "dec_pagination lib = dec_struct lib ''pagination''
     [(''page'', dec_field pg_Page (\<lambda>x p. p\<lparr>pg_Page := x\<rparr>) (dec_int lib ''page'')),
      (''per_page'', dec_field pg_PerPage (\<lambda>x p. p\<lparr>pg_PerPage := x\<rparr>) (dec_int lib ''per_page'')),
      (''previous_page'', dec_field pg_PreviousPage (\<lambda>x p. p\<lparr>pg_PreviousPage := x\<rparr>)
         (dec_int lib ''previous_page'')),
      (''next_page'', dec_field pg_NextPage (\<lambda>x p. p\<lparr>pg_NextPage := x\<rparr>) (dec_int lib ''next_page'')),
      (''last_page'', dec_field pg_LastPage (\<lambda>x p. p\<lparr>pg_LastPage := x\<rparr>) (dec_int lib ''last_page'')),
      (''total_entries'', dec_field pg_TotalEntries (\<lambda>x p. p\<lparr>pg_TotalEntries := x\<rparr>)
         (dec_int lib ''total_entries''))]"

definition dec_meta :: "golib \<Rightarrow> meta decoder" where
  "dec_meta lib = dec_struct lib ''meta''
     [(''pagination'', dec_field meta_Pagination (\<lambda>x m. m\<lparr>meta_Pagination := x\<rparr>) (dec_pagination lib))]"

definition dec_listZonesResponse :: "golib \<Rightarrow> listZonesResponse decoder" where
  "dec_listZonesResponse lib = dec_struct lib ''listZonesResponse''
     [(''zones'', dec_field lz_Zones (\<lambda>x r. r\<lparr>lz_Zones := x\<rparr>)
         (dec_slice lib ''zones'' (dec_Zone lib zero_Zone))),
      (''meta'', dec_field lz_Meta (\<lambda>x r. r\<lparr>lz_Meta := x\<rparr>) (dec_meta lib))]"

text \<open>An envelope with one member is decoded to the value of that member.\<close>

definition dec_rrsetEnvelope :: "golib \<Rightarrow> RRSet decoder" where
  "dec_rrsetEnvelope lib = dec_struct lib ''rrsetEnvelope'' [(''rrset'', dec_RRSet lib)]"

definition dec_Action :: "golib \<Rightarrow> Action decoder" where
  "dec_Action lib = dec_struct lib ''Action''
     [(''id'', dec_field act_ID (\<lambda>x a. a\<lparr>act_ID := x\<rparr>) (dec_int64 lib ''id'')),
      (''command'', dec_field act_Command (\<lambda>x a. a\<lparr>act_Command := x\<rparr>) (dec_string lib ''command'')),
      (''status'', dec_field act_Status (\<lambda>x a. a\<lparr>act_Status := x\<rparr>) (dec_string lib ''status'')),
      (''progress'', dec_field act_Progress (\<lambda>x a. a\<lparr>act_Progress := x\<rparr>) (dec_int lib ''progress''))]"

definition dec_actionEnvelope :: "golib \<Rightarrow> Action decoder" where
  "dec_actionEnvelope lib = dec_struct lib ''actionEnvelope'' [(''action'', dec_Action lib)]"

definition dec_hcloudErrorEnvelope :: "golib \<Rightarrow> hcloudErrorBody decoder" where
  "dec_hcloudErrorEnvelope lib = dec_struct lib ''hcloudErrorEnvelope''
     [(''error'', dec_struct lib ''hcloudErrorBody''
        [(''code'', dec_field eb_Code (\<lambda>x b. b\<lparr>eb_Code := x\<rparr>) (dec_string lib ''code'')),
         (''message'', dec_field eb_Message (\<lambda>x b. b\<lparr>eb_Message := x\<rparr>) (dec_string lib ''message''))])]"

section \<open>Encoders\<close>

definition marshal_Record :: "Record \<Rightarrow> json" where
  "marshal_Record r =
     JObj ((''value'', JStr (rec_Value r)) #
           (if rec_Comment r = [] then [] else [(''comment'', JStr (rec_Comment r))]))"

definition marshal_labels :: "(string \<times> string) list \<Rightarrow> json" where
  "marshal_labels m = JObj (map (\<lambda>(k, v). (k, JStr v)) (sort_key fst m))"

definition marshal_CreateRRSetRequest :: "CreateRRSetRequest \<Rightarrow> json" where
  "marshal_CreateRRSetRequest q =
     JObj ([(''name'', JStr (crq_Name q)), (''type'', JStr (crq_Type q))] @
           (case crq_TTL q of None \<Rightarrow> [] | Some t \<Rightarrow> [(''ttl'', JNum (Itoa t))]) @
           [(''records'', JArr (map marshal_Record (crq_Records q)))] @
           (if crq_Labels q = [] then [] else [(''labels'', marshal_labels (crq_Labels q))]))"

definition marshal_SetRRSetRecordsRequest :: "SetRRSetRecordsRequest \<Rightarrow> json" where
  "marshal_SetRRSetRecordsRequest q = JObj [(''records'', JArr (map marshal_Record (srq_Records q)))]"

end
