(* ===== verification/Client.thy ===== *)
theory Client
  imports Wire
begin

text \<open>
  The Hetzner Cloud Zones client, \<open>src/internal/hcloud/client.go\<close>: construction with
  options, the retry loop \<open>do\<close> around the single attempt \<open>doOnce\<close>, error parsing,
  \<open>Retry-After\<close>, the backoff, and the four endpoints. The HTTP transport and the token source
  are fields of the client, as in the code.
\<close>

section \<open>Client and options\<close>

type_synonym 'e transport = "ctx \<Rightarrow> http_request \<Rightarrow> time \<Rightarrow> 'e \<Rightarrow> (string + http_response) \<times> nat \<times> 'e"

type_synonym 'e TokenSource = "ctx \<Rightarrow> 'e world \<Rightarrow> string result \<times> 'e world"

record 'e Client =
  cl_baseURL :: string
  cl_httpClient :: "'e transport"
  cl_token :: "'e TokenSource"
  cl_logger :: logger
  cl_clock :: "'e clock"
  cl_requestTimeout :: duration
  cl_maxRetries :: int
  cl_initialBackoff :: duration
  cl_maxBackoff :: duration
  cl_userAgent :: string

definition second :: duration where
  "second = 1000000000"

definition millisecond :: duration where
  "millisecond = 1000000"

definition DefaultBaseURL :: string where
  "DefaultBaseURL = ''https://api.hetzner.cloud''"

definition defaultRequestTimeout :: duration where
  "defaultRequestTimeout = 30 * second"

definition defaultMaxRetries :: int where
  "defaultMaxRetries = 6"

definition defaultInitialBackoff :: duration where
  "defaultInitialBackoff = 500 * millisecond"

definition defaultMaxBackoff :: duration where
  "defaultMaxBackoff = 30 * second"

definition defaultUserAgent :: string where
  "defaultUserAgent = ''cert-manager-webhook-hcloud-zones/dev''"

definition redactedToken :: string where
  "redactedToken = ''REDACTED''"

definition StaticToken :: "string \<Rightarrow> 'e TokenSource" where
  "StaticToken token = (\<lambda>c w. (Inr token, w))"

type_synonym 'e client_option = "'e Client \<Rightarrow> 'e Client"

definition WithHTTPClient :: "'e transport option \<Rightarrow> 'e client_option" where
  "WithHTTPClient hc c = (case hc of None \<Rightarrow> c | Some h \<Rightarrow> c\<lparr>cl_httpClient := h\<rparr>)"

definition WithBaseURL :: "string \<Rightarrow> 'e client_option" where
  "WithBaseURL url c = (if url \<noteq> [] then c\<lparr>cl_baseURL := TrimRight1 url (CHR ''/'')\<rparr> else c)"

definition client_WithLogger :: "logger option \<Rightarrow> 'e client_option" where
  "client_WithLogger l c = (case l of None \<Rightarrow> c | Some lg \<Rightarrow> c\<lparr>cl_logger := lg\<rparr>)"

definition client_WithClock :: "'e clock option \<Rightarrow> 'e client_option" where
  "client_WithClock k c = (case k of None \<Rightarrow> c | Some ck \<Rightarrow> c\<lparr>cl_clock := ck\<rparr>)"

definition WithRequestTimeout :: "duration \<Rightarrow> 'e client_option" where
  "WithRequestTimeout d c = (if 0 < sint d then c\<lparr>cl_requestTimeout := d\<rparr> else c)"

definition WithMaxRetries :: "int \<Rightarrow> 'e client_option" where
  "WithMaxRetries n c = (if 0 \<le> n then c\<lparr>cl_maxRetries := n\<rparr> else c)"

definition WithBackoff :: "duration \<Rightarrow> duration \<Rightarrow> 'e client_option" where
  "WithBackoff initial mx c =
     (let c1 = (if 0 < sint initial then c\<lparr>cl_initialBackoff := initial\<rparr> else c)
      in if 0 < sint mx then c1\<lparr>cl_maxBackoff := mx\<rparr> else c1)"

definition WithUserAgent :: "string \<Rightarrow> 'e client_option" where
  "WithUserAgent ua c = (if ua \<noteq> [] then c\<lparr>cl_userAgent := ua\<rparr> else c)"

text \<open>\<open>New\<close>; the default transport and the real clock are given by the environment.\<close>

definition client_New ::
  "'e transport \<Rightarrow> (time \<Rightarrow> bool) \<Rightarrow> 'e TokenSource option \<Rightarrow> 'e client_option list \<Rightarrow> 'e Client result" where
  "client_New defaultHTTP pick token opts = (case token of
     None \<Rightarrow> Inl (ENew ''hcloud: token source must not be nil'')
   | Some tok \<Rightarrow>
       Inr (foldl (\<lambda>c opt. opt c)
         \<lparr>cl_baseURL = DefaultBaseURL, cl_httpClient = defaultHTTP, cl_token = tok,
          cl_logger = slog_Default, cl_clock = realClock pick,
          cl_requestTimeout = defaultRequestTimeout, cl_maxRetries = defaultMaxRetries,
          cl_initialBackoff = defaultInitialBackoff, cl_maxBackoff = defaultMaxBackoff,
          cl_userAgent = defaultUserAgent\<rparr> opts))"

section \<open>Errors and delays\<close>

text \<open>\<open>http.StatusText\<close>.\<close>

definition status_texts :: "(int \<times> string) list" where
  "status_texts =
     [(100, ''Continue''), (101, ''Switching Protocols''), (102, ''Processing''), (103, ''Early Hints''),
      (200, ''OK''), (201, ''Created''), (202, ''Accepted''), (203, ''Non-Authoritative Information''),
      (204, ''No Content''), (205, ''Reset Content''), (206, ''Partial Content''),
      (207, ''Multi-Status''), (208, ''Already Reported''), (226, ''IM Used''),
      (300, ''Multiple Choices''), (301, ''Moved Permanently''), (302, ''Found''), (303, ''See Other''),
      (304, ''Not Modified''), (305, ''Use Proxy''), (307, ''Temporary Redirect''),
      (308, ''Permanent Redirect''),
      (400, ''Bad Request''), (401, ''Unauthorized''), (402, ''Payment Required''), (403, ''Forbidden''),
      (404, ''Not Found''), (405, ''Method Not Allowed''), (406, ''Not Acceptable''),
      (407, ''Proxy Authentication Required''), (408, ''Request Timeout''), (409, ''Conflict''),
      (410, ''Gone''), (411, ''Length Required''), (412, ''Precondition Failed''),
      (413, ''Request Entity Too Large''), (414, ''Request URI Too Long''),
      (415, ''Unsupported Media Type''), (416, ''Requested Range Not Satisfiable''),
      (417, ''Expectation Failed''), (418, ''I'' @ [chr 39] @ ''m a teapot''),
      (421, ''Misdirected Request''), (422, ''Unprocessable Entity''), (423, ''Locked''),
      (424, ''Failed Dependency''), (425, ''Too Early''), (426, ''Upgrade Required''),
      (428, ''Precondition Required''), (429, ''Too Many Requests''),
      (431, ''Request Header Fields Too Large''), (451, ''Unavailable For Legal Reasons''),
      (500, ''Internal Server Error''), (501, ''Not Implemented''), (502, ''Bad Gateway''),
      (503, ''Service Unavailable''), (504, ''Gateway Timeout''), (505, ''HTTP Version Not Supported''),
      (506, ''Variant Also Negotiates''), (507, ''Insufficient Storage''), (508, ''Loop Detected''),
      (510, ''Not Extended''), (511, ''Network Authentication Required'')]"

definition StatusText :: "int \<Rightarrow> string" where
  "StatusText code = (case map_of status_texts code of Some s \<Rightarrow> s | None \<Rightarrow> [])"

definition header_Get :: "(string \<times> string) list \<Rightarrow> string \<Rightarrow> string" where
  "header_Get h k = (case map_of h k of Some v \<Rightarrow> v | None \<Rightarrow> [])"

text \<open>\<open>Time.Sub\<close> saturates at the ends of the range of \<open>Duration\<close>.\<close>

definition time_Sub :: "time \<Rightarrow> time \<Rightarrow> duration" where
  "time_Sub t u = word_of_int (max (- (2 ^ 63)) (min (2 ^ 63 - 1) (t - u)))"

text \<open>\<open>time.Duration(secs) * time.Second\<close> is a 64-bit product: it wraps around.\<close>

definition parseRetryAfter :: "golib \<Rightarrow> string \<Rightarrow> time \<Rightarrow> duration" where
  "parseRetryAfter lib header t0 =
     (let h = TrimSpace header in
      if h = [] then 0
      else
        (case Atoi h of
           Some secs \<Rightarrow> if secs < 0 then 0 else word_of_int secs * second
         | None \<Rightarrow>
             (case http_ParseTime lib h of
                Some t \<Rightarrow> (let d = time_Sub t t0 in if sint d < 0 then 0 else d)
              | None \<Rightarrow> 0)))"

definition parseAPIError :: "golib \<Rightarrow> http_response \<Rightarrow> string \<Rightarrow> time \<Rightarrow> APIError" where
  "parseAPIError lib resp body t0 =
     (let e0 = \<lparr>StatusCode = rs_StatusCode resp, Code = [], Message = [], RetryAfter = 0\<rparr>;
          e1 = (if body \<noteq> [] then
                  (case json_Unmarshal lib (dec_hcloudErrorEnvelope lib) zero_hcloudErrorBody body of
                     Inr env \<Rightarrow> e0\<lparr>Code := eb_Code env, Message := eb_Message env\<rparr>
                   | Inl _ \<Rightarrow> e0)
                else e0);
          e2 = (if Message e1 = [] then e1\<lparr>Message := StatusText (rs_StatusCode resp)\<rparr> else e1)
      in if rs_StatusCode resp = 429
         then e2\<lparr>RetryAfter := parseRetryAfter lib (header_Get (rs_Header resp) ''Retry-After'') t0\<rparr>
         else e2)"

definition isRetryable :: "goerr \<Rightarrow> bool" where
  "isRetryable err = (case errors_As err of
     None \<Rightarrow> False
   | Some a \<Rightarrow>
       if StatusCode a = 0 then True
       else if StatusCode a = 429 then True
       else if 500 \<le> StatusCode a \<and> StatusCode a < 600 then True
       else False)"

fun backoff_loop :: "nat \<Rightarrow> duration \<Rightarrow> duration \<Rightarrow> duration" where
  "backoff_loop 0 d mx = d"
| "backoff_loop (Suc k) d mx =
     (let d' = d * 2 in if sint mx \<le> sint d' then mx else backoff_loop k d' mx)"

definition backoffDelay :: "'e Client \<Rightarrow> int \<Rightarrow> goerr option \<Rightarrow> duration" where
  "backoffDelay c attempt lastErr =
     (case Option.bind lastErr errors_As of
        Some a \<Rightarrow>
          if 0 < sint (RetryAfter a) then
            (if sint (cl_maxBackoff c) < sint (RetryAfter a) then cl_maxBackoff c else RetryAfter a)
          else backoff_loop (nat (attempt - 1)) (cl_initialBackoff c) (cl_maxBackoff c)
      | None \<Rightarrow> backoff_loop (nat (attempt - 1)) (cl_initialBackoff c) (cl_maxBackoff c))"

section \<open>One attempt\<close>

definition make_request :: "'e Client \<Rightarrow> string \<Rightarrow> string \<Rightarrow> string option \<Rightarrow> string \<Rightarrow> http_request" where
  "make_request c meth path body token =
     \<lparr>rq_method = meth, rq_url = cl_baseURL c @ path,
      rq_header = [(''Authorization'', ''Bearer '' @ token), (''Accept'', ''application/json''),
                   (''User-Agent'', cl_userAgent c)] @
                  (case body of None \<Rightarrow> [] | Some _ \<Rightarrow> [(''Content-Type'', ''application/json'')]),
      rq_body = body\<rparr>"

text \<open>
  \<open>out\<close> is the decoder of the value the caller asked for (nil: none) and \<open>zero\<close> the value
  it holds before. The error of \<open>io.ReadAll\<close> is dropped, as in the code: what was read before it
  stands for the body. \<open>note_answer\<close> records the outcome of the request in the trace.
\<close>

definition note_answer :: "'e Client \<Rightarrow> answer \<Rightarrow> 'e world \<Rightarrow> 'e world" where
  "note_answer c res w = emit (HttpAnswered (clock_Now (cl_clock c) w) res) w"

lemma note_answer_simps [simp]:
  "now (note_answer c res w) = now w" "ext (note_answer c res w) = ext w"
  "http_sent (trace (note_answer c res w)) = http_sent (trace w)"
  "http_log (trace (note_answer c res w)) = http_log (trace w) @ [HttpAnswered (clock_Now (cl_clock c) w) res]"
  "slept (trace (note_answer c res w)) = slept (trace w)"
  "secrets_read (trace (note_answer c res w)) = secrets_read (trace w)"
  "logged (trace (note_answer c res w)) = logged (trace w)"
  by (simp_all add: note_answer_def)

definition doOnce ::
  "golib \<Rightarrow> 'e Client \<Rightarrow> ctx \<Rightarrow> string \<Rightarrow> string \<Rightarrow> string option \<Rightarrow> 'a decoder option \<Rightarrow> 'a
   \<Rightarrow> 'e world \<Rightarrow> 'a result \<times> 'e world" where
  "doOnce lib c cx meth path body out zero w =
     (case cl_token c cx w of
        (Inl err, w1) \<Rightarrow> (Inl (EWrap ''hcloud: read token: '' err []), w1)
      | (Inr token, w1) \<Rightarrow>
          let reqCtx = WithTimeout cx (cl_requestTimeout c) (now w1) in
          (case url_ParseError lib (cl_baseURL c @ path) of
             Some e \<Rightarrow> (Inl (EWrap ''hcloud: build request: '' (EExt e) []), w1)
           | None \<Rightarrow>
               let req = make_request c meth path body token;
                   w2 = LogAttrs (cl_logger c) LevelDebug ''hcloud: request''
                          [AStr ''method'' meth, AStr ''url'' (cl_baseURL c @ path),
                           AStr ''authorization'' (''Bearer '' @ redactedToken)] w1
               in (case call_out (cl_httpClient c reqCtx req) (emit (HttpSent req) w2) of
                     (Inl err, w3) \<Rightarrow>
                       (Inl (EAPI \<lparr>StatusCode = 0, Code = ''transport_error'', Message = err,
                                   RetryAfter = 0\<rparr>),
                        note_answer c (Inl err) (LogAttrs (cl_logger c) LevelWarn ''hcloud: transport error''
                          [AStr ''method'' meth, AStr ''path'' path, AStr ''error'' err] w3))
                   | (Inr resp, w3) \<Rightarrow>
                       let (rawBody, _) = io_ReadAll resp;
                           w4 = LogAttrs (cl_logger c) LevelDebug ''hcloud: response''
                                  [AStr ''method'' meth, AStr ''path'' path,
                                   AInt ''status'' (rs_StatusCode resp)] w3;
                           w5 = note_answer c (Inr resp) w4
                       in if 200 \<le> rs_StatusCode resp \<and> rs_StatusCode resp < 300 then
                            (case out of
                               None \<Rightarrow> (Inr zero, w5)
                             | Some decode \<Rightarrow>
                                 if rawBody = [] then (Inr zero, w5)
                                 else
                                   (case json_Unmarshal lib decode zero rawBody of
                                      Inl e \<Rightarrow>
                                        (Inl (EWrap (''hcloud: decode '' @ meth @ '' '' @ path @ '': '')
                                               (EExt e) []), w5)
                                    | Inr v \<Rightarrow> (Inr v, w5)))
                          else (Inl (EAPI (parseAPIError lib resp rawBody (clock_Now (cl_clock c) w4))), w5))))"

section \<open>The retry loop\<close>

definition before_attempt :: "'e Client \<Rightarrow> ctx \<Rightarrow> string \<Rightarrow> string \<Rightarrow> int \<Rightarrow> goerr option
   \<Rightarrow> 'e world \<Rightarrow> goerr option \<times> 'e world" where
  "before_attempt c cx meth path attempt lastErr w =
     (if 0 < attempt then
        let delay = backoffDelay c attempt lastErr;
            w1 = LogAttrs (cl_logger c) LevelDebug ''hcloud: retrying request''
                   [AStr ''method'' meth, AStr ''path'' path, AInt ''attempt'' attempt,
                    ADur ''delay'' delay] w
        in clock_Sleep (cl_clock c) cx delay (emit (SleepFor delay) w1)
      else (None, w))"

function do_loop ::
  "golib \<Rightarrow> 'e Client \<Rightarrow> ctx \<Rightarrow> string \<Rightarrow> string \<Rightarrow> string option \<Rightarrow> 'a decoder option \<Rightarrow> 'a
   \<Rightarrow> int \<Rightarrow> goerr option \<Rightarrow> 'e world \<Rightarrow> 'a result \<times> 'e world" where
  "do_loop lib c cx meth path body out zero attempt lastErr w =
     (if attempt \<le> cl_maxRetries c then
        (case before_attempt c cx meth path attempt lastErr w of
           (Some err, w1) \<Rightarrow> (Inl err, w1)
         | (None, w1) \<Rightarrow>
             (case doOnce lib c cx meth path body out zero w1 of
                (Inr v, w2) \<Rightarrow> (Inr v, w2)
              | (Inl err, w2) \<Rightarrow>
                  if \<not> isRetryable err then (Inl err, w2)
                  else do_loop lib c cx meth path body out zero (attempt + 1) (Some err) w2))
      else (case lastErr of Some err \<Rightarrow> (Inl err, w) | None \<Rightarrow> (Inr zero, w)))"
  by pat_completeness auto
termination
  by (relation "measure (\<lambda>(lib, c, cx, meth, path, body, out, zero, attempt, lastErr, w).
        nat (cl_maxRetries c + 1 - attempt))") auto

declare do_loop.simps [simp del]

text \<open>
  \<open>do\<close>: the body is encoded once. Encoding the two request types cannot fail (strings,
  integers, slices and maps of strings), so the branch for a marshalling error is dead.
\<close>

definition client_do ::
  "golib \<Rightarrow> 'e Client \<Rightarrow> ctx \<Rightarrow> string \<Rightarrow> string \<Rightarrow> json option \<Rightarrow> 'a decoder option \<Rightarrow> 'a
   \<Rightarrow> 'e world \<Rightarrow> 'a result \<times> 'e world" where
  "client_do lib c cx meth path body out zero w =
     do_loop lib c cx meth path (map_option json_print body) out zero 0 None w"

section \<open>The four endpoints\<close>

definition zone_path :: "int64 \<Rightarrow> string" where
  "zone_path zoneID = ''/v1/zones/'' @ Itoa (sint zoneID) @ ''/rrsets''"

definition rrset_path :: "int64 \<Rightarrow> string \<Rightarrow> string \<Rightarrow> string" where
  "rrset_path zoneID name rrType =
     zone_path zoneID @ ''/'' @ PathEscape name @ ''/'' @ PathEscape rrType"

definition ListZones :: "golib \<Rightarrow> 'e Client \<Rightarrow> ctx \<Rightarrow> 'e world \<Rightarrow> Zone list result \<times> 'e world" where
  "ListZones lib c cx w =
     (case client_do lib c cx ''GET'' ''/v1/zones'' None (Some (dec_listZonesResponse lib))
             zero_listZonesResponse w of
        (Inl err, w') \<Rightarrow> (Inl err, w')
      | (Inr out, w') \<Rightarrow> (Inr (lz_Zones out), w'))"

definition CreateRRSet ::
  "golib \<Rightarrow> 'e Client \<Rightarrow> ctx \<Rightarrow> int64 \<Rightarrow> CreateRRSetRequest \<Rightarrow> 'e world \<Rightarrow> RRSet result \<times> 'e world" where
  "CreateRRSet lib c cx zoneID req w =
     client_do lib c cx ''POST'' (zone_path zoneID) (Some (marshal_CreateRRSetRequest req))
       (Some (dec_rrsetEnvelope lib)) zero_RRSet w"

definition SetRRSetRecords ::
  "golib \<Rightarrow> 'e Client \<Rightarrow> ctx \<Rightarrow> int64 \<Rightarrow> string \<Rightarrow> string \<Rightarrow> SetRRSetRecordsRequest
   \<Rightarrow> 'e world \<Rightarrow> Action result \<times> 'e world" where
  "SetRRSetRecords lib c cx zoneID name rrType req w =
     client_do lib c cx ''POST'' (rrset_path zoneID name rrType @ ''/actions/set_records'')
       (Some (marshal_SetRRSetRecordsRequest req)) (Some (dec_actionEnvelope lib)) zero_Action w"

definition DeleteRRSet ::
  "golib \<Rightarrow> 'e Client \<Rightarrow> ctx \<Rightarrow> int64 \<Rightarrow> string \<Rightarrow> string \<Rightarrow> 'e world \<Rightarrow> unit result \<times> 'e world" where
  "DeleteRRSet lib c cx zoneID name rrType w =
     client_do lib c cx ''DELETE'' (rrset_path zoneID name rrType) None None () w"

end
