(* ===== verification/Client_Correct.thy ===== *)
theory Client_Correct
  imports Client
begin

text \<open>
  Correctness of the API client: the backoff schedule as a closed formula and its bounds,
  \<open>Retry-After\<close>, the shape of the request paths, and the retry loop: which requests are sent,
  how often, when it gives up, and that it respects the deadline of its context.
\<close>

section \<open>Backoff\<close>

lemma sint_double:
  fixes d :: duration
  assumes "0 \<le> sint d" and "sint d < 2 ^ 62"
  shows "sint (d * 2) = 2 * sint d"
proof -
  have "d * 2 = word_of_int (2 * sint d)"
    by (simp add: mult.commute)
  moreover have "in_int64 (2 * sint d)"
    using assms by (simp add: in_int64_def)
  ultimately show ?thesis
    by (metis sint_of_int64)
qed

lemma backoff_loop_exact:
  assumes "0 < sint d" and "sint d \<le> sint mx" and "sint mx < 2 ^ 62"
  shows "sint (backoff_loop k d mx) = min (sint d * 2 ^ k) (sint mx)"
  using assms
proof (induction k arbitrary: d)
  case (Suc k)
  then have d2: "sint (d * 2) = 2 * sint d"
    by (intro sint_double) auto
  show ?case
  proof (cases "sint mx \<le> 2 * sint d")
    case True
    moreover have "2 * sint d \<le> sint d * 2 ^ Suc k"
      using Suc.prems(1) by simp
    ultimately show ?thesis using d2 by (simp add: Let_def)
  next
    case False
    then have "sint (backoff_loop k (d * 2) mx) = min (sint (d * 2) * 2 ^ k) (sint mx)"
      using Suc d2 by (intro Suc.IH) auto
    with False d2 show ?thesis by (simp add: Let_def ac_simps)
  qed
qed simp

text \<open>Without the order of the two durations: the ceiling is not looked at before the first doubling.\<close>

lemma backoff_loop_general:
  assumes "0 < sint d" and "sint d < 2 ^ 62" and "0 < sint mx" and "sint mx < 2 ^ 62"
  shows "sint (backoff_loop k d mx) = (if k = 0 then sint d else min (sint d * 2 ^ k) (sint mx))"
proof (cases k)
  case (Suc j)
  have d2: "sint (d * 2) = 2 * sint d" by (rule sint_double) (use assms in auto)
  show ?thesis
  proof (cases "sint mx \<le> 2 * sint d")
    case True
    moreover have "sint d * 2 \<le> sint d * 2 ^ k" using assms(1) Suc by simp
    ultimately show ?thesis using Suc d2 by (simp add: Let_def)
  next
    case False
    then have "sint (backoff_loop j (d * 2) mx) = min (sint (d * 2) * 2 ^ j) (sint mx)"
      using assms d2 by (intro backoff_loop_exact) auto
    with False Suc d2 show ?thesis by (simp add: Let_def ac_simps)
  qed
qed simp

text \<open>The delay an error asks for: the \<open>RetryAfter\<close> of the \<open>*APIError\<close> in its chain.\<close>

definition retry_after :: "goerr option \<Rightarrow> int" where
  "retry_after e = (case Option.bind e errors_As of None \<Rightarrow> 0 | Some a \<Rightarrow> sint (RetryAfter a))"

text \<open>A backoff configuration without overflow: the ceiling is below \<open>2 ^ 62\<close> nanoseconds
  (146 years) and not below the first delay.\<close>

definition sane_backoff :: "'e Client \<Rightarrow> bool" where
  "sane_backoff c \<longleftrightarrow> 0 < sint (cl_initialBackoff c) \<and>
     sint (cl_initialBackoff c) \<le> sint (cl_maxBackoff c) \<and> sint (cl_maxBackoff c) < 2 ^ 62"

lemma backoffDelay_exact:
  assumes "sane_backoff c"
  shows "sint (backoffDelay c attempt lastErr) =
    (if 0 < retry_after lastErr then min (retry_after lastErr) (sint (cl_maxBackoff c))
     else min (sint (cl_initialBackoff c) * 2 ^ nat (attempt - 1)) (sint (cl_maxBackoff c)))"
  using assms
  by (auto simp: backoffDelay_def retry_after_def sane_backoff_def backoff_loop_exact split: option.splits)

lemma backoffDelay_bounds:
  assumes "sane_backoff c"
  shows "0 < sint (backoffDelay c attempt lastErr)"
    and "sint (backoffDelay c attempt lastErr) \<le> sint (cl_maxBackoff c)"
  using assms unfolding backoffDelay_exact [OF assms] by (auto simp: sane_backoff_def)

lemma backoffDelay_general:
  assumes "0 < sint (cl_initialBackoff c)" and "sint (cl_initialBackoff c) < 2 ^ 62"
    and "0 < sint (cl_maxBackoff c)" and "sint (cl_maxBackoff c) < 2 ^ 62"
  shows "sint (backoffDelay c attempt lastErr) =
    (if 0 < retry_after lastErr then min (retry_after lastErr) (sint (cl_maxBackoff c))
     else if attempt \<le> 1 then sint (cl_initialBackoff c)
     else min (sint (cl_initialBackoff c) * 2 ^ nat (attempt - 1)) (sint (cl_maxBackoff c)))"
  using backoff_loop_general [OF assms, of "nat (attempt - 1)"]
  by (auto simp: backoffDelay_def retry_after_def split: option.splits)

section \<open>Retry-After\<close>

lemma sint_seconds:
  assumes "0 \<le> secs" and "secs \<le> 9223372036"
  shows "sint (word_of_int secs * second) = secs * 1000000000"
proof -
  have "word_of_int secs * second = (word_of_int (secs * 1000000000) :: duration)"
    by (simp add: second_def)
  moreover have "in_int64 (secs * 1000000000)"
    using assms by (simp add: in_int64_def)
  ultimately show ?thesis by (metis sint_of_int64)
qed

text \<open>The product in general: two's complement of 64 bits.\<close>

definition wrap64 :: "int \<Rightarrow> int" where
  "wrap64 i = (i + 2 ^ 63) mod 2 ^ 64 - 2 ^ 63"

lemma wrap64_id: "wrap64 i = i \<longleftrightarrow> in_int64 i"
proof
  assume "wrap64 i = i"
  moreover have "0 \<le> (i + 2 ^ 63) mod 2 ^ 64" "(i + 2 ^ 63) mod 2 ^ 64 < 2 ^ 64" by simp_all
  ultimately show "in_int64 i" by (auto simp: wrap64_def in_int64_def)
qed (simp add: wrap64_def in_int64_def mod_pos_pos_trivial)

lemma sint_wrap64: "sint (word_of_int i :: duration) = wrap64 i"
proof -
  have "sint (word_of_int i :: duration) = signed_take_bit 63 i" by transfer simp
  also have "\<dots> = wrap64 i"
    by (simp only: signed_take_bit_eq_take_bit_shift take_bit_eq_mod wrap64_def) simp
  finally show ?thesis .
qed

lemma sint_seconds_wrap: "sint (word_of_int secs * second) = wrap64 (secs * 1000000000)"
  using sint_wrap64 [of "secs * 1000000000"] by (simp add: second_def)

lemma sint_time_Sub: "sint (time_Sub t u) = max (- (2 ^ 63)) (min (2 ^ 63 - 1) (t - u))"
  unfolding time_Sub_def by (rule sint_of_int64) (simp add: in_int64_def)

lemma TrimSpace_dec: "TrimSpace (dec n) = dec n"
proof (rule TrimSpace_id)
  have "is_digit c \<Longrightarrow> byte c < 128 \<and> \<not> IsSpace (byte c)" for c
    by (auto simp: is_digit_def IsSpace_def)
  moreover have "is_digit (hd (dec n))" "is_digit (last (dec n))"
    using dec_digits [of n] by (auto simp: list_all_iff)
  ultimately show "no_outer_space (dec n)"
    by (simp add: no_outer_space_def)
qed

lemma parseRetryAfter_seconds:
  assumes "n < 2 ^ 63"
  shows "parseRetryAfter lib (dec n) t0 = word_of_int (int n) * second"
proof -
  have "Atoi (dec n) = Some (int n)"
    using Atoi_Itoa [of "int n"] assms by (simp add: Itoa_def in_int64_def)
  then show ?thesis by (simp add: parseRetryAfter_def TrimSpace_dec)
qed

lemma parseRetryAfter_huge:
  assumes "2 ^ 63 \<le> n" and "http_ParseTime lib (dec n) = None"
  shows "parseRetryAfter lib (dec n) t0 = 0"
proof -
  have "Atoi (dec n) = None"
    using assms(1) by (simp add: Atoi_def Let_def dec_no_sign in_int64_def)
  with assms(2) show ?thesis by (simp add: parseRetryAfter_def TrimSpace_dec Let_def)
qed

lemma parseRetryAfter_date:
  assumes "no_outer_space h" and "h \<noteq> []" and "Atoi h = None" and "http_ParseTime lib h = Some t"
  shows "sint (parseRetryAfter lib h t0) = max 0 (min (2 ^ 63 - 1) (t - t0))"
  using assms by (auto simp: parseRetryAfter_def TrimSpace_id Let_def sint_time_Sub)

section \<open>Request paths\<close>

lemma zone_path_Split:
  "Split1 (zone_path i) (CHR ''/'') = ['''', ''v1'', ''zones'', Itoa (sint i), ''rrsets'']"
  using Itoa_no_slash [of "sint i"]
  by (simp add: zone_path_def Split1_append Split1_no_sep)

lemma Split1_snoc_segment:
  "CHR ''/'' \<notin> set t \<Longrightarrow> Split1 (s @ CHR ''/'' # t) (CHR ''/'') = Split1 s (CHR ''/'') @ [t]"
proof (induction s)
  case (Cons c cs)
  then show ?case
    by (cases "Split1 cs (CHR ''/'')") auto
qed (simp add: Split1_no_sep)

lemma rrset_path_Split:
  "Split1 (rrset_path i n t) (CHR ''/'') =
     ['''', ''v1'', ''zones'', Itoa (sint i), ''rrsets'', PathEscape n, PathEscape t]"
proof -
  have "rrset_path i n t = (zone_path i @ CHR ''/'' # PathEscape n) @ CHR ''/'' # PathEscape t"
    by (simp add: rrset_path_def)
  then show ?thesis
    by (simp only: Split1_snoc_segment [OF PathEscape_no_slash] zone_path_Split) simp
qed

lemma Itoa_inj: "in_int64 i \<Longrightarrow> in_int64 j \<Longrightarrow> Itoa i = Itoa j \<Longrightarrow> i = j"
  by (metis Atoi_Itoa option.inject)

lemma rrset_path_inj:
  assumes "rrset_path i n t = rrset_path j m s"
  shows "i = j \<and> n = m \<and> t = s"
proof -
  have "Itoa (sint i) = Itoa (sint j)" "PathEscape n = PathEscape m" "PathEscape t = PathEscape s"
    using arg_cong [OF assms, of "\<lambda>p. Split1 p (CHR ''/'')"] by (simp_all add: rrset_path_Split)
  then show ?thesis
    by (auto dest: PathEscape_inj Itoa_inj [OF sint_in_int64 sint_in_int64] intro: signed_word_eqI)
qed

text \<open>The sleeps of a call: one before each retry, computed from the error of the attempt before.\<close>

fun backoff_schedule :: "'e Client \<Rightarrow> int \<Rightarrow> goerr list \<Rightarrow> duration list" where
  "backoff_schedule c k [] = []"
| "backoff_schedule c k (e # es) = backoffDelay c k (Some e) # backoff_schedule c (k + 1) es"

lemma backoff_schedule_append:
  "backoff_schedule c k (xs @ ys) = backoff_schedule c k xs @ backoff_schedule c (k + int (length xs)) ys"
  by (induction xs arbitrary: k) (auto simp: ac_simps)

lemma backoff_schedule_nth:
  "i < length es \<Longrightarrow> backoff_schedule c k es ! i = backoffDelay c (k + int i) (Some (es ! i))"
  by (induction es arbitrary: k i) (auto simp: nth_Cons' algebra_simps of_nat_diff)

lemma length_backoff_schedule [simp]: "length (backoff_schedule c k es) = length es"
  by (induction es arbitrary: k) auto

lemma backoff_schedule_bounds:
  "sane_backoff c \<Longrightarrow> d \<in> set (backoff_schedule c k es) \<Longrightarrow> 0 < sint d \<and> sint d \<le> sint (cl_maxBackoff c)"
  by (induction es arbitrary: k) (auto simp: backoffDelay_bounds)

definition errs_of :: "goerr option \<Rightarrow> goerr list" where
  "errs_of e = (case e of None \<Rightarrow> [] | Some x \<Rightarrow> [x])"

definition interrupted :: "'a result \<Rightarrow> bool" where
  "interrupted r \<longleftrightarrow> (\<exists>x. r = Inl (ECtx x))"

section \<open>Answers\<close>

text \<open>
  What an answer means, by its status alone: success (2xx), an answer after which the call may be
  tried again (429, 5xx, and no answer at all), and the error made of an answer that is no success.
\<close>

definition answered_ok :: "answer \<Rightarrow> bool" where
  "answered_ok a \<longleftrightarrow> (case a of Inl _ \<Rightarrow> False | Inr resp \<Rightarrow> rs_StatusCode resp \<in> {200..<300})"

definition retryable_answer :: "answer \<Rightarrow> bool" where
  "retryable_answer a \<longleftrightarrow> (case a of
     Inl _ \<Rightarrow> True
   | Inr resp \<Rightarrow> rs_StatusCode resp \<in> {0, 429} \<union> {500..<600})"

definition answer_error :: "golib \<Rightarrow> time \<times> answer \<Rightarrow> goerr" where
  "answer_error lib x = (case snd x of
     Inl err \<Rightarrow> EAPI \<lparr>StatusCode = 0, Code = ''transport_error'', Message = err, RetryAfter = 0\<rparr>
   | Inr resp \<Rightarrow> EAPI (parseAPIError lib resp (rs_Body resp) (fst x)))"

text \<open>The result of a call whose last answer is \<open>x\<close>: the error of that answer, or, for a success,
  a value, unless the body cannot be decoded.\<close>

definition concluded :: "golib \<Rightarrow> string \<Rightarrow> string \<Rightarrow> 'a result \<Rightarrow> time \<times> answer \<Rightarrow> bool" where
  "concluded lib meth path r x \<longleftrightarrow>
     (if answered_ok (snd x)
      then (case r of Inr _ \<Rightarrow> True
            | Inl e \<Rightarrow> \<exists>y. e = EWrap (''hcloud: decode '' @ meth @ '' '' @ path @ '': '') (EExt y) [])
      else r = Inl (answer_error lib x))"

lemma parseAPIError_fields [simp]:
  "StatusCode (parseAPIError lib resp body t) = rs_StatusCode resp"
  "rs_StatusCode resp \<noteq> 429 \<Longrightarrow> RetryAfter (parseAPIError lib resp body t) = 0"
  by (simp_all add: parseAPIError_def Let_def split: sum.split)

lemma isRetryable_answer_error: "isRetryable (answer_error lib x) \<longleftrightarrow> retryable_answer (snd x)"
  by (cases "snd x") (auto simp: answer_error_def retryable_answer_def isRetryable_def)

lemma retryable_not_ok: "retryable_answer a \<Longrightarrow> \<not> answered_ok a"
  by (auto simp: retryable_answer_def answered_ok_def split: sum.splits)

lemma concluded_retryable:
  assumes "concluded lib meth path r x"
  shows "(\<exists>e. r = Inl e \<and> isRetryable e) \<longleftrightarrow> retryable_answer (snd x)"
    and "retryable_answer (snd x) \<Longrightarrow> r = Inl (answer_error lib x)" and "\<not> interrupted r"
proof -
  have "isRetryable (EWrap p (EExt y) []) = False" for p y by (simp add: isRetryable_def)
  then show "(\<exists>e. r = Inl e \<and> isRetryable e) \<longleftrightarrow> retryable_answer (snd x)"
    using assms retryable_not_ok [of "snd x"]
    by (auto simp: concluded_def isRetryable_answer_error split: if_splits sum.splits)
  show "r = Inl (answer_error lib x)" if "retryable_answer (snd x)"
    using assms retryable_not_ok [OF that] by (simp add: concluded_def)
  show "\<not> interrupted r"
    using assms by (auto simp: concluded_def interrupted_def answer_error_def split: if_splits sum.splits)
qed

section \<open>One attempt\<close>

text \<open>
  \<open>honours_ctx\<close>: the documented behaviour of \<open>net/http\<close> that a request does not outlast
  the context it was built with.
\<close>

definition honours_ctx :: "'e transport \<Rightarrow> bool" where
  "honours_ctx h \<longleftrightarrow>
     (\<forall>cx rq t x. case ctx_done cx of
        None \<Rightarrow> True
      | Some (t0, e) \<Rightarrow> t + int (fst (snd (h cx rq t x))) \<le> max t t0)"

lemma honours_ctx_call:
  assumes "honours_ctx h" and "call_out (h cx rq) w = (r, w')"
  shows "by_deadline cx w (now w')"
proof (cases "ctx_done cx")
  case (Some d)
  obtain t0 e where d: "d = (t0, e)" by (cases d)
  obtain r' dt x where h: "h cx rq (now w) (ext w) = (r', dt, x)"
    by (cases "h cx rq (now w) (ext w)")
  have "now w + int (fst (snd (h cx rq (now w) (ext w)))) \<le> max (now w) t0"
    using assms(1) Some d unfolding honours_ctx_def by (metis (no_types, lifting) option.case(2) prod.case)
  with assms(2) h Some d show ?thesis
    by (auto simp: by_deadline_def call_out_def)
qed (simp add: by_deadline_def)

text \<open>A client whose token source returns a fixed token and whose clock keeps its contract:
  every client \<open>New\<close> builds from \<open>StaticToken\<close> without replacing the clock.\<close>

locale client_env =
  fixes c :: "'e Client" and tok :: string
  assumes static_token: "cl_token c = StaticToken tok"
    and clock_ok: "clock_contract (clock_Sleep (cl_clock c))"

sublocale client_env \<subseteq> clock: clock_contract "clock_Sleep (cl_clock c)"
  by (rule clock_ok)

context client_env
begin

lemma doOnce_request:
  assumes "url_ParseError lib (cl_baseURL c @ path) = None"
    and "doOnce lib c cx meth path body out zero w = (r, w')"
  shows "http_sent (trace w') = http_sent (trace w) @ [make_request c meth path body tok]"
    and "slept (trace w') = slept (trace w)"
    and "secrets_read (trace w') = secrets_read (trace w)"
    and "now w \<le> now w'"
    and "honours_ctx (cl_httpClient c) \<Longrightarrow> by_deadline cx w (now w')"
proof -
  let ?rc = "WithTimeout cx (cl_requestTimeout c) (now w)"
  let ?rq = "make_request c meth path body tok"
  let ?w2 = "emit (HttpSent ?rq) (LogAttrs (cl_logger c) LevelDebug ''hcloud: request''
                          [AStr ''method'' meth, AStr ''url'' (cl_baseURL c @ path),
                           AStr ''authorization'' (''Bearer '' @ redactedToken)] w)"
  obtain res w3 where out: "call_out (cl_httpClient c ?rc ?rq) ?w2 = (res, w3)"
    by (cases "call_out (cl_httpClient c ?rc ?rq) ?w2")
  note fr = call_out_frame [OF out]
  have same: "http_sent (trace w') = http_sent (trace w3) \<and> slept (trace w') = slept (trace w3) \<and>
      secrets_read (trace w') = secrets_read (trace w3) \<and> now w' = now w3"
    using assms(2) out
    by (auto simp: doOnce_def static_token StaticToken_def assms(1) Let_def split: sum.splits option.splits if_splits)
  with fr show "http_sent (trace w') = http_sent (trace w) @ [?rq]"
    and "slept (trace w') = slept (trace w)"
    and "secrets_read (trace w') = secrets_read (trace w)" and "now w \<le> now w'"
    by simp_all
  assume "honours_ctx (cl_httpClient c)"
  from honours_ctx_call [OF this out] have "by_deadline ?rc w (now w3)" by simp
  with same show "by_deadline cx w (now w')"
    by (simp add: by_deadline_WithTimeout)
qed

lemma doOnce_answer:
  assumes "url_ParseError lib (cl_baseURL c @ path) = None"
    and "doOnce lib c cx meth path body out zero w = (r, w')"
  shows "\<exists>x. http_log (trace w') = http_log (trace w) @ exchanges [(make_request c meth path body tok, x)] \<and>
    concluded lib meth path r x"
proof -
  let ?rq = "make_request c meth path body tok"
  let ?w2 = "emit (HttpSent ?rq) (LogAttrs (cl_logger c) LevelDebug ''hcloud: request''
                          [AStr ''method'' meth, AStr ''url'' (cl_baseURL c @ path),
                           AStr ''authorization'' (''Bearer '' @ redactedToken)] w)"
  obtain res w3 where out: "call_out (cl_httpClient c (WithTimeout cx (cl_requestTimeout c) (now w)) ?rq) ?w2 = (res, w3)"
    by force
  have "http_log (trace w3) = http_log (trace w) @ [HttpSent ?rq]" using call_out_frame [OF out] by simp
  with assms(2) out show ?thesis
    by (cases res; intro exI [of _ "(_, res)"])
      (auto simp: doOnce_def static_token StaticToken_def assms(1) Let_def concluded_def answered_ok_def answer_error_def
        split: sum.splits option.splits if_splits)
qed

lemma before_attempt_effect:
  assumes "before_attempt c cx meth path attempt lastErr w = (r, w')"
  shows "http_sent (trace w') = http_sent (trace w)"
    and "secrets_read (trace w') = secrets_read (trace w)"
    and "slept (trace w') = slept (trace w) @ (if 0 < attempt then [backoffDelay c attempt lastErr] else [])"
    and "now w \<le> now w'" and "by_deadline cx w (now w')"
    and "attempt \<le> 0 \<Longrightarrow> r = None"
    and "r = Some e \<Longrightarrow> \<exists>x. e = ECtx x \<and> ctx_Err cx (now w') = Some x"
    and "r = None \<Longrightarrow> now w' = now w + (if 0 < attempt then max 0 (sint (backoffDelay c attempt lastErr)) else 0)"
proof -
  let ?d = "backoffDelay c attempt lastErr"
  let ?w1 = "emit (SleepFor ?d) (LogAttrs (cl_logger c) LevelDebug ''hcloud: retrying request''
       [AStr ''method'' meth, AStr ''path'' path, AInt ''attempt'' attempt, ADur ''delay'' ?d] w)"
  consider (idle) "\<not> 0 < attempt" "r = None" "w' = w"
    | (sleep) "0 < attempt" "clock_Sleep (cl_clock c) cx ?d ?w1 = (r, w')"
    using assms by (auto simp: before_attempt_def Let_def split: if_splits)
  note outcome = this
  show "http_sent (trace w') = http_sent (trace w)"
    and "secrets_read (trace w') = secrets_read (trace w)"
    and "slept (trace w') = slept (trace w) @ (if 0 < attempt then [?d] else [])"
    by (cases rule: outcome; simp add: clock.sleep_frame)+
  show "now w \<le> now w'" by (cases rule: outcome) (use clock.sleep_mono [of cx ?d ?w1] in auto)
  show "by_deadline cx w (now w')" using clock.sleep_deadline [of cx ?d ?w1 r w']
    by (cases rule: outcome) auto
  show "attempt \<le> 0 \<Longrightarrow> r = None" by (cases rule: outcome) auto
  show "\<exists>x. e = ECtx x \<and> ctx_Err cx (now w') = Some x" if "r = Some e"
    by (cases rule: outcome) (use that clock.sleep_early [of cx ?d ?w1 e w'] in auto)
  show "now w' = now w + (if 0 < attempt then max 0 (sint ?d) else 0)" if "r = None"
    by (cases rule: outcome) (use that clock.sleep_full [of cx ?d ?w1 w'] in auto)
qed

lemma before_attempt_log:
  "before_attempt c cx meth path attempt lastErr w = (r, w') \<Longrightarrow> http_log (trace w') = http_log (trace w)"
  using clock.sleep_frame by (fastforce simp: before_attempt_def Let_def split: if_splits)

lemma doOnce_not_interrupted:
  assumes "url_ParseError lib (cl_baseURL c @ path) = None"
    and "doOnce lib c cx meth path body out zero w = (r, w')"
  shows "\<not> interrupted r"
  using assms
  by (auto simp: doOnce_def static_token StaticToken_def interrupted_def Let_def
      split: sum.splits option.splits if_splits prod.splits)

lemma round_effect:
  assumes url: "url_ParseError lib (cl_baseURL c @ path) = None"
    and b: "before_attempt c cx meth path attempt lastErr w = (None, w1)"
    and d: "doOnce lib c cx meth path body out zero w1 = (r, w')"
    and "lastErr = None \<longleftrightarrow> attempt = 0" and "0 \<le> attempt"
  shows "http_sent (trace w') = http_sent (trace w) @ [make_request c meth path body tok]"
    and "slept (trace w') = slept (trace w) @ backoff_schedule c (max 1 attempt) (errs_of lastErr)"
    and "secrets_read (trace w') = secrets_read (trace w)" and "now w \<le> now w'"
    and "honours_ctx (cl_httpClient c) \<longrightarrow> by_deadline cx w (now w')"
proof -
  note before = before_attempt_effect [OF b] and once = doOnce_request [OF url d]
  from assms(4,5) before(1-3) once(1-3)
  show "http_sent (trace w') = http_sent (trace w) @ [make_request c meth path body tok]"
    and "slept (trace w') = slept (trace w) @ backoff_schedule c (max 1 attempt) (errs_of lastErr)"
    and "secrets_read (trace w') = secrets_read (trace w)"
    by (auto simp: errs_of_def split: option.splits)
  from before(4) once(4) show "now w \<le> now w'" by simp
  from before(5) once(5) show "honours_ctx (cl_httpClient c) \<longrightarrow> by_deadline cx w (now w')"
    by (auto intro: by_deadline_trans)
qed

lemma do_loop_outcome:
  assumes url: "url_ParseError lib (cl_baseURL c @ path) = None"
    and "do_loop lib c cx meth path body out zero attempt lastErr w = (r, w')"
    and "case lastErr of None \<Rightarrow> attempt = 0 \<and> 0 \<le> cl_maxRetries c
         | Some e \<Rightarrow> 0 < attempt \<and> attempt \<le> cl_maxRetries c + 1 \<and> isRetryable e"
  shows "\<exists>n es. http_sent (trace w') = http_sent (trace w) @ replicate n (make_request c meth path body tok) \<and>
    slept (trace w') = slept (trace w) @ backoff_schedule c (max 1 attempt) es \<and>
    list_all isRetryable es \<and>
    (attempt = 0 \<longrightarrow> 1 \<le> n) \<and> int n + attempt \<le> cl_maxRetries c + 1 \<and>
    length es + (if attempt = 0 then 1 else 0) = n + (if interrupted r then 1 else 0) \<and>
    int (length es) + max 1 attempt \<le> cl_maxRetries c + 1 \<and>
    (\<forall>e. r = Inl e \<longrightarrow> isRetryable e \<longrightarrow> int n + attempt = cl_maxRetries c + 1) \<and>
    secrets_read (trace w') = secrets_read (trace w) \<and> now w \<le> now w' \<and>
    (honours_ctx (cl_httpClient c) \<longrightarrow> by_deadline cx w (now w'))"
  using assms(2,3)
proof (induction "nat (cl_maxRetries c + 1 - attempt)" arbitrary: attempt lastErr w)
  case 0
  then obtain e where "lastErr = Some e" "isRetryable e" "attempt = cl_maxRetries c + 1" "0 < attempt"
    by (auto split: option.splits)
  with 0 show ?case
    by (intro exI [of _ 0] exI [of _ "[]"]) (auto simp: do_loop.simps interrupted_def isRetryable_def)
next
  case (Suc k)
  then have le: "attempt \<le> cl_maxRetries c" and "0 \<le> attempt" by (auto split: option.splits)
  obtain b w1 where b: "before_attempt c cx meth path attempt lastErr w = (b, w1)"
    by (cases "before_attempt c cx meth path attempt lastErr w")
  show ?case
  proof (cases b)
    case (Some e)
    with b le Suc.prems have fin: "r = Inl e" "w' = w1" by (auto simp: do_loop.simps)
    note eff = before_attempt_effect [OF b]
    obtain x e0 where "e = ECtx x" "0 < attempt" "lastErr = Some e0" "isRetryable e0"
      using eff(6,7) Some Suc.prems(2) \<open>0 \<le> attempt\<close> by (cases lastErr) force+
    with fin eff le show ?thesis
      by (intro exI [of _ 0] exI [of _ "[e0]"]) (auto simp: interrupted_def isRetryable_def)
  next
    case None
    obtain r2 w2 where d: "doOnce lib c cx meth path body out zero w1 = (r2, w2)"
      by (cases "doOnce lib c cx meth path body out zero w1")
    have "lastErr = None \<longleftrightarrow> attempt = 0" using Suc.prems(2) by (auto split: option.splits)
    note eff = round_effect [OF url b [unfolded None] d this \<open>0 \<le> attempt\<close>]
      doOnce_not_interrupted [OF url d]
    let ?pre = "errs_of lastErr"
    have pre: "list_all isRetryable ?pre" "length ?pre = (if attempt = 0 then 0 else 1)"
      using Suc.prems(2) by (auto simp: errs_of_def split: option.splits)
    show ?thesis
    proof (cases "\<exists>e. r2 = Inl e \<and> isRetryable e")
      case False
      then have fin: "r = r2" "w' = w2"
        using Suc.prems(1) b None le d by (auto simp: do_loop.simps split: sum.splits if_splits)
      with False eff pre le \<open>0 \<le> attempt\<close> show ?thesis
        by (intro exI [of _ 1] exI [of _ ?pre]) auto
    next
      case True
      then obtain e where e: "r2 = Inl e" "isRetryable e" by auto
      from Suc.prems(1) b None le d e
      have loop: "do_loop lib c cx meth path body out zero (attempt + 1) (Some e) w2 = (r, w')"
        by (subst (asm) do_loop.simps) auto
      have "k = nat (cl_maxRetries c + 1 - (attempt + 1))" using Suc.hyps(2) by simp
      from Suc.hyps(1) [OF this loop] e le \<open>0 \<le> attempt\<close> obtain n es where
        ih: "http_sent (trace w') = http_sent (trace w2) @ replicate n (make_request c meth path body tok)"
          "slept (trace w') = slept (trace w2) @ backoff_schedule c (attempt + 1) es"
          "list_all isRetryable es" "int n + (attempt + 1) \<le> cl_maxRetries c + 1"
          "length es = n + (if interrupted r then 1 else 0)"
          "int (length es) + (attempt + 1) \<le> cl_maxRetries c + 1"
          "\<forall>e. r = Inl e \<longrightarrow> isRetryable e \<longrightarrow> int n + (attempt + 1) = cl_maxRetries c + 1"
          "secrets_read (trace w') = secrets_read (trace w2)" "now w2 \<le> now w'"
          "honours_ctx (cl_httpClient c) \<longrightarrow> by_deadline cx w2 (now w')"
        by (auto simp: max_def)
      have "slept (trace w') = slept (trace w) @ backoff_schedule c (max 1 attempt) (?pre @ es)"
        using ih(2) eff(2) pre(2) \<open>0 \<le> attempt\<close> by (auto simp: backoff_schedule_append)
      moreover have "int (length (?pre @ es)) + max 1 attempt \<le> cl_maxRetries c + 1"
        using ih(6) pre(2) \<open>0 \<le> attempt\<close> by simp
      moreover have "honours_ctx (cl_httpClient c) \<longrightarrow> by_deadline cx w (now w')"
        using ih(10) eff(5) by (auto intro: by_deadline_trans)
      ultimately show ?thesis using ih eff pre
        by (intro exI [of _ "Suc n"] exI [of _ "?pre @ es"]) auto
    qed
  qed
qed

lemma do_loop_answers:
  assumes url: "url_ParseError lib (cl_baseURL c @ path) = None"
    and "do_loop lib c cx meth path body out zero attempt lastErr w = (r, w')"
    and "case lastErr of None \<Rightarrow> attempt = 0 \<and> 0 \<le> cl_maxRetries c
         | Some e \<Rightarrow> 0 < attempt \<and> attempt \<le> cl_maxRetries c + 1 \<and> isRetryable e"
  shows "\<exists>xs. http_log (trace w') = http_log (trace w) @ exchanges (map (Pair (make_request c meth path body tok)) xs) \<and>
    slept (trace w') = slept (trace w) @ backoff_schedule c (max 1 attempt)
      (take (length xs + length (errs_of lastErr) - (if interrupted r then 0 else 1)) (errs_of lastErr @ map (answer_error lib) xs)) \<and>
    list_all (retryable_answer \<circ> snd) (if interrupted r then xs else butlast xs) \<and>
    int (length xs) + attempt \<le> cl_maxRetries c + 1 \<and>
    (if interrupted r then lastErr \<noteq> None \<or> xs \<noteq> []
     else if xs = [] then r = Inl (the lastErr) \<and> lastErr \<noteq> None \<and> attempt = cl_maxRetries c + 1
     else concluded lib meth path r (last xs) \<and>
       (retryable_answer (snd (last xs)) \<longrightarrow> int (length xs) + attempt = cl_maxRetries c + 1))"
  using assms(2,3)
proof (induction "nat (cl_maxRetries c + 1 - attempt)" arbitrary: attempt lastErr w)
  case 0
  then obtain e where "lastErr = Some e" "isRetryable e" "attempt = cl_maxRetries c + 1" "0 < attempt"
    by (auto split: option.splits)
  with 0 show ?case
    by (intro exI [of _ "[]"]) (auto simp: do_loop.simps interrupted_def isRetryable_def errs_of_def)
next
  case (Suc k)
  then have le: "attempt \<le> cl_maxRetries c" and nn: "0 \<le> attempt" by (auto split: option.splits)
  obtain b w1 where b: "before_attempt c cx meth path attempt lastErr w = (b, w1)" by force
  note eff = before_attempt_effect [OF b]
  show ?case
  proof (cases b)
    case (Some e)
    with b le Suc.prems have fin: "r = Inl e" "w' = w1" by (auto simp: do_loop.simps)
    obtain x e0 where "e = ECtx x" "0 < attempt" "lastErr = Some e0"
      using eff(6,7) Some Suc.prems(2) nn by (cases lastErr) force+
    with fin eff le before_attempt_log [OF b] show ?thesis
      by (intro exI [of _ "[]"]) (auto simp: interrupted_def errs_of_def)
  next
    case None
    obtain r2 w2 where d: "doOnce lib c cx meth path body out zero w1 = (r2, w2)" by force
    obtain x where x: "http_log (trace w2) = http_log (trace w) @ exchanges [(make_request c meth path body tok, x)]"
        "concluded lib meth path r2 x"
      using doOnce_answer [OF url d] before_attempt_log [OF b] by auto
    note cr = concluded_retryable [OF x(2)]
    have le0: "lastErr = None \<longleftrightarrow> attempt = 0" using Suc.prems(2) by (auto split: option.splits)
    have sl: "slept (trace w2) = slept (trace w) @ backoff_schedule c (max 1 attempt) (errs_of lastErr)"
      by (rule round_effect(2) [OF url b [unfolded None] d le0 nn])
    show ?thesis
    proof (cases "retryable_answer (snd x)")
      case False
      then have fin: "r = r2" "w' = w2"
        using Suc.prems(1) b None le d cr(1) by (auto simp: do_loop.simps split: sum.splits if_splits)
      with False x sl cr le show ?thesis by (intro exI [of _ "[x]"]) auto
    next
      case True
      then have e: "r2 = Inl (answer_error lib x)" "isRetryable (answer_error lib x)"
        using cr by (auto simp: isRetryable_answer_error)
      from Suc.prems(1) b None le d e
      have loop: "do_loop lib c cx meth path body out zero (attempt + 1) (Some (answer_error lib x)) w2 = (r, w')"
        by (subst (asm) do_loop.simps) auto
      have "k = nat (cl_maxRetries c + 1 - (attempt + 1))" using Suc.hyps(2) by simp
      from Suc.hyps(1) [OF this loop] e le nn obtain xs where ih:
          "http_log (trace w') = http_log (trace w2) @ exchanges (map (Pair (make_request c meth path body tok)) xs)"
          "slept (trace w') = slept (trace w2) @ backoff_schedule c (attempt + 1)
            (take (length xs + (if interrupted r then 1 else 0)) (map (answer_error lib) (x # xs)))"
          "list_all (retryable_answer \<circ> snd) (if interrupted r then xs else butlast xs)"
          "int (length xs) + (attempt + 1) \<le> cl_maxRetries c + 1"
          "\<not> interrupted r \<Longrightarrow> if xs = [] then r = Inl (answer_error lib x) \<and> attempt + 1 = cl_maxRetries c + 1
            else concluded lib meth path r (last xs) \<and>
              (retryable_answer (snd (last xs)) \<longrightarrow> int (length xs) + (attempt + 1) = cl_maxRetries c + 1)"
        by (auto simp: errs_of_def max_def split: if_splits)
      show ?thesis
      proof (intro exI [of _ "x # xs"] conjI)
        show "http_log (trace w') = http_log (trace w) @ exchanges (map (Pair (make_request c meth path body tok)) (x # xs))"
          using ih(1) x(1) by (cases x) simp
        show "slept (trace w') = slept (trace w) @ backoff_schedule c (max 1 attempt)
          (take (length (x # xs) + length (errs_of lastErr) - (if interrupted r then 0 else 1))
            (errs_of lastErr @ map (answer_error lib) (x # xs)))"
          using ih(2) sl le0 nn by (cases lastErr) (auto simp: errs_of_def max_def)
        show "list_all (retryable_answer \<circ> snd) (if interrupted r then x # xs else butlast (x # xs))"
          using ih(3) True by auto
        show "int (length (x # xs)) + attempt \<le> cl_maxRetries c + 1" using ih(4) by simp
      qed (use ih(5) x(2) True e(1) in \<open>auto split: if_splits\<close>)
    qed
  qed
qed

end

section \<open>Clients built by New\<close>

text \<open>
  The options of the package; a replaced clock has to keep the contract of \<open>Clock\<close>. What every
  one of them maintains: positive timeouts and delays, a non-negative number of retries, a base
  URL without a trailing slash, and a user agent.
\<close>

inductive client_opt :: "'e client_option \<Rightarrow> bool" where
  "client_opt (WithHTTPClient h)"
| "client_opt (WithBaseURL url)"
| "client_opt (client_WithLogger lg)"
| "\<forall>ck \<in> set_option k. clock_contract (clock_Sleep ck) \<Longrightarrow> client_opt (client_WithClock k)"
| "client_opt (WithRequestTimeout d)"
| "client_opt (WithMaxRetries n)"
| "client_opt (WithBackoff initial mx)"
| "client_opt (WithUserAgent ua)"

definition client_inv :: "'e Client \<Rightarrow> bool" where
  "client_inv c \<longleftrightarrow> (cl_baseURL c = [] \<or> last (cl_baseURL c) \<noteq> CHR ''/'') \<and>
     0 < sint (cl_requestTimeout c) \<and> 0 \<le> cl_maxRetries c \<and>
     0 < sint (cl_initialBackoff c) \<and> 0 < sint (cl_maxBackoff c) \<and> cl_userAgent c \<noteq> []"

lemmas client_option_defs = WithHTTPClient_def WithBaseURL_def client_WithLogger_def client_WithClock_def
  WithRequestTimeout_def WithMaxRetries_def WithBackoff_def WithUserAgent_def

lemma TrimRight1_last: "TrimRight1 s c = [] \<or> last (TrimRight1 s c) \<noteq> c"
proof (cases "dropWhile (\<lambda>x. x = c) (rev s) = []")
  case False
  from hd_dropWhile [OF False] False show ?thesis by (simp add: TrimRight1_def last_rev)
qed (simp add: TrimRight1_def)

lemma client_opt_inv: "client_opt opt \<Longrightarrow> client_inv c \<Longrightarrow> client_inv (opt c)"
proof (induction rule: client_opt.induct)
  case (2 url)
  then show ?case using TrimRight1_last [of url "CHR ''/''"]
    by (auto simp: WithBaseURL_def client_inv_def)
qed (auto simp: client_option_defs client_inv_def Let_def split: option.splits)

lemma client_opt_env: "client_opt opt \<Longrightarrow> client_env c tok \<Longrightarrow> client_env (opt c) tok"
  by (induction rule: client_opt.induct)
    (auto simp: client_option_defs client_env_def Let_def split: option.splits)

lemma options_preserve:
  assumes "\<And>opt x. client_opt opt \<Longrightarrow> P x \<Longrightarrow> P (opt x)" and "P c" and "\<forall>opt \<in> set opts. client_opt opt"
  shows "P (foldl (\<lambda>c opt. opt c) c opts)"
  using assms(2,3) by (induction opts arbitrary: c) (auto intro: assms(1))

lemmas client_default_defs = DefaultBaseURL_def defaultRequestTimeout_def defaultMaxRetries_def
  defaultInitialBackoff_def defaultMaxBackoff_def defaultUserAgent_def second_def millisecond_def

lemma client_New_ok:
  assumes "client_New http pick (Some (StaticToken tok)) opts = Inr c" and "\<forall>opt \<in> set opts. client_opt opt"
  shows "client_env c tok" and "client_inv c"
proof -
  let ?c0 = "\<lparr>cl_baseURL = DefaultBaseURL, cl_httpClient = http, cl_token = StaticToken tok,
          cl_logger = slog_Default, cl_clock = realClock pick,
          cl_requestTimeout = defaultRequestTimeout, cl_maxRetries = defaultMaxRetries,
          cl_initialBackoff = defaultInitialBackoff, cl_maxBackoff = defaultMaxBackoff,
          cl_userAgent = defaultUserAgent\<rparr>"
  have c: "c = foldl (\<lambda>c opt. opt c) ?c0 opts"
    using assms(1) by (simp add: client_New_def)
  have "client_env ?c0 tok"
    by (simp add: client_env_def realClock_def real_clock.clock_contract_axioms)
  then show "client_env c tok"
    unfolding c by (rule options_preserve [of "\<lambda>c. client_env c tok", rotated 1])
      (use client_opt_env assms(2) in blast)+
  have "client_inv ?c0" by (simp add: client_inv_def client_default_defs)
  then show "client_inv c"
    unfolding c by (rule options_preserve [of client_inv, rotated 1])
      (use client_opt_inv assms(2) in blast)+
qed

text \<open>The client the solver uses: a static token, the default options, a logger.\<close>

definition default_client :: "'e transport \<Rightarrow> (time \<Rightarrow> bool) \<Rightarrow> logger \<Rightarrow> string \<Rightarrow> 'e Client" where
  "default_client http pick lg tok =
     \<lparr>cl_baseURL = DefaultBaseURL, cl_httpClient = http, cl_token = StaticToken tok,
      cl_logger = lg, cl_clock = realClock pick,
      cl_requestTimeout = defaultRequestTimeout, cl_maxRetries = defaultMaxRetries,
      cl_initialBackoff = defaultInitialBackoff, cl_maxBackoff = defaultMaxBackoff,
      cl_userAgent = defaultUserAgent\<rparr>"

lemma client_New_default:
  "client_New http pick (Some (StaticToken tok)) [client_WithLogger (Some lg)] =
     Inr (default_client http pick lg tok)"
  "client_New http pick (Some (StaticToken tok)) [] = Inr (default_client http pick slog_Default tok)"
  by (simp_all add: client_New_def client_WithLogger_def default_client_def)

interpretation production: client_env "default_client http pick lg tok" tok for http pick lg tok
  by (rule client_New_ok(1) [OF client_New_default(1)]) (simp add: client_opt.intros)

lemma default_client_inv: "client_inv (default_client http pick lg tok)"
  by (rule client_New_ok(2) [OF client_New_default(1)]) (simp add: client_opt.intros)

lemma default_client_sane: "sane_backoff (default_client http pick lg tok)"
  by (simp add: sane_backoff_def default_client_def client_default_defs)

section \<open>The token stays out of logs and results\<close>

text \<open>Two worlds that differ in nothing but the bearer tokens of the requests in their traces.\<close>

definition reauth :: "string \<Rightarrow> http_request \<Rightarrow> http_request" where
  "reauth tok rq = rq\<lparr>rq_header :=
     map (\<lambda>(k, v). if k = ''Authorization'' then (k, ''Bearer '' @ tok) else (k, v)) (rq_header rq)\<rparr>"

fun redact_event :: "event \<Rightarrow> event" where
  "redact_event (HttpSent rq) = HttpSent (reauth redactedToken rq)"
| "redact_event ev = ev"

definition same_but_token :: "'e world \<Rightarrow> 'e world \<Rightarrow> bool" where
  "same_but_token w1 w2 \<longleftrightarrow> now w1 = now w2 \<and> ext w1 = ext w2 \<and>
     map redact_event (trace w1) = map redact_event (trace w2)"

text \<open>The same client with another token, whose server treats the two tokens alike.\<close>

definition other_token :: "string \<Rightarrow> string \<Rightarrow> 'e Client \<Rightarrow> 'e Client" where
  "other_token tok tok' c = c\<lparr>cl_token := StaticToken tok',
     cl_httpClient := (\<lambda>cx rq. cl_httpClient c cx (reauth tok rq))\<rparr>"

lemma reauth_make_request: "reauth tok (make_request c meth path body tok') = make_request c meth path body tok"
  by (simp add: reauth_def make_request_def split: option.splits)

lemma make_request_other_token [simp]:
  "make_request (other_token tok tok' c) = make_request c"
  by (intro ext) (simp add: make_request_def other_token_def)

lemma other_token_simps [simp]:
  "cl_baseURL (other_token tok tok' c) = cl_baseURL c"
  "cl_token (other_token tok tok' c) = StaticToken tok'"
  "cl_logger (other_token tok tok' c) = cl_logger c"
  "cl_clock (other_token tok tok' c) = cl_clock c"
  "cl_requestTimeout (other_token tok tok' c) = cl_requestTimeout c"
  "cl_maxRetries (other_token tok tok' c) = cl_maxRetries c"
  "cl_httpClient (other_token tok tok' c) cx rq = cl_httpClient c cx (reauth tok rq)"
  "backoffDelay (other_token tok tok' c) = backoffDelay c"
  by (simp_all add: other_token_def fun_eq_iff backoffDelay_def split: option.splits)

lemma same_but_token_emit:
  "same_but_token w1 w2 \<Longrightarrow> redact_event a = redact_event b \<Longrightarrow> same_but_token (emit a w1) (emit b w2)"
  by (simp add: same_but_token_def)

lemma same_but_token_LogAttrs:
  "same_but_token w1 w2 \<Longrightarrow> same_but_token (LogAttrs lg lvl msg at w1) (LogAttrs lg lvl msg at w2)"
  by (simp add: LogAttrs_def same_but_token_emit)

lemma same_but_token_call:
  assumes "same_but_token w1 w2"
  shows "fst (call_out f w1) = fst (call_out f w2)"
    and "same_but_token (snd (call_out f w1)) (snd (call_out f w2))"
  using assms by (auto simp: same_but_token_def call_out_def split: prod.splits)

lemma same_but_token_sleep:
  assumes "same_but_token w1 w2"
  shows "fst (realClock_Sleep pick cx d w1) = fst (realClock_Sleep pick cx d w2)"
    and "same_but_token (snd (realClock_Sleep pick cx d w1)) (snd (realClock_Sleep pick cx d w2))"
  using assms by (auto simp: same_but_token_def realClock_Sleep_def Let_def split: option.splits)

lemmas same_but_token_intros = same_but_token_emit same_but_token_LogAttrs

lemma doOnce_other_token:
  assumes tok: "cl_token c = StaticToken tok" and clk: "cl_clock c = realClock pick"
    and same: "same_but_token w1 w2"
  shows "fst (doOnce lib c cx meth path body out zero w1) =
         fst (doOnce lib (other_token tok tok' c) cx meth path body out zero w2) \<and>
         same_but_token (snd (doOnce lib c cx meth path body out zero w1))
           (snd (doOnce lib (other_token tok tok' c) cx meth path body out zero w2))"
proof (cases "url_ParseError lib (cl_baseURL c @ path)")
  case None
  let ?log = "LogAttrs (cl_logger c) LevelDebug ''hcloud: request''
    [AStr ''method'' meth, AStr ''url'' (cl_baseURL c @ path),
     AStr ''authorization'' (''Bearer '' @ redactedToken)]"
  let ?rq = "make_request c meth path body tok" and ?rq' = "make_request c meth path body tok'"
  let ?call = "call_out (cl_httpClient c (WithTimeout cx (cl_requestTimeout c) (now w2)) ?rq)"
  have now: "now w1 = now w2" using same by (simp add: same_but_token_def)
  have "same_but_token (emit (HttpSent ?rq) (?log w1)) (emit (HttpSent ?rq') (?log w2))"
    using same by (intro same_but_token_intros) (simp_all add: reauth_make_request)
  note call = same_but_token_call [OF this, of "cl_httpClient c (WithTimeout cx (cl_requestTimeout c) (now w2)) ?rq"]
  obtain r v1 where v1: "?call (emit (HttpSent ?rq) (?log w1)) = (r, v1)"
    by (cases "?call (emit (HttpSent ?rq) (?log w1))")
  then obtain v2 where v2: "?call (emit (HttpSent ?rq') (?log w2)) = (r, v2)" and v: "same_but_token v1 v2"
    using call by (cases "?call (emit (HttpSent ?rq') (?log w2))") simp
  have nv: "now v1 = now v2" using v by (simp add: same_but_token_def)
  show ?thesis
    unfolding doOnce_def tok other_token_simps make_request_other_token StaticToken_def prod.case sum.case
      None option.case now Let_def reauth_make_request v1 v2
    by (simp add: note_answer_def same_but_token_emit clk realClock_def realClock_Now_def nv same_but_token_LogAttrs [OF v]
        split: sum.split option.split)
qed (use same in \<open>simp add: doOnce_def tok StaticToken_def Let_def\<close>)

lemma before_attempt_other_token:
  assumes "cl_clock c = realClock pick" and "same_but_token w1 w2"
  shows "fst (before_attempt c cx meth path attempt lastErr w1) =
         fst (before_attempt (other_token tok tok' c) cx meth path attempt lastErr w2) \<and>
         same_but_token (snd (before_attempt c cx meth path attempt lastErr w1))
           (snd (before_attempt (other_token tok tok' c) cx meth path attempt lastErr w2))"
proof -
  let ?d = "backoffDelay c attempt lastErr"
  let ?pre = "\<lambda>w. emit (SleepFor ?d) (LogAttrs (cl_logger c) LevelDebug ''hcloud: retrying request''
    [AStr ''method'' meth, AStr ''path'' path, AInt ''attempt'' attempt, ADur ''delay'' ?d] w)"
  have "same_but_token (?pre w1) (?pre w2)"
    using assms(2) by (intro same_but_token_intros) simp_all
  from same_but_token_sleep [OF this, of pick cx ?d] assms show ?thesis
    by (simp add: before_attempt_def Let_def realClock_def)
qed

lemma do_loop_other_token:
  assumes "cl_token c = StaticToken tok" and "cl_clock c = realClock pick" and "same_but_token w1 w2"
  shows "fst (do_loop lib c cx meth path body out zero attempt lastErr w1) =
         fst (do_loop lib (other_token tok tok' c) cx meth path body out zero attempt lastErr w2) \<and>
         same_but_token (snd (do_loop lib c cx meth path body out zero attempt lastErr w1))
           (snd (do_loop lib (other_token tok tok' c) cx meth path body out zero attempt lastErr w2))"
  using assms(3)
proof (induction "nat (cl_maxRetries c + 1 - attempt)" arbitrary: attempt lastErr w1 w2)
  case 0
  then show ?case by (simp add: do_loop.simps split: option.split)
next
  case (Suc k)
  let ?c' = "other_token tok tok' c"
  obtain b v1 where b1: "before_attempt c cx meth path attempt lastErr w1 = (b, v1)" by force
  then obtain v2 where b2: "before_attempt ?c' cx meth path attempt lastErr w2 = (b, v2)"
      and v: "same_but_token v1 v2"
    using before_attempt_other_token [OF assms(2) Suc.prems, of cx meth path attempt lastErr tok tok']
    by (cases "before_attempt ?c' cx meth path attempt lastErr w2") simp
  obtain r x1 where d1: "doOnce lib c cx meth path body out zero v1 = (r, x1)" by force
  then obtain x2 where d2: "doOnce lib ?c' cx meth path body out zero v2 = (r, x2)"
      and x: "same_but_token x1 x2"
    using doOnce_other_token [OF assms(1,2) v, of lib cx meth path body out zero tok']
    by (cases "doOnce lib ?c' cx meth path body out zero v2") simp
  have "k = nat (cl_maxRetries c + 1 - (attempt + 1))" using Suc.hyps(2) by simp
  from Suc.hyps(1) [OF this x] show ?case
    unfolding do_loop.simps [of lib _ cx meth path body out zero attempt] other_token_simps b1 b2 prod.case
    using v x Suc.prems by (simp add: d1 d2 split: option.split sum.split)
qed

end
