(* ===== verification/Routing.thy ===== *)
theory Routing
  imports Errors
begin

text \<open>
  The routing layer, \<open>src/internal/routing/routing.go\<close>: \<open>Resolve\<close> walks the FQDN from leaf
  to root and picks the credential whose zone list holds the first suffix found;
  \<open>ValidateConfig\<close> is the load-time check. A nil \<open>*Config\<close> is \<^const>\<open>None\<close>.
\<close>

section \<open>Data\<close>

record Credential =
  cred_Name :: string
  cred_Zones :: "string list"
  cred_APITokenSecretRef :: string

record routing_Config =
  Credentials :: "Credential list"

definition acmeChallengePrefix :: string where
  "acmeChallengePrefix = ''_acme-challenge.''"

definition multiPartPublicSuffixes :: "string list" where
  "multiPartPublicSuffixes =
     [''.co.uk'', ''.co.jp'', ''.co.kr'', ''.co.nz'', ''.co.za'', ''.co.in'', ''.co.il'',
      ''.com.au'', ''.com.br'', ''.com.cn'', ''.com.mx'', ''.com.sg'', ''.com.tr'',
      ''.com.tw'', ''.com.hk'', ''.com.ar'', ''.com.pl'', ''.com.ua'',
      ''.net.au'', ''.net.nz'', ''.net.cn'', ''.net.br'',
      ''.org.uk'', ''.org.au'', ''.org.nz'', ''.org.za'',
      ''.ac.uk'', ''.ac.jp'', ''.ac.nz'', ''.ac.za'',
      ''.gov.uk'', ''.gov.au'']"

section \<open>Resolve\<close>

definition normaliseFQDN :: "unicode \<Rightarrow> string \<Rightarrow> string" where
  "normaliseFQDN u fqdn =
     (let out = ToLower u (TrimSpace fqdn);
          out = TrimSuffix out ''.''
      in TrimPrefix out acmeChallengePrefix)"

definition formatConfiguredZones :: "routing_Config \<Rightarrow> string" where
  "formatConfiguredZones c =
     (let zones = sort (concat (map cred_Zones (Credentials c)))
      in if zones = [] then ''<none>'' else Join zones '', '')"

text \<open>The index of \<open>Resolve\<close>: a later entry for the same zone overwrites an earlier one.\<close>

definition index_zones ::
  "unicode \<Rightarrow> nat \<Rightarrow> string list \<Rightarrow> (string \<rightharpoonup> nat) \<Rightarrow> (string \<rightharpoonup> nat)" where
  "index_zones u i zones m = foldl (\<lambda>m zone. m(ToLower u zone \<mapsto> i)) m zones"

fun build_index ::
  "unicode \<Rightarrow> nat \<Rightarrow> Credential list \<Rightarrow> (string \<rightharpoonup> nat) \<Rightarrow> (string \<rightharpoonup> nat)" where
  "build_index u i [] m = m"
| "build_index u i (c # cs) m = build_index u (Suc i) cs (index_zones u i (cred_Zones c) m)"

function resolve_walk :: "(string \<rightharpoonup> nat) \<Rightarrow> string \<Rightarrow> (nat \<times> string) option" where
  "resolve_walk index candidate =
     (case index candidate of
        Some idx \<Rightarrow> Some (idx, candidate)
      | None \<Rightarrow>
          (case IndexByte candidate (CHR ''.'') of
             None \<Rightarrow> None
           | Some dot \<Rightarrow> resolve_walk index (drop (dot + 1) candidate)))"
  by pat_completeness auto
termination
  by (relation "measure (\<lambda>(index, candidate). length candidate)") (auto dest: IndexByte_Some)

declare resolve_walk.simps [simp del]

definition Resolve :: "unicode \<Rightarrow> routing_Config option \<Rightarrow> string \<Rightarrow> (Credential \<times> string) result" where
  "Resolve u conf fqdn = (case conf of
     None \<Rightarrow> Inl (EWrap '''' (ESentinel ErrNoMatch) '': config is nil'')
   | Some c \<Rightarrow>
       let name = normaliseFQDN u fqdn in
       if name = [] then Inl (EWrap '''' (ESentinel ErrNoMatch) '': FQDN is empty'')
       else
         (case resolve_walk (build_index u 0 (Credentials c) Map.empty) name of
            Some (idx, candidate) \<Rightarrow> Inr (Credentials c ! idx, candidate)
          | None \<Rightarrow>
              Inl (EWrap '''' (ESentinel ErrNoMatch)
                    ('': '' @ Quote u name @ '' (configured zones: '' @ formatConfiguredZones c @ '')''))))"

section \<open>ValidateConfig\<close>

definition isSubdomainOfRegistrable :: "unicode \<Rightarrow> string \<Rightarrow> bool" where
  "isSubdomainOfRegistrable u zone =
     (let z = ToLower u zone;
          labels = Split1 z (CHR ''.'')
      in if length labels < 2 then False
         else if length labels = 2 then False
         else \<not> list_ex (\<lambda>sfx. HasSuffix (''.'' @ z) sfx \<and> length labels = 3) multiPartPublicSuffixes)"

definition zone_rune_ok :: "rune \<Rightarrow> bool" where
  "zone_rune_ok r \<longleftrightarrow> (97 \<le> r \<and> r \<le> 122) \<or> (65 \<le> r \<and> r \<le> 90) \<or> (48 \<le> r \<and> r \<le> 57) \<or> r = 45 \<or> r = 46"

definition validateZoneString :: "unicode \<Rightarrow> string \<Rightarrow> string \<Rightarrow> goerr option" where
  "validateZoneString u zone credName =
     (if zone = [] then
        Some (ENew (''credential '' @ Quote u credName @ '' has an empty zone string''))
      else if TrimSpace zone \<noteq> zone then
        Some (ENew (''credential '' @ Quote u credName @ '' zone '' @ Quote u zone @
                    '' has leading or trailing whitespace''))
      else if HasPrefix zone ''.'' then
        Some (ENew (''credential '' @ Quote u credName @ '' zone '' @ Quote u zone @
                    '' has a leading dot''))
      else if HasSuffix zone ''.'' then
        Some (ENew (''credential '' @ Quote u credName @ '' zone '' @ Quote u zone @
                    '' has a trailing dot; zone-apex names are bare (no terminating dot)''))
      else if Contains zone ''*'' then
        Some (ENew (''credential '' @ Quote u credName @ '' zone '' @ Quote u zone @
                    '' contains a wildcard; zone-apex names are literal, not patterns''))
      else if Contains zone ''..'' then
        Some (ENew (''credential '' @ Quote u credName @ '' zone '' @ Quote u zone @
                    '' contains an empty label''))
      else
        (case find (\<lambda>(r, w). \<not> zone_rune_ok r) (runes zone) of
           Some (r, w) \<Rightarrow>
             Some (ENew (''credential '' @ Quote u credName @ '' zone '' @ Quote u zone @
                         '' contains invalid character '' @ QuoteRune u r @
                         ''; only [a-z0-9-.] allowed (IDN must be punycoded)''))
         | None \<Rightarrow>
             if isSubdomainOfRegistrable u zone then
               Some (ENew (''credential '' @ Quote u credName @ '' zone '' @ Quote u zone @
                 '' looks like a subdomain of a registrable domain; '' @
                 ''Hetzner Cloud Zones does not support subdomain zones '' @
                 ''(see docs/app-concept.md '' @ [chr 194, chr 167] @ '' 3.4) '' @
                 [chr 226, chr 128, chr 148] @ '' use the zone-apex instead''))
             else None))"

fun validate_zones ::
  "unicode \<Rightarrow> string \<Rightarrow> string set \<Rightarrow> (string \<rightharpoonup> string) \<Rightarrow> string list \<Rightarrow> (string \<rightharpoonup> string) result" where
  "validate_zones u credName seenInCred firstSeenBy [] = Inr firstSeenBy"
| "validate_zones u credName seenInCred firstSeenBy (zone # zones) =
     (case validateZoneString u zone credName of
        Some err \<Rightarrow> Inl err
      | None \<Rightarrow>
          let normalised = ToLower u zone in
          if normalised \<in> seenInCred then
            Inl (ENew (''credential '' @ Quote u credName @ '' lists zone '' @ Quote u zone @
                       '' more than once''))
          else
            (case firstSeenBy normalised of
               Some other \<Rightarrow>
                 Inl (ENew (''zone '' @ Quote u zone @ '' is listed by both credential '' @
                            Quote u other @ '' and credential '' @ Quote u credName @
                            ''; each zone-apex must appear in exactly one credential''))
             | None \<Rightarrow>
                 validate_zones u credName (insert normalised seenInCred)
                   (firstSeenBy(normalised \<mapsto> credName)) zones))"

fun validate_creds ::
  "unicode \<Rightarrow> nat \<Rightarrow> string set \<Rightarrow> (string \<rightharpoonup> string) \<Rightarrow> Credential list \<Rightarrow> goerr option" where
  "validate_creds u i credNames firstSeenBy [] = None"
| "validate_creds u i credNames firstSeenBy (cred # creds) =
     (if TrimSpace (cred_Name cred) = [] then
        Some (ENew (''credential at index '' @ Itoa (int i) @ '' has empty name''))
      else if cred_Name cred \<in> credNames then
        Some (ENew (''duplicate credential name '' @ Quote u (cred_Name cred)))
      else if TrimSpace (cred_APITokenSecretRef cred) = [] then
        Some (ENew (''credential '' @ Quote u (cred_Name cred) @ '' has empty apiTokenSecretRef''))
      else if cred_Zones cred = [] then
        Some (ENew (''credential '' @ Quote u (cred_Name cred) @
                    '' has no zones; at least one zone is required''))
      else
        (case validate_zones u (cred_Name cred) {} firstSeenBy (cred_Zones cred) of
           Inl err \<Rightarrow> Some err
         | Inr seen \<Rightarrow> validate_creds u (Suc i) (insert (cred_Name cred) credNames) seen creds))"

definition ValidateConfig :: "unicode \<Rightarrow> routing_Config option \<Rightarrow> goerr option" where
  "ValidateConfig u config = (case config of
     None \<Rightarrow> Some (ENew ''config is nil'')
   | Some c \<Rightarrow>
       if Credentials c = [] then
         Some (ENew ''config has no credentials; at least one credential is required'')
       else validate_creds u 0 {} Map.empty (Credentials c))"


section \<open>The suffix walk\<close>

text \<open>\<open>under apex name\<close>: \<open>name\<close> is \<open>apex\<close> or ends in it at a label boundary.\<close>

definition under :: "string \<Rightarrow> string \<Rightarrow> bool" where
  "under apex name \<longleftrightarrow> name = apex \<or> (\<exists>p. name = p @ ''.'' @ apex)"

lemma under_refl [simp]: "under a a"
  by (simp add: under_def)

lemma under_length: "under a n \<Longrightarrow> length a \<le> length n"
  by (auto simp: under_def)

lemma under_suffix: "under a n \<Longrightarrow> \<exists>p. n = p @ a"
  by (auto simp: under_def)

lemma under_no_dot: "CHR ''.'' \<notin> set n \<Longrightarrow> under a n \<longleftrightarrow> a = n"
  by (auto simp: under_def)

lemma under_step:
  assumes "CHR ''.'' \<notin> set l"
  shows "under a (l @ CHR ''.'' # t) \<longleftrightarrow> a = l @ CHR ''.'' # t \<or> under a t"
proof -
  have "under a t" if "l @ CHR ''.'' # t = p @ CHR ''.'' # a" for p
    using that assms by (auto simp: under_def append_eq_append_conv2 Cons_eq_append_conv append_eq_Cons_conv)
  moreover have "\<exists>p. l @ CHR ''.'' # t = p @ CHR ''.'' # a" if "under a t"
    using that unfolding under_def by (auto intro: exI [of _ l] exI [of _ "l @ CHR ''.'' # _"])
  ultimately show ?thesis
    by (auto simp: under_def [of a "l @ CHR ''.'' # t"])
qed

lemma under_linear:
  assumes "under a n" and "under b n" and "length a \<le> length b"
  shows "under a b"
proof -
  obtain p q where n: "n = p @ a" "n = q @ b"
    using assms(1,2) by (metis under_suffix)
  with assms(3) obtain r where b: "b = r @ a" and p: "p = q @ r"
    by (auto simp: append_eq_append_conv2)
  show ?thesis
  proof (cases r rule: rev_cases)
    case (snoc r' c)
    with assms(1) n p have "c = CHR ''.''"
      by (auto simp: under_def)
    with snoc b show ?thesis by (auto simp: under_def)
  qed (use b in simp)
qed

lemma under_same_length: "under a n \<Longrightarrow> under b n \<Longrightarrow> length a = length b \<Longrightarrow> a = b"
  by (metis append_eq_append_conv under_suffix)

lemma dot_split:
  assumes "IndexByte n (CHR ''.'') = Some d"
  obtains l where "n = l @ CHR ''.'' # drop (Suc d) n" and "CHR ''.'' \<notin> set l"
  using IndexByte_Some [OF assms] by blast

text \<open>
  The walk finds the longest suffix at a label boundary that the index knows, and fails only
  when the index knows none of them.
\<close>

lemma resolve_walk_None: "resolve_walk ix n = None \<longleftrightarrow> (\<forall>a. under a n \<longrightarrow> ix a = None)"
proof (induction ix n rule: resolve_walk.induct)
  case (1 ix n)
  show ?case
  proof (cases "ix n")
    case None
    show ?thesis
    proof (cases "IndexByte n (CHR ''.'')")
      case None
      then have "under a n \<longleftrightarrow> a = n" for a
        by (simp add: under_no_dot IndexByte_None)
      with None \<open>ix n = None\<close> show ?thesis
        by (simp add: resolve_walk.simps [of ix n])
    next
      case (Some d)
      then obtain l where n: "n = l @ CHR ''.'' # drop (Suc d) n" "CHR ''.'' \<notin> set l"
        by (rule dot_split)
      then have "under a n \<longleftrightarrow> a = n \<or> under a (drop (Suc d) n)" for a
        using under_step [OF n(2), of a "drop (Suc d) n"] by metis
      with 1 [OF None Some] None Some show ?thesis
        by (auto simp: resolve_walk.simps [of ix n])
    qed
  qed (auto simp: resolve_walk.simps [of ix n] intro: exI [of _ n])
qed

lemma resolve_walk_Some:
  "resolve_walk ix n = Some (i, a) \<Longrightarrow>
     ix a = Some i \<and> under a n \<and> (\<forall>b. under b n \<and> length a < length b \<longrightarrow> ix b = None)"
proof (induction ix n rule: resolve_walk.induct)
  case (1 ix n)
  show ?case
  proof (cases "ix n")
    case None
    with "1.prems" obtain d where d: "IndexByte n (CHR ''.'') = Some d"
      by (auto simp: resolve_walk.simps [of ix n] split: option.splits)
    then obtain l where n: "n = l @ CHR ''.'' # drop (Suc d) n" "CHR ''.'' \<notin> set l"
      by (rule dot_split)
    have step: "under b n \<longleftrightarrow> b = n \<or> under b (drop (Suc d) n)" for b
      using under_step [OF n(2), of b "drop (Suc d) n"] n(1) by metis
    from "1.prems" None d have "resolve_walk ix (drop (d + 1) n) = Some (i, a)"
      by (simp add: resolve_walk.simps [of ix n])
    from "1.IH" [OF None d this] show ?thesis
      using None by (auto simp: step)
  next
    case (Some j)
    with "1.prems" show ?thesis
      by (auto simp: resolve_walk.simps [of ix n] dest: under_length)
  qed
qed

lemma resolve_walk_Some_iff:
  "resolve_walk ix n = Some (i, a) \<longleftrightarrow>
     ix a = Some i \<and> under a n \<and> (\<forall>b. under b n \<and> length a < length b \<longrightarrow> ix b = None)"
proof
  assume r: "ix a = Some i \<and> under a n \<and> (\<forall>b. under b n \<and> length a < length b \<longrightarrow> ix b = None)"
  then have "resolve_walk ix n \<noteq> None"
    by (auto simp: resolve_walk_None)
  then obtain j b where jb: "resolve_walk ix n = Some (j, b)"
    by auto
  note w = resolve_walk_Some [OF this]
  with r have "length a = length b"
    by (metis linorder_less_linear option.distinct(1))
  with r w have "a = b"
    by (blast intro: under_same_length)
  with r w jb show "resolve_walk ix n = Some (i, a)" by simp
qed (rule resolve_walk_Some)

section \<open>The index\<close>

definition lower_zones :: "unicode \<Rightarrow> Credential \<Rightarrow> string set" where
  "lower_zones u c = ToLower u ` set (cred_Zones c)"

lemma index_zones_apply:
  "index_zones u i zs m n = (if n \<in> ToLower u ` set zs then Some i else m n)"
  unfolding index_zones_def by (induction zs arbitrary: m) auto

lemma build_index_None:
  "build_index u k cs m n = None \<longleftrightarrow> m n = None \<and> (\<forall>c\<in>set cs. n \<notin> lower_zones u c)"
  by (induction cs arbitrary: k m) (auto simp: index_zones_apply lower_zones_def)

lemma build_index_Some:
  "build_index u k cs m n = Some i \<Longrightarrow>
     (m n = Some i \<and> (\<forall>c\<in>set cs. n \<notin> lower_zones u c)) \<or>
     (\<exists>j<length cs. i = k + j \<and> n \<in> lower_zones u (cs ! j) \<and>
        (\<forall>j'<length cs. j < j' \<longrightarrow> n \<notin> lower_zones u (cs ! j')))"
proof (induction cs arbitrary: k m)
  case (Cons c cs)
  let ?m = "index_zones u k (cred_Zones c) m"
  from Cons.prems have "build_index u (Suc k) cs ?m n = Some i" by simp
  from Cons.IH [OF this] show ?case
  proof
    assume "\<exists>j<length cs. i = Suc k + j \<and> n \<in> lower_zones u (cs ! j) \<and>
        (\<forall>j'<length cs. j < j' \<longrightarrow> n \<notin> lower_zones u (cs ! j'))"
    then obtain j where j: "j < length cs" "i = Suc k + j" "n \<in> lower_zones u (cs ! j)"
      "\<forall>j'<length cs. j < j' \<longrightarrow> n \<notin> lower_zones u (cs ! j')" by blast
    then have "\<forall>j'<length (c # cs). Suc j < j' \<longrightarrow> n \<notin> lower_zones u ((c # cs) ! j')"
      by (auto simp: nth_Cons split: nat.splits)
    with j show ?case
      by (intro disjI2 exI [of _ "Suc j"]) simp
  next
    assume r: "?m n = Some i \<and> (\<forall>c\<in>set cs. n \<notin> lower_zones u c)"
    show ?case
    proof (cases "n \<in> lower_zones u c")
      case True
      with r have "i = k"
        by (auto simp: index_zones_apply lower_zones_def)
      moreover have "\<forall>j'<length (c # cs). 0 < j' \<longrightarrow> n \<notin> lower_zones u ((c # cs) ! j')"
        using r by (auto simp: nth_Cons split: nat.splits)
      ultimately show ?thesis
        using True by (intro disjI2 exI [of _ 0]) simp
    next
      case False
      with r show ?thesis
        by (auto simp: index_zones_apply lower_zones_def)
    qed
  qed
qed simp

lemma index_Some_owner:
  assumes "build_index u 0 cs Map.empty n = Some i"
  shows "i < length cs" and "n \<in> lower_zones u (cs ! i)"
    and "\<forall>j<length cs. i < j \<longrightarrow> n \<notin> lower_zones u (cs ! j)"
  using build_index_Some [OF assms] by auto

lemma index_None: "build_index u 0 cs Map.empty n = None \<longleftrightarrow> (\<forall>c\<in>set cs. n \<notin> lower_zones u c)"
  by (simp add: build_index_None)

end
