(* ===== verification/Routing_Config.thy ===== *)
theory Routing_Config
  imports Routing
begin

text \<open>
  What the load-time validation of the routing layer accepts. \<open>zone_ok\<close> and \<open>config_ok\<close> are
  declarative descriptions (labels, character set, pairwise distinct names and zones); the
  checks of \<open>ValidateConfig\<close>, run in the code's order, accept exactly these.
\<close>

section \<open>Zone strings\<close>

text \<open>The characters of a label: letters, digits and the hyphen.\<close>

definition ldh :: "char \<Rightarrow> bool" where
  "ldh c \<longleftrightarrow>
     c \<in> {CHR ''a''..CHR ''z''} \<union> {CHR ''A''..CHR ''Z''} \<union> {CHR ''0''..CHR ''9''} \<union> {CHR ''-''}"

definition zone_ok :: "string \<Rightarrow> bool" where
  "zone_ok z \<longleftrightarrow>
     list_all (\<lambda>l. l \<noteq> [] \<and> list_all ldh l) (Split1 z (CHR ''.'')) \<and>
     (length (Split1 z (CHR ''.'')) \<le> 2 \<or>
      (length (Split1 z (CHR ''.'')) = 3 \<and>
       CHR ''.'' # Join (tl (Split1 (map ascii_lower z) (CHR ''.''))) ''.'' \<in> set multiPartPublicSuffixes))"

lemma decode_tail_nonascii: "decode_tail b cs = Some (r, w) \<Longrightarrow> 128 \<le> r"
  by (induction b cs rule: decode_tail.induct) (auto simp: second_ok_def split: if_splits)

lemma DecodeRune_small: "fst (DecodeRune (c # cs)) < 128 \<longleftrightarrow> byte c < 128"
  by (auto simp: DecodeRune_def RuneError_def split: option.splits dest: decode_tail_nonascii)

lemma runes_small: "list_all (\<lambda>(r, w). r < 128) (runes s) \<Longrightarrow> ascii s"
proof (induction s rule: runes.induct)
  case (2 c cs)
  then have "fst (DecodeRune (c # cs)) < 128"
    by (auto simp del: DecodeRune_ascii split: prod.splits)
  then have "byte c < 128" by (simp add: DecodeRune_small)
  with 2 show ?case by auto
qed simp

lemma zone_rune_ok_small: "zone_rune_ok r \<Longrightarrow> r < 128"
  by (auto simp: zone_rune_ok_def)

lemma zone_rune_ok_ldh: "zone_rune_ok (byte c) \<longleftrightarrow> c = CHR ''.'' \<or> ldh c"
proof -
  have "c = CHR ''-'' \<longleftrightarrow> byte c = 45" "c = CHR ''.'' \<longleftrightarrow> byte c = 46"
    using of_char_eq_iff [of c "CHR ''-''", where 'a = nat] of_char_eq_iff [of c "CHR ''.''", where 'a = nat] by simp_all
  then show ?thesis unfolding ldh_def zone_rune_ok_def by (auto simp: less_eq_char_def)
qed

lemma find_bad_rune:
  "find (\<lambda>(r, w). \<not> zone_rune_ok r) (runes z) = None \<longleftrightarrow> list_all (\<lambda>c. zone_rune_ok (byte c)) z"
proof
  assume "find (\<lambda>(r, w). \<not> zone_rune_ok r) (runes z) = None"
  then have ok: "list_all (\<lambda>(r, w). zone_rune_ok r) (runes z)"
    by (auto simp: find_None_iff list_all_iff)
  then have "ascii z"
    by (intro runes_small) (auto simp: list_all_iff dest: zone_rune_ok_small)
  with ok show "list_all (\<lambda>c. zone_rune_ok (byte c)) z"
    by (simp add: runes_ascii list_all_iff)
next
  assume ok: "list_all (\<lambda>c. zone_rune_ok (byte c)) z"
  then have "ascii z"
    by (auto simp: ascii_def list_all_iff dest: zone_rune_ok_small)
  with ok show "find (\<lambda>(r, w). \<not> zone_rune_ok r) (runes z) = None"
    by (auto simp: runes_ascii find_None_iff list_all_iff)
qed

lemma hd_Split1_Nil: "hd (Split1 s b) = [] \<longleftrightarrow> s = [] \<or> hd s = b"
  by (cases s) (auto split: list.splits)

lemma Contains_double:
  "Contains (c # cs) [b, b] \<longleftrightarrow> (c = b \<and> cs \<noteq> [] \<and> hd cs = b) \<or> Contains cs [b, b]"
  by (cases cs) (auto simp: HasPrefix_iff)

lemma Contains_Nil_double [simp]: "\<not> Contains [] [b, c]"
  by simp

lemma tl_Split1_nonempty:
  "(\<forall>l\<in>set (tl (Split1 s b)). l \<noteq> []) \<longleftrightarrow> (s = [] \<or> last s \<noteq> b) \<and> \<not> Contains s [b, b]"
proof (induction s)
  case (Cons c cs)
  have "(\<forall>l\<in>set (Split1 cs b). l \<noteq> []) \<longleftrightarrow>
          hd (Split1 cs b) \<noteq> [] \<and> (\<forall>l\<in>set (tl (Split1 cs b)). l \<noteq> [])"
    by (cases "Split1 cs b") auto
  then have all: "(\<forall>l\<in>set (Split1 cs b). l \<noteq> []) \<longleftrightarrow>
      (cs \<noteq> [] \<and> hd cs \<noteq> b) \<and> last cs \<noteq> b \<and> \<not> Contains cs [b, b]"
    using Cons.IH by (auto simp: hd_Split1_Nil)
  show ?case
  proof (cases "c = b")
    case True
    with all show ?thesis
      by (auto simp: Contains_double simp del: Contains.simps)
  next
    case False
    with Cons.IH show ?thesis
      by (simp add: Split1_Cons Contains_double del: Contains.simps Split1.simps)
  qed
qed simp

lemma Split1_labels_nonempty:
  "(\<forall>l\<in>set (Split1 s b). l \<noteq> []) \<longleftrightarrow> s \<noteq> [] \<and> hd s \<noteq> b \<and> last s \<noteq> b \<and> \<not> Contains s [b, b]"
proof -
  have "(\<forall>l\<in>set (Split1 s b). l \<noteq> []) \<longleftrightarrow>
          hd (Split1 s b) \<noteq> [] \<and> (\<forall>l\<in>set (tl (Split1 s b)). l \<noteq> [])"
    by (cases "Split1 s b") auto
  then show ?thesis
    by (auto simp: hd_Split1_Nil tl_Split1_nonempty)
qed

lemma Split1_set: "list_all (\<lambda>l. list_all P l) (Split1 s b) \<longleftrightarrow> list_all (\<lambda>c. c = b \<or> P c) s"
proof (induction s)
  case (Cons c cs)
  then show ?case
    by (cases "Split1 cs b") auto
qed simp

lemma Split1_map:
  "(\<And>c. f c = b \<longleftrightarrow> c = b) \<Longrightarrow> Split1 (map f s) b = map (map f) (Split1 s b)"
proof (induction s)
  case (Cons c cs)
  then show ?case
    by (cases "Split1 cs b") auto
qed simp

lemma ascii_lower_dot [simp]: "ascii_lower c = CHR ''.'' \<longleftrightarrow> c = CHR ''.''"
  by (rule ascii_lower_eq_iff) simp

lemma zone_chars_ascii: "list_all (\<lambda>c. zone_rune_ok (byte c)) z \<Longrightarrow> ascii z"
  by (auto simp: ascii_def list_all_iff dest: zone_rune_ok_small)

lemma zone_chars_no_space: "list_all (\<lambda>c. zone_rune_ok (byte c)) z \<Longrightarrow> TrimSpace z = z"
proof (rule TrimSpace_id)
  assume ok: "list_all (\<lambda>c. zone_rune_ok (byte c)) z"
  have "zone_rune_ok r \<Longrightarrow> \<not> IsSpace r" for r
    by (auto simp: zone_rune_ok_def IsSpace_def)
  moreover have "z \<noteq> [] \<Longrightarrow> zone_rune_ok (byte (hd z)) \<and> zone_rune_ok (byte (last z))"
    using ok by (simp add: list_all_iff)
  ultimately show "no_outer_space z"
    by (auto simp: no_outer_space_def dest: zone_rune_ok_small)
qed

subsection \<open>Registrable domains\<close>

lemma public_suffix_shape:
  "sfx \<in> set multiPartPublicSuffixes \<Longrightarrow> \<exists>t. sfx = CHR ''.'' # t \<and> length (Split1 t (CHR ''.'')) = 2"
  by (auto simp: multiPartPublicSuffixes_def)

lemma HasSuffix_dot: "HasSuffix (''.'' @ z) (CHR ''.'' # t) \<longleftrightarrow> under t z"
  by (auto simp: HasSuffix_iff under_def Cons_eq_append_conv)

lemma under_tail_labels:
  assumes "length (Split1 z (CHR ''.'')) = 3" and "length (Split1 t (CHR ''.'')) = 2"
  shows "under t z \<longleftrightarrow> t = Join (tl (Split1 z (CHR ''.''))) ''.''"
proof -
  obtain a b c where ls: "Split1 z (CHR ''.'') = [a, b, c]"
    using assms(1) by (auto simp: numeral_eq_Suc length_Suc_conv)
  then have nd: "CHR ''.'' \<notin> set a" "CHR ''.'' \<notin> set b" "CHR ''.'' \<notin> set c"
    using Split1_labels [of _ z "CHR ''.''"] by simp_all
  have z: "z = a @ CHR ''.'' # b @ CHR ''.'' # c"
    using Join_Split1 [of z "CHR ''.''"] ls by simp
  have "t \<noteq> z" "t \<noteq> c"
    using assms nd by (auto simp: Split1_no_sep)
  with nd show ?thesis
    by (simp add: z ls [unfolded z] under_step under_no_dot)
qed

lemma isSubdomain_iff:
  assumes "ascii z"
  shows "\<not> isSubdomainOfRegistrable u z \<longleftrightarrow>
    length (Split1 z (CHR ''.'')) \<le> 2 \<or>
    (length (Split1 z (CHR ''.'')) = 3 \<and>
     CHR ''.'' # Join (tl (Split1 (map ascii_lower z) (CHR ''.''))) ''.'' \<in> set multiPartPublicSuffixes)"
proof -
  let ?z = "map ascii_lower z"
  have len: "length (Split1 ?z (CHR ''.'')) = length (Split1 z (CHR ''.''))"
    by (simp add: Split1_map)
  have "HasSuffix (''.'' @ ?z) sfx \<longleftrightarrow> sfx = CHR ''.'' # Join (tl (Split1 ?z (CHR ''.''))) ''.''"
    if "sfx \<in> set multiPartPublicSuffixes" and "length (Split1 z (CHR ''.'')) = 3" for sfx
    using public_suffix_shape [OF that(1)] that(2) len
    by (auto simp: HasSuffix_dot under_tail_labels simp del: append_Cons)
  then show ?thesis
    using assms len
    by (auto simp: isSubdomainOfRegistrable_def Let_def list_ex_iff simp del: append_Cons)
qed

text \<open>The checks without their messages.\<close>

lemma validateZoneString_None:
  "validateZoneString u z n = None \<longleftrightarrow>
     z \<noteq> [] \<and> TrimSpace z = z \<and> \<not> HasPrefix z ''.'' \<and> \<not> HasSuffix z ''.'' \<and> \<not> Contains z ''*'' \<and>
     \<not> Contains z ''..'' \<and> find (\<lambda>(r, w). \<not> zone_rune_ok r) (runes z) = None \<and>
     \<not> isSubdomainOfRegistrable u z"
  unfolding validateZoneString_def split_beta by (simp only: guards simp_thms not_not)

lemma validateZoneString_iff: "validateZoneString u z n = None \<longleftrightarrow> zone_ok z"
proof (cases "list_all (\<lambda>c. zone_rune_ok (byte c)) z")
  case True
  then have star: "\<not> Contains z ''*''"
    by (auto simp: Contains_single list_all_iff zone_rune_ok_def)
  have "list_all (\<lambda>l. list_all ldh l) (Split1 z (CHR ''.''))"
    using True by (simp only: Split1_set zone_rune_ok_ldh)
  then have "zone_ok z \<longleftrightarrow> (\<forall>l\<in>set (Split1 z (CHR ''.'')). l \<noteq> []) \<and> \<not> isSubdomainOfRegistrable u z"
    by (simp add: zone_ok_def isSubdomain_iff [OF zone_chars_ascii [OF True]] list_all_iff)
  moreover have "find (\<lambda>(r, w). \<not> zone_rune_ok r) (runes z) = None"
    using True by (simp add: find_bad_rune)
  ultimately show ?thesis
    using True star
    by (auto simp: validateZoneString_None zone_chars_no_space HasPrefix_single HasSuffix_single
          Split1_labels_nonempty)
next
  case False
  then have "find (\<lambda>(r, w). \<not> zone_rune_ok r) (runes z) \<noteq> None"
    by (simp add: find_bad_rune)
  then have "validateZoneString u z n \<noteq> None"
    by (simp add: validateZoneString_None)
  moreover have "\<not> list_all (\<lambda>l. list_all ldh l) (Split1 z (CHR ''.''))"
    using False by (simp only: Split1_set zone_rune_ok_ldh not_False_eq_True)
  then have "\<not> zone_ok z"
    by (auto simp: zone_ok_def list_all_iff)
  ultimately show ?thesis by blast
qed

lemma zone_ok_ascii: "zone_ok z \<Longrightarrow> ascii z"
proof -
  assume "zone_ok z"
  then have "list_all (\<lambda>l. list_all ldh l) (Split1 z (CHR ''.''))"
    by (simp add: zone_ok_def list_all_iff)
  then show "ascii z"
    by (intro zone_chars_ascii) (simp only: Split1_set zone_rune_ok_ldh)
qed

section \<open>Whole configurations\<close>

definition all_lower_zones :: "unicode \<Rightarrow> Credential list \<Rightarrow> string list" where
  "all_lower_zones u cs = map (ToLower u) (concat (map cred_Zones cs))"

definition cred_ok :: "Credential \<Rightarrow> bool" where
  "cred_ok c \<longleftrightarrow> TrimSpace (cred_Name c) \<noteq> [] \<and> TrimSpace (cred_APITokenSecretRef c) \<noteq> [] \<and>
     cred_Zones c \<noteq> [] \<and> list_all zone_ok (cred_Zones c)"

definition config_ok :: "unicode \<Rightarrow> Credential list \<Rightarrow> bool" where
  "config_ok u cs \<longleftrightarrow> cs \<noteq> [] \<and> list_all cred_ok cs \<and> distinct (map cred_Name cs) \<and>
     distinct (all_lower_zones u cs)"

lemma all_lower_zones_simps [simp]:
  "all_lower_zones u [] = []"
  "all_lower_zones u (c # cs) = map (ToLower u) (cred_Zones c) @ all_lower_zones u cs"
  by (simp_all add: all_lower_zones_def)

lemma set_all_lower_zones: "set (all_lower_zones u cs) = (\<Union>c\<in>set cs. lower_zones u c)"
  by (auto simp: all_lower_zones_def lower_zones_def)

lemma validate_zones_Cons_Inr:
  "validate_zones u n seen fsb (z # zs) = Inr m \<longleftrightarrow>
     validateZoneString u z n = None \<and> ToLower u z \<notin> seen \<and> fsb (ToLower u z) = None \<and>
     validate_zones u n (insert (ToLower u z) seen) (fsb(ToLower u z \<mapsto> n)) zs = Inr m"
  by (auto simp only: validate_zones.simps Let_def guards sum.distinct split: option.splits)

lemma validate_zones_ok:
  "is_ok (validate_zones u n seen fsb zs) \<longleftrightarrow>
     list_all zone_ok zs \<and> distinct (map (ToLower u) zs) \<and>
     ToLower u ` set zs \<inter> (seen \<union> dom fsb) = {}"
proof (induction zs arbitrary: seen fsb)
  case (Cons z zs)
  have "is_ok (validate_zones u n seen fsb (z # zs)) \<longleftrightarrow>
      zone_ok z \<and> ToLower u z \<notin> seen \<and> fsb (ToLower u z) = None \<and>
      is_ok (validate_zones u n (insert (ToLower u z) seen) (fsb(ToLower u z \<mapsto> n)) zs)"
    unfolding is_ok_iff validate_zones_Cons_Inr validateZoneString_iff by blast
  also have "\<dots> \<longleftrightarrow> zone_ok z \<and> ToLower u z \<notin> seen \<union> dom fsb \<and> list_all zone_ok zs \<and>
      distinct (map (ToLower u) zs) \<and>
      ToLower u ` set zs \<inter> (insert (ToLower u z) (seen \<union> dom fsb)) = {}"
    unfolding Cons.IH by auto
  finally show ?case by auto
qed simp

lemma validate_zones_dom:
  "validate_zones u n seen fsb zs = Inr m \<Longrightarrow> dom m = dom fsb \<union> ToLower u ` set zs"
proof (induction zs arbitrary: seen fsb)
  case (Cons z zs)
  from Cons.prems have
    "validate_zones u n (insert (ToLower u z) seen) (fsb(ToLower u z \<mapsto> n)) zs = Inr m"
    unfolding validate_zones_Cons_Inr by blast
  from Cons.IH [OF this] show ?case
    by (simp only: dom_fun_upd option.distinct if_False list.set image_insert Un_insert_left Un_insert_right)
qed simp

lemma validate_creds_Cons_None:
  "validate_creds u i names fsb (c # cs) = None \<longleftrightarrow>
     TrimSpace (cred_Name c) \<noteq> [] \<and> cred_Name c \<notin> names \<and>
     TrimSpace (cred_APITokenSecretRef c) \<noteq> [] \<and> cred_Zones c \<noteq> [] \<and>
     (\<exists>m. validate_zones u (cred_Name c) {} fsb (cred_Zones c) = Inr m \<and>
          validate_creds u (Suc i) (insert (cred_Name c) names) m cs = None)"
  unfolding validate_creds.simps
  by (simp only: guards) (cases "validate_zones u (cred_Name c) {} fsb (cred_Zones c)"; simp)

lemma validate_creds_None:
  "validate_creds u i names fsb cs = None \<longleftrightarrow>
     list_all cred_ok cs \<and> distinct (map cred_Name cs) \<and> cred_Name ` set cs \<inter> names = {} \<and>
     distinct (all_lower_zones u cs) \<and> set (all_lower_zones u cs) \<inter> dom fsb = {}"
proof (induction cs arbitrary: i names fsb)
  case (Cons c cs)
  let ?zs = "ToLower u ` set (cred_Zones c)"
  have "(\<exists>m. validate_zones u (cred_Name c) {} fsb (cred_Zones c) = Inr m \<and>
          validate_creds u (Suc i) (insert (cred_Name c) names) m cs = None) \<longleftrightarrow>
      is_ok (validate_zones u (cred_Name c) {} fsb (cred_Zones c)) \<and>
      list_all cred_ok cs \<and> distinct (map cred_Name cs) \<and>
      cred_Name ` set cs \<inter> insert (cred_Name c) names = {} \<and>
      distinct (all_lower_zones u cs) \<and> set (all_lower_zones u cs) \<inter> (dom fsb \<union> ?zs) = {}"
  proof (cases "validate_zones u (cred_Name c) {} fsb (cred_Zones c)")
    case (Inr m)
    then show ?thesis using validate_zones_dom [OF Inr] by (simp add: Cons.IH)
  qed simp
  moreover have "cred_Name ` set cs \<inter> insert (cred_Name c) names = {} \<and> cred_Name c \<notin> names \<longleftrightarrow>
      cred_Name c \<notin> cred_Name ` set cs \<and> insert (cred_Name c) (cred_Name ` set cs) \<inter> names = {}"
    by auto
  moreover have "?zs \<inter> dom fsb = {} \<and> set (all_lower_zones u cs) \<inter> (dom fsb \<union> ?zs) = {} \<longleftrightarrow>
      ?zs \<inter> set (all_lower_zones u cs) = {} \<and> (?zs \<union> set (all_lower_zones u cs)) \<inter> dom fsb = {}"
    by auto
  ultimately show ?case
    unfolding validate_creds_Cons_None validate_zones_ok
    by (simp only: cred_ok_def [of c] all_lower_zones_simps list.pred_inject list.map distinct.simps
          distinct_append set_append set_map list.set image_insert Un_empty_left conj_assoc) argo
qed simp

lemma ValidateConfig_iff: "ValidateConfig u (Some c) = None \<longleftrightarrow> config_ok u (Credentials c)"
  by (simp add: ValidateConfig_def config_ok_def validate_creds_None)

lemma config_ok_zone: "config_ok u cs \<Longrightarrow> c \<in> set cs \<Longrightarrow> z \<in> set (cred_Zones c) \<Longrightarrow> zone_ok z"
  by (auto simp: config_ok_def cred_ok_def list_all_iff)

text \<open>In an accepted configuration every lower-cased zone has one owner.\<close>

lemma distinct_lower_owner:
  "distinct (all_lower_zones u cs) \<Longrightarrow> i < length cs \<Longrightarrow> j < length cs \<Longrightarrow>
   n \<in> lower_zones u (cs ! i) \<Longrightarrow> n \<in> lower_zones u (cs ! j) \<Longrightarrow> i = j"
proof (induction cs arbitrary: i j)
  case (Cons c cs)
  have disj: "n \<notin> lower_zones u (cs ! k)" if "n \<in> lower_zones u c" "k < length cs" for k
  proof -
    have "n \<notin> set (all_lower_zones u cs)"
      using Cons.prems(1) that(1) by (auto simp: lower_zones_def)
    with that(2) show ?thesis by (auto simp: set_all_lower_zones)
  qed
  from Cons show ?case
    by (cases i; cases j) (auto dest: disj)
qed simp

lemma config_ok_owner:
  assumes "config_ok u cs" and "c \<in> set cs" and "d \<in> set cs"
    and "n \<in> lower_zones u c" and "n \<in> lower_zones u d"
  shows "c = d"
proof -
  obtain i j where "i < length cs" "c = cs ! i" "j < length cs" "d = cs ! j"
    using assms(2,3) by (metis in_set_conv_nth)
  with assms show ?thesis
    by (metis config_ok_def distinct_lower_owner)
qed

end
