(* ===== verification/Routing_Correct.thy ===== *)
theory Routing_Correct
  imports Routing_Config "HOL-Library.Multiset"
begin

text \<open>
  Correctness of the routing layer: what \<open>Resolve\<close> returns, that it fails closed, that an
  accepted configuration routes independently of the order of its entries, and where more
  than one configured zone can match. The interface the solver relies on is the locale
  \<open>routing_layer\<close>.
\<close>

section \<open>Resolve, unfolded\<close>

lemma Resolve_Inr_walk:
  "Resolve u (Some c) fqdn = Inr (cr, apex) \<longleftrightarrow>
     normaliseFQDN u fqdn \<noteq> [] \<and>
     (\<exists>i. resolve_walk (build_index u 0 (Credentials c) Map.empty) (normaliseFQDN u fqdn) = Some (i, apex) \<and>
          cr = Credentials c ! i)"
  unfolding Resolve_def Let_def option.case guards
  by (auto simp only: option.case prod.case sum.inject sum.distinct prod.inject split: option.splits)

lemma Resolve_Inl_walk:
  "is_ok (Resolve u (Some c) fqdn) \<longleftrightarrow>
     normaliseFQDN u fqdn \<noteq> [] \<and>
     resolve_walk (build_index u 0 (Credentials c) Map.empty) (normaliseFQDN u fqdn) \<noteq> None"
  unfolding is_ok_iff by (auto simp: Resolve_Inr_walk)

lemma Resolve_error: "Resolve u conf fqdn = Inl e \<Longrightarrow> errors_Is e ErrNoMatch"
  unfolding Resolve_def Let_def
  by (auto split: if_splits option.splits)

lemma index_Some_iff:
  "build_index u 0 cs Map.empty n = Some i \<longleftrightarrow>
     i < length cs \<and> n \<in> lower_zones u (cs ! i) \<and> (\<forall>j<length cs. i < j \<longrightarrow> n \<notin> lower_zones u (cs ! j))"
proof
  assume r: "i < length cs \<and> n \<in> lower_zones u (cs ! i) \<and>
    (\<forall>j<length cs. i < j \<longrightarrow> n \<notin> lower_zones u (cs ! j))"
  then have "build_index u 0 cs Map.empty n \<noteq> None"
    by (auto simp: index_None)
  then obtain k where k: "build_index u 0 cs Map.empty n = Some k" by auto
  with r have "k = i"
    using index_Some_owner [OF k] by (metis linorder_less_linear)
  with k show "build_index u 0 cs Map.empty n = Some i" by simp
qed (use index_Some_owner in blast)

text \<open>No configured zone lies strictly between \<open>apex\<close> and \<open>name\<close>.\<close>

definition most_specific :: "unicode \<Rightarrow> Credential list \<Rightarrow> string \<Rightarrow> string \<Rightarrow> bool" where
  "most_specific u cs apex name \<longleftrightarrow>
     (\<forall>b. under b name \<and> length apex < length b \<longrightarrow> (\<forall>c\<in>set cs. b \<notin> lower_zones u c))"

lemma Resolve_Inr_iff:
  "Resolve u (Some c) fqdn = Inr (cr, apex) \<longleftrightarrow>
     normaliseFQDN u fqdn \<noteq> [] \<and> under apex (normaliseFQDN u fqdn) \<and>
     most_specific u (Credentials c) apex (normaliseFQDN u fqdn) \<and>
     (\<exists>i<length (Credentials c). cr = Credentials c ! i \<and> apex \<in> lower_zones u cr \<and>
        (\<forall>j<length (Credentials c). i < j \<longrightarrow> apex \<notin> lower_zones u (Credentials c ! j)))"
  unfolding Resolve_Inr_walk resolve_walk_Some_iff index_None index_Some_iff most_specific_def
  by auto

lemma Resolve_ok_iff:
  "is_ok (Resolve u (Some c) fqdn) \<longleftrightarrow>
     normaliseFQDN u fqdn \<noteq> [] \<and>
     (\<exists>cr\<in>set (Credentials c). \<exists>z\<in>set (cred_Zones cr). under (ToLower u z) (normaliseFQDN u fqdn))"
  unfolding Resolve_Inl_walk resolve_walk_None index_None lower_zones_def by auto

text \<open>With one owner per zone the position of the owner no longer matters.\<close>

lemma Resolve_Inr_valid:
  assumes "config_ok u (Credentials c)"
  shows "Resolve u (Some c) fqdn = Inr (cr, apex) \<longleftrightarrow>
     normaliseFQDN u fqdn \<noteq> [] \<and> under apex (normaliseFQDN u fqdn) \<and>
     most_specific u (Credentials c) apex (normaliseFQDN u fqdn) \<and>
     cr \<in> set (Credentials c) \<and> apex \<in> lower_zones u cr"
proof -
  have "(\<exists>i<length (Credentials c). cr = Credentials c ! i \<and> apex \<in> lower_zones u cr \<and>
        (\<forall>j<length (Credentials c). i < j \<longrightarrow> apex \<notin> lower_zones u (Credentials c ! j)))
      \<longleftrightarrow> cr \<in> set (Credentials c) \<and> apex \<in> lower_zones u cr"
    using assms distinct_lower_owner [of u "Credentials c"] unfolding config_ok_def
    by (metis in_set_conv_nth less_irrefl_nat nth_mem)
  then show ?thesis unfolding Resolve_Inr_iff by blast
qed

lemma valid_apex:
  assumes "config_ok u (Credentials c)" and "Resolve u (Some c) fqdn = Inr (cr, apex)"
  shows "\<exists>z\<in>set (cred_Zones cr). apex = map ascii_lower z \<and> zone_ok z"
  using assms config_ok_zone [OF assms(1)] zone_ok_ascii
  by (fastforce simp: Resolve_Inr_valid [OF assms(1)] lower_zones_def)

section \<open>The interface of the routing layer\<close>

text \<open>
  What a caller of the package may rely on: a successful resolution names a credential of
  the configuration, a failed one is an \<open>ErrNoMatch\<close>, credential names of an accepted
  configuration are distinct, and the apex returned for one is a lower-case ASCII name the
  normalised FQDN ends in.
\<close>

locale routing_layer =
  fixes validate :: "'c \<Rightarrow> goerr option"
    and resolve :: "'c \<Rightarrow> string \<Rightarrow> (Credential \<times> string) result"
    and normalise :: "string \<Rightarrow> string"
    and credentials :: "'c \<Rightarrow> Credential list"
  assumes resolve_member: "resolve c f = Inr (cr, a) \<Longrightarrow> cr \<in> set (credentials c)"
    and resolve_under: "resolve c f = Inr (cr, a) \<Longrightarrow> under a (normalise f)"
    and resolve_error: "resolve c f = Inl e \<Longrightarrow> errors_Is e ErrNoMatch"
    and validate_names: "validate c = None \<Longrightarrow> distinct (map cred_Name (credentials c))"
    and apex_lower: "validate c = None \<Longrightarrow> resolve c f = Inr (cr, a) \<Longrightarrow>
      ascii a \<and> map ascii_lower a = a \<and> a \<noteq> []"
begin

lemma name_identifies:
  "validate c = None \<Longrightarrow> resolve c f = Inr (cr, a) \<Longrightarrow> d \<in> set (credentials c) \<Longrightarrow>
   cred_Name d = cred_Name cr \<Longrightarrow> d = cr"
  using validate_names resolve_member by (metis distinct_map inj_on_def)

lemma resolve_cases:
  obtains (Match) cr a where "resolve c f = Inr (cr, a)" "cr \<in> set (credentials c)" "under a (normalise f)"
  | (NoMatch) e where "resolve c f = Inl e" "errors_Is e ErrNoMatch"
  using resolve_member resolve_under resolve_error by (metis old.prod.exhaust old.sum.exhaust)

end

lemma zone_ok_nonempty: "zone_ok z \<Longrightarrow> z \<noteq> []"
  by (auto simp: zone_ok_def)

interpretation routes: routing_layer
  "\<lambda>c. ValidateConfig u (Some c)" "\<lambda>c. Resolve u (Some c)" "normaliseFQDN u" Credentials
  for u
proof unfold_locales
  fix c f cr a
  assume r: "Resolve u (Some c) f = Inr (cr, a)"
  then show "cr \<in> set (Credentials c)" "under a (normaliseFQDN u f)"
    by (auto simp: Resolve_Inr_iff)
  assume "ValidateConfig u (Some c) = None"
  then show "ascii a \<and> map ascii_lower a = a \<and> a \<noteq> []"
    using valid_apex [OF _ r] by (auto simp: ValidateConfig_iff zone_ok_ascii dest: zone_ok_nonempty)
next
  fix c f e
  assume "Resolve u (Some c) f = Inl e"
  then show "errors_Is e ErrNoMatch" by (rule Resolve_error)
next
  fix c
  assume "ValidateConfig u (Some c) = None"
  then show "distinct (map cred_Name (Credentials c))"
    by (simp add: ValidateConfig_iff config_ok_def)
qed

section \<open>Order of the entries\<close>

lemma config_ok_perm: "mset cs = mset cs' \<Longrightarrow> config_ok u cs \<Longrightarrow> config_ok u cs'"
proof -
  assume m: "mset cs = mset cs'" and ok: "config_ok u cs"
  have s: "set cs = set cs'"
    using m by (rule mset_eq_setD)
  have n: "mset (map cred_Name cs) = mset (map cred_Name cs')"
    using m by simp
  have "mset (concat (map cred_Zones cs)) = mset (concat (map cred_Zones cs'))"
    using m by (metis mset_concat mset_map sum_mset_sum_list)
  then have z: "mset (all_lower_zones u cs) = mset (all_lower_zones u cs')"
    by (metis all_lower_zones_def mset_map)
  show ?thesis
    using ok s mset_eq_imp_distinct_iff [OF n] mset_eq_imp_distinct_iff [OF z]
    by (auto simp: config_ok_def list_all_iff)
qed

lemma formatConfiguredZones_perm:
  assumes "mset (Credentials c) = mset (Credentials c')"
  shows "formatConfiguredZones c = formatConfiguredZones c'"
proof -
  have "mset (concat (map cred_Zones (Credentials c))) = mset (concat (map cred_Zones (Credentials c')))"
    using assms by (metis mset_concat mset_map sum_mset_sum_list)
  then have "sort (concat (map cred_Zones (Credentials c))) = sort (concat (map cred_Zones (Credentials c')))"
    by (metis sorted_list_of_multiset_mset)
  then show ?thesis by (simp only: formatConfiguredZones_def)
qed

lemma Resolve_walk_error:
  "\<not> is_ok (Resolve u (Some c) fqdn) \<Longrightarrow>
     Resolve u (Some c) fqdn =
       (if normaliseFQDN u fqdn = [] then Inl (EWrap '''' (ESentinel ErrNoMatch) '': FQDN is empty'')
        else Inl (EWrap '''' (ESentinel ErrNoMatch)
               ('': '' @ Quote u (normaliseFQDN u fqdn) @ '' (configured zones: '' @
                formatConfiguredZones c @ '')'')))"
  unfolding Resolve_Inl_walk
  by (cases "resolve_walk (build_index u 0 (Credentials c) Map.empty) (normaliseFQDN u fqdn)")
     (simp_all only: Resolve_def option.case Let_def option.distinct simp_thms not_False_eq_True if_True if_False)

lemma Resolve_perm:
  assumes ok: "config_ok u (Credentials c)" and m: "mset (Credentials c) = mset (Credentials c')"
  shows "Resolve u (Some c) fqdn = Resolve u (Some c') fqdn"
proof -
  note ok' = config_ok_perm [OF m ok] and s = mset_eq_setD [OF m]
  show ?thesis
  proof (cases "is_ok (Resolve u (Some c) fqdn)")
    case True
    then obtain cr a where r: "Resolve u (Some c) fqdn = Inr (cr, a)"
      by (auto simp: is_ok_iff)
    then have "Resolve u (Some c') fqdn = Inr (cr, a)"
      unfolding Resolve_Inr_valid [OF ok] Resolve_Inr_valid [OF ok'] most_specific_def s .
    with r show ?thesis by simp
  next
    case False
    then have "\<not> is_ok (Resolve u (Some c') fqdn)"
      unfolding Resolve_ok_iff s .
    then show ?thesis
      using Resolve_walk_error [OF False] Resolve_walk_error [of u c' fqdn]
        formatConfiguredZones_perm [OF m] by metis
  qed
qed

section \<open>How many zones can match\<close>

text \<open>
  \<open>registrable_only\<close>: every zone has at least two labels and is not itself one of the
  multi-part public suffixes. The validation does not ask for it.
\<close>

definition registrable_only :: "Credential list \<Rightarrow> bool" where
  "registrable_only cs \<longleftrightarrow>
     list_all (\<lambda>c. list_all (\<lambda>z. 2 \<le> length (Split1 z (CHR ''.'')) \<and>
       CHR ''.'' # map ascii_lower z \<notin> set multiPartPublicSuffixes) (cred_Zones c)) cs"

lemma length_Split1_lower: "length (Split1 (map ascii_lower z) (CHR ''.'')) = length (Split1 z (CHR ''.''))"
  by (simp add: Split1_map)

lemma under_zone_ok:
  assumes "zone_ok z" and "under a (map ascii_lower z)" and "a \<noteq> map ascii_lower z"
    and "2 \<le> length (Split1 a (CHR ''.''))"
  shows "CHR ''.'' # a \<in> set multiPartPublicSuffixes"
proof -
  let ?b = "map ascii_lower z"
  obtain p where p: "?b = p @ ''.'' @ a"
    using assms(2,3) by (auto simp: under_def)
  have "length (Split1 ?b (CHR ''.'')) = length (Split1 a (CHR ''.'')) + 1 + count_list p (CHR ''.'')"
    unfolding length_Split1 p by simp
  with assms(1,4) have three: "length (Split1 ?b (CHR ''.'')) = 3" "length (Split1 a (CHR ''.'')) = 2"
    and mem: "CHR ''.'' # Join (tl (Split1 ?b (CHR ''.''))) ''.'' \<in> set multiPartPublicSuffixes"
    by (auto simp: zone_ok_def length_Split1_lower)
  with assms(2) under_tail_labels [OF three] show ?thesis by simp
qed

lemma one_zone_above:
  assumes ok: "config_ok u cs" and reg: "registrable_only cs"
    and c1: "c1 \<in> set cs" "z1 \<in> set (cred_Zones c1)" "under (ToLower u z1) n"
    and c2: "c2 \<in> set cs" "z2 \<in> set (cred_Zones c2)" "under (ToLower u z2) n"
    and len: "length z1 \<le> length z2"
  shows "ToLower u z1 = ToLower u z2"
proof (rule ccontr)
  have zok: "zone_ok z1" "zone_ok z2"
    using config_ok_zone [OF ok] c1 c2 by auto
  then have low: "ToLower u z1 = map ascii_lower z1" "ToLower u z2 = map ascii_lower z2"
    by (auto dest: zone_ok_ascii)
  assume "ToLower u z1 \<noteq> ToLower u z2"
  moreover have "under (map ascii_lower z1) (map ascii_lower z2)"
    using under_linear [of "map ascii_lower z1" n "map ascii_lower z2"] c1(3) c2(3) len
    unfolding low by simp
  moreover have "2 \<le> length (Split1 (map ascii_lower z1) (CHR ''.''))"
    using reg c1 by (auto simp: registrable_only_def list_all_iff length_Split1_lower)
  ultimately have "CHR ''.'' # map ascii_lower z1 \<in> set multiPartPublicSuffixes"
    using under_zone_ok [OF zok(2)] low by simp
  with reg c1 show False
    by (auto simp: registrable_only_def list_all_iff)
qed

section \<open>Shapes of the FQDN\<close>

lemma normaliseFQDN_ascii:
  assumes "ascii f"
  shows "normaliseFQDN u f = TrimPrefix (TrimSuffix (map ascii_lower (TrimSpace f)) ''.'') acmeChallengePrefix"
  using assms by (simp add: normaliseFQDN_def Let_def)

text \<open>A bare lower-case host name: the shape the solver compares with configured zones.\<close>

definition bare_name :: "string \<Rightarrow> bool" where
  "bare_name n \<longleftrightarrow> n \<noteq> [] \<and> ascii n \<and> map ascii_lower n = n \<and> no_outer_space n \<and>
     last n \<noteq> CHR ''.'' \<and> \<not> HasPrefix n acmeChallengePrefix"

lemma bare_no_suffix: "bare_name n \<Longrightarrow> TrimSuffix (p @ n) ''.'' = p @ n"
  by (rule TrimSuffix_id) (auto simp: HasSuffix_single bare_name_def)

lemma normalise_shape:
  assumes "bare_name n" and "p = [] \<or> p = acmeChallengePrefix" and "s = [] \<or> s = ''.''"
    and "ascii f" and "map ascii_lower f = p @ n @ s" and "no_outer_space f"
  shows "normaliseFQDN u f = n"
proof -
  have "normaliseFQDN u f = TrimPrefix (TrimSuffix (p @ n @ s) ''.'') acmeChallengePrefix"
    using assms(4-6) by (simp only: normaliseFQDN_ascii TrimSpace_id)
  also have "TrimSuffix (p @ n @ s) ''.'' = p @ n"
    using assms(3) bare_no_suffix [OF assms(1), of p] TrimSuffix_append [of "p @ n" "''.''"]
    by (elim disjE) (simp_all only: append_assoc append_Nil2)
  also have "TrimPrefix (p @ n) acmeChallengePrefix = n"
    using assms(2) TrimPrefix_id [of n acmeChallengePrefix] assms(1)
    by (elim disjE) (simp_all add: bare_name_def)
  finally show ?thesis .
qed

lemma Resolve_cong: "normaliseFQDN u f = normaliseFQDN u g \<Longrightarrow> Resolve u conf f = Resolve u conf g"
  by (simp only: Resolve_def)

lemma Resolve_shape:
  assumes "bare_name n" and "p = [] \<or> p = acmeChallengePrefix" and "s = [] \<or> s = ''.''"
    and "ascii f" and "map ascii_lower f = p @ n @ s" and "no_outer_space f"
  shows "Resolve u conf f = Resolve u conf n"
proof (rule Resolve_cong)
  have "normaliseFQDN u n = n"
    using assms(1) by (intro normalise_shape [of n "[]" "[]"]) (auto simp: bare_name_def)
  with normalise_shape [OF assms] show "normaliseFQDN u f = normaliseFQDN u n" by metis
qed

section \<open>Properties\<close>

text \<open>Concrete data for the closed instances below.\<close>

definition sample_unicode :: unicode where
  "sample_unicode = \<lparr>uc_lower = (\<lambda>r. r), uc_print = (\<lambda>r. False)\<rparr>"

definition project_a :: Credential where
  "project_a = \<lparr>cred_Name = ''project-a'', cred_Zones = [''example.com'', ''example.co.uk''],
     cred_APITokenSecretRef = ''cert-manager/token-a#token''\<rparr>"

definition project_b :: Credential where
  "project_b = \<lparr>cred_Name = ''project-b'', cred_Zones = [''Example.org''],
     cred_APITokenSecretRef = ''cert-manager/token-b#token''\<rparr>"

lemmas sample_defs = sample_unicode_def project_a_def project_b_def

lemmas [go_defs] = config_ok_def cred_ok_def zone_ok_def ldh_def zone_rune_ok_def
  TrimSpace_id no_outer_space_def IsSpace_def ascii_lower_def multiPartPublicSuffixes_def
  lower_zones_def acmeChallengePrefix_def HasPrefix_def HasSuffix_def char_of_def bit_Suc_0_iff

lemma sample_config_ok: "config_ok u [project_a, project_b]"
  by (simp add: sample_defs go_defs)

text \<open>The last credential in the list that names the zone.\<close>

definition last_owner :: "unicode \<Rightarrow> Credential list \<Rightarrow> string \<Rightarrow> Credential \<Rightarrow> bool" where
  "last_owner u cs n cr \<longleftrightarrow>
     (\<exists>i<length cs. cr = cs ! i \<and> n \<in> lower_zones u cr \<and>
        (\<forall>j<length cs. i < j \<longrightarrow> n \<notin> lower_zones u (cs ! j)))"

text \<open>
  C9: \<open>Resolve\<close> returns the credential \<open>cr\<close> with apex \<open>apex\<close> exactly when the
  normalised FQDN is not empty, equals \<open>apex\<close> or ends in it at a label boundary, no longer
  configured zone does, and \<open>cr\<close> is the last credential listing \<open>apex\<close> (compared in lower
  case).
\<close>

theorem resolve_correct:
  "Resolve u (Some c) fqdn = Inr (cr, apex) \<longleftrightarrow>
     normaliseFQDN u fqdn \<noteq> [] \<and> under apex (normaliseFQDN u fqdn) \<and>
     most_specific u (Credentials c) apex (normaliseFQDN u fqdn) \<and>
     last_owner u (Credentials c) apex cr"
  by (simp only: Resolve_Inr_iff last_owner_def)

text \<open>
  C24: routing fails closed: a resolution succeeds exactly when some configured zone is a
  label-boundary suffix of the normalised FQDN, and every failure is an \<open>ErrNoMatch\<close>.
\<close>

theorem resolve_fails_closed:
  "(is_ok (Resolve u (Some c) fqdn) \<longleftrightarrow>
      normaliseFQDN u fqdn \<noteq> [] \<and>
      (\<exists>cr\<in>set (Credentials c). \<exists>z\<in>set (cred_Zones cr). under (ToLower u z) (normaliseFQDN u fqdn))) \<and>
   (Resolve u conf fqdn' = Inl e \<longrightarrow> errors_Is e ErrNoMatch)"
  using Resolve_ok_iff Resolve_error by blast

theorem resolve_fails_closed_witness:
  "\<not> is_ok (Resolve sample_unicode (Some \<lparr>Credentials = [project_b]\<rparr>) ''notexample.org'') \<and>
   errors_Is (EWrap '''' (ESentinel ErrNoMatch) '': config is nil'') ErrNoMatch"
proof -
  have n: "normaliseFQDN sample_unicode ''notexample.org'' = ''notexample.org''"
    by (simp add: normaliseFQDN_ascii go_defs TrimPrefix_def TrimSuffix_def)
  have "\<not> under (ToLower sample_unicode ''Example.org'') ''notexample.org''"
    by (simp add: HasSuffix_dot [symmetric] go_defs)
  moreover have "Resolve sample_unicode None '''' = Inl (EWrap '''' (ESentinel ErrNoMatch) '': config is nil'')"
    by (simp add: Resolve_def)
  ultimately show ?thesis
    using resolve_fails_closed [of sample_unicode "\<lparr>Credentials = [project_b]\<rparr>" "''notexample.org''"
        None "''''" "EWrap '''' (ESentinel ErrNoMatch) '': config is nil''"]
    by (simp add: n project_b_def)
qed

text \<open>
  C16: the load-time validation accepts a configuration exactly when it is non-empty, every
  credential has a non-blank name, a non-blank secret reference and at least one zone, every
  zone is a well-formed registrable name (labels of letters, digits and hyphens, at most two
  of them, or three under a multi-part public suffix), names are distinct and lower-cased
  zones are distinct across all credentials.
\<close>

theorem validate_accepts_iff:
  "ValidateConfig u (Some c) = None \<longleftrightarrow>
     Credentials c \<noteq> [] \<and>
     list_all (\<lambda>cr. TrimSpace (cred_Name cr) \<noteq> [] \<and> TrimSpace (cred_APITokenSecretRef cr) \<noteq> [] \<and>
        cred_Zones cr \<noteq> [] \<and> list_all zone_ok (cred_Zones cr)) (Credentials c) \<and>
     distinct (map cred_Name (Credentials c)) \<and>
     distinct (map (ToLower u) (concat (map cred_Zones (Credentials c))))"
  unfolding ValidateConfig_iff config_ok_def cred_ok_def all_lower_zones_def ..

text \<open>
  C25: in an accepted configuration the order of the credentials is irrelevant: permuting
  them changes neither the routing decision nor the text of the error.
\<close>

theorem resolve_order_independent:
  assumes "ValidateConfig u (Some c) = None"
    and "mset (Credentials c) = mset (Credentials c')"
  shows "Resolve u (Some c) fqdn = Resolve u (Some c') fqdn"
  using assms by (simp add: ValidateConfig_iff Resolve_perm)

theorem resolve_order_independent_witness:
  "Resolve sample_unicode (Some \<lparr>Credentials = [project_a, project_b]\<rparr>) ''x.example.org.'' =
   Resolve sample_unicode (Some \<lparr>Credentials = [project_b, project_a]\<rparr>) ''x.example.org.''"
  by (rule resolve_order_independent) (simp_all add: ValidateConfig_iff sample_config_ok)

text \<open>
  C28: the shapes cert-manager and operators use are equivalent: upper case, the
  \<open>_acme-challenge.\<close> prefix and the trailing dot do not change the routing decision of a
  bare host name.
\<close>

theorem resolve_fqdn_shapes:
  assumes "bare_name n" and "p = [] \<or> p = acmeChallengePrefix" and "s = [] \<or> s = ''.''"
    and "ascii f" and "map ascii_lower f = p @ n @ s" and "no_outer_space f"
  shows "Resolve u conf f = Resolve u conf n"
  using assms by (rule Resolve_shape)

theorem resolve_fqdn_shapes_witness:
  "Resolve sample_unicode (Some \<lparr>Credentials = [project_b]\<rparr>) ''_acme-challenge.Foo.EXAMPLE.org.'' =
   Resolve sample_unicode (Some \<lparr>Credentials = [project_b]\<rparr>) ''foo.example.org''"
  by (rule resolve_fqdn_shapes [of _ acmeChallengePrefix "''.''"]) (simp_all add: bare_name_def go_defs)

text \<open>
  C29: when no configured zone is a single label or itself a multi-part public suffix, at
  most one zone of an accepted configuration matches any name, so the walk is a plain
  membership test.
\<close>

theorem at_most_one_zone:
  assumes "ValidateConfig u (Some c) = None" and "registrable_only (Credentials c)"
    and "c1 \<in> set (Credentials c)" "z1 \<in> set (cred_Zones c1)" "under (ToLower u z1) n"
    and "c2 \<in> set (Credentials c)" "z2 \<in> set (cred_Zones c2)" "under (ToLower u z2) n"
  shows "ToLower u z1 = ToLower u z2 \<and> c1 = c2"
proof -
  have ok: "config_ok u (Credentials c)"
    using assms(1) by (simp add: ValidateConfig_iff)
  have "ToLower u z1 = ToLower u z2"
    using one_zone_above [OF ok assms(2-8)] one_zone_above [OF ok assms(2) assms(6-8) assms(3-5)]
    by (metis linorder_le_cases)
  then show ?thesis
    using config_ok_owner [OF ok assms(3,6)] assms(4,7) unfolding lower_zones_def by blast
qed

theorem at_most_one_zone_witness:
  "ValidateConfig sample_unicode (Some \<lparr>Credentials = [project_a, project_b]\<rparr>) = None \<and>
   registrable_only [project_a, project_b] \<and>
   under (ToLower sample_unicode ''example.com'') ''www.example.com'' \<and>
   \<not> under (ToLower sample_unicode ''Example.org'') ''www.example.com'' \<and>
   \<not> under (ToLower sample_unicode ''example.co.uk'') ''www.example.com''"
proof -
  let ?c = "\<lparr>Credentials = [project_a, project_b]\<rparr>" and ?n = "''www.example.com''"
  have hyps: "ValidateConfig sample_unicode (Some ?c) = None" "registrable_only (Credentials ?c)"
      "under (ToLower sample_unicode ''example.com'') ?n"
    by (simp_all add: ValidateConfig_iff sample_config_ok registrable_only_def sample_defs go_defs HasSuffix_dot [symmetric])
  have "ToLower sample_unicode ''example.com'' \<noteq> ToLower sample_unicode ''Example.org''"
    "ToLower sample_unicode ''example.com'' \<noteq> ToLower sample_unicode ''example.co.uk''"
    by (simp_all add: sample_defs go_defs)
  moreover have "project_a \<in> set (Credentials ?c)" "project_b \<in> set (Credentials ?c)" "''example.com'' \<in> set (cred_Zones project_a)"
    "''Example.org'' \<in> set (cred_Zones project_b)" "''example.co.uk'' \<in> set (cred_Zones project_a)"
    by (simp_all add: sample_defs)
  ultimately show ?thesis using hyps at_most_one_zone [OF hyps(1,2) _ _ hyps(3)] by (metis routing_Config.select_convs(1))
qed

text \<open>
  C36: that proviso is not implied by the validation: a configuration listing both
  \<open>co.uk\<close> and \<open>example.co.uk\<close> under different credentials is accepted, both zones match
  the same FQDN, and the longer one wins. The package comment's claim of at most one match
  rests on the API refusing such zones, not on the check.
\<close>

theorem overlapping_zones_accepted:
  fixes u :: unicode
  defines "a \<equiv> \<lparr>cred_Name = ''a'', cred_Zones = [''co.uk''], cred_APITokenSecretRef = ''ns/a#token''\<rparr>"
    and "b \<equiv> \<lparr>cred_Name = ''b'', cred_Zones = [''example.co.uk''], cred_APITokenSecretRef = ''ns/b#token''\<rparr>"
  shows "ValidateConfig u (Some \<lparr>Credentials = [a, b]\<rparr>) = None \<and>
    under ''co.uk'' (normaliseFQDN u ''_acme-challenge.example.co.uk.'') \<and>
    under ''example.co.uk'' (normaliseFQDN u ''_acme-challenge.example.co.uk.'') \<and>
    Resolve u (Some \<lparr>Credentials = [a, b]\<rparr>) ''_acme-challenge.example.co.uk.'' = Inr (b, ''example.co.uk'')"
proof -
  have n: "normaliseFQDN u ''_acme-challenge.example.co.uk.'' = ''example.co.uk''"
    by (rule normalise_shape [of _ acmeChallengePrefix "''.''"]) (simp_all add: bare_name_def go_defs)
  have v: "config_ok u [a, b]"
    by (simp add: a_def b_def go_defs)
  have "Resolve u (Some \<lparr>Credentials = [a, b]\<rparr>) ''_acme-challenge.example.co.uk.'' = Inr (b, ''example.co.uk'')"
    using v by (simp add: Resolve_Inr_valid n most_specific_def)
       (auto simp: b_def go_defs dest: under_length)
  with v show ?thesis
    by (simp add: n ValidateConfig_iff HasSuffix_dot [symmetric] HasSuffix_def)
qed

end
