(* ===== verification/Client_Guarantees.thy ===== *)
theory Client_Guarantees
  imports Client_Correct Routing_Correct
begin

text \<open>
  What the API client promises its callers, stated over the definitions of \<open>Client\<close>: how
  often and what it sends, how long it waits, which errors it reports, and that the token
  appears in no log line. Each property with hypotheses is applied to a concrete client.
\<close>

section \<open>A sample environment\<close>

definition sample_lib :: golib where
  "sample_lib = \<lparr>lib_unicode = sample_unicode, json_SyntaxText = (\<lambda>_. ''syntax''),
     json_TypeText = (\<lambda>_ _. ''type''),
     time_UnmarshalJSON = (\<lambda>j. if j = JStr ''0001-01-01T00:00:00Z'' then Inr zero_time else Inl ''time''),
     http_ParseTime = (\<lambda>h. if h = ''Wed, 21 Oct 2026 07:28:00 GMT'' then Some 5000000000 else None),
     url_ParseError = (\<lambda>_. None)\<rparr>"

text \<open>A server that answers every request after a millisecond, or when its context ends, with
  the given status.\<close>

definition answering :: "int \<Rightarrow> unit transport" where
  "answering status cx rq t x =
     (Inr \<lparr>rs_StatusCode = status, rs_Header = [(''Retry-After'', ''7'')], rs_Body = [], rs_BodyErr = None\<rparr>,
      (case ctx_done cx of None \<Rightarrow> 1000000 | Some (t0, e) \<Rightarrow> nat (min 1000000 (max 0 (t0 - t)))), x)"

definition sample_client :: "int \<Rightarrow> unit Client" where
  "sample_client status = default_client (answering status) (\<lambda>_. True) slog_Default ''s3cret''"

definition sample_world :: "unit world" where
  "sample_world = \<lparr>now = 0, trace = [], ext = ()\<rparr>"

lemma answering_honours_ctx: "honours_ctx (answering status)"
  by (auto simp: honours_ctx_def answering_def split: option.splits)

lemma sample_client_New:
  "client_New (answering status) (\<lambda>_. True) (Some (StaticToken ''s3cret'')) [] = Inr (sample_client status)"
  by (simp add: sample_client_def client_New_default)

lemma sample_url [simp]: "url_ParseError sample_lib s = None"
  by (simp add: sample_lib_def)

section \<open>Construction\<close>

text \<open>
  C30: \<open>New\<close> fails exactly on a nil token source; otherwise, whatever options are given in
  whatever order, the client has positive timeouts and delays, a non-negative retry count, a
  base URL without a trailing slash and a user agent.
\<close>

theorem client_New_wellformed:
  assumes "\<forall>opt \<in> set opts. client_opt opt"
  shows "client_New http pick None opts = Inl (ENew ''hcloud: token source must not be nil'') \<and>
    (\<exists>c. client_New http pick (Some (StaticToken tok)) opts = Inr c \<and> client_inv c)"
  using client_New_ok(2) [OF _ assms, of http pick tok] by (auto simp: client_New_def)

theorem client_New_wellformed_witness:
  "\<exists>c. client_New (answering 200) (\<lambda>_. True) (Some (StaticToken ''t''))
     [WithBaseURL ''http://localhost//'', WithMaxRetries (- 1), WithUserAgent []] = Inr c \<and> client_inv c"
  using client_New_wellformed [of "[WithBaseURL ''http://localhost//'', WithMaxRetries (- 1), WithUserAgent []]"
      "answering 200" "\<lambda>_. True" "''t''"]
  by (simp add: client_opt.intros)

section \<open>The retry loop\<close>



text \<open>
  A call never outlasts the context it is given, however many attempts it makes: with a
  transport that honours contexts (as \<open>net/http\<close> documents) it returns no later than the
  deadline, or at once if that has passed.
\<close>

theorem call_respects_deadline:
  assumes "client_New http pick (Some (StaticToken tok)) opts = Inr c"
    and "\<forall>opt \<in> set opts. client_opt opt"
    and "url_ParseError lib (cl_baseURL c @ path) = None"
    and "honours_ctx (cl_httpClient c)"
    and "client_do lib c cx meth path body out zero w = (r, w')"
  shows "now w \<le> now w' \<and> (\<forall>t0 e. ctx_done cx = Some (t0, e) \<longrightarrow> now w' \<le> max (now w) t0)"
proof -
  have "0 \<le> cl_maxRetries c" using client_New_ok(2) [OF assms(1,2)] by (simp add: client_inv_def)
  with client_env.do_loop_outcome [OF client_New_ok(1) [OF assms(1,2)] assms(3) assms(5) [unfolded client_do_def]]
    assms(4)
  have "now w \<le> now w' \<and> by_deadline cx w (now w')" by auto
  then show ?thesis by (auto simp: by_deadline_def)
qed

theorem call_respects_deadline_witness:
  "now (snd (client_do sample_lib (sample_client 503) \<lparr>ctx_done = Some (5, Canceled)\<rparr> ''GET'' ''/v1/zones'' None
      None () sample_world)) \<le> 5"
  using call_respects_deadline [OF sample_client_New, of sample_lib 503 "''/v1/zones''"
      "\<lparr>ctx_done = Some (5, Canceled)\<rparr>" "''GET''" None None "()" sample_world]
    answering_honours_ctx [of 503]
  by (simp add: sample_client_def default_client_def sample_world_def prod_eq_iff)

section \<open>Waiting\<close>

text \<open>
  C22: the exact backoff, for every client \<open>New\<close> can build whose first delay and ceiling are below
  \<open>2 ^ 62\<close> ns (146 years). The 64-bit doubling loop does not wrap around: the first retry waits the
  initial delay, whatever the ceiling, and retry \<open>n\<close> after it \<open>min (initial * 2 ^ (n - 1)) max\<close>; a
  positive \<open>Retry-After\<close> of the last error replaces either, capped by the ceiling; and the delay is
  always positive.
\<close>

theorem backoff_exact:
  assumes "client_inv c" and "sint (cl_initialBackoff c) < 2 ^ 62" and "sint (cl_maxBackoff c) < 2 ^ 62"
  shows "sint (backoffDelay c attempt lastErr) =
      (if 0 < retry_after lastErr then min (retry_after lastErr) (sint (cl_maxBackoff c))
       else if attempt \<le> 1 then sint (cl_initialBackoff c)
       else min (sint (cl_initialBackoff c) * 2 ^ nat (attempt - 1)) (sint (cl_maxBackoff c))) \<and>
    0 < sint (backoffDelay c attempt lastErr)"
proof -
  have pos: "0 < sint (cl_initialBackoff c)" "0 < sint (cl_maxBackoff c)"
    using assms(1) by (simp_all add: client_inv_def)
  from backoffDelay_general [OF pos(1) assms(2) pos(2) assms(3), of attempt lastErr] pos show ?thesis by simp
qed

theorem backoff_exact_witness:
  "sint (backoffDelay (sample_client 503) 40 None) = 30000000000 \<and>
   sint (backoffDelay (sample_client 503) 3 None) = 2000000000 \<and>
   sint (backoffDelay (WithBackoff (60 * second) (10 * second) (sample_client 503)) 1 None) = 60000000000 \<and>
   sint (backoffDelay (WithBackoff (60 * second) (10 * second) (sample_client 503)) 2 None) = 10000000000"
proof -
  let ?c = "WithBackoff (60 * second) (10 * second) (sample_client 503)"
  have inv: "client_inv (sample_client 503)" unfolding sample_client_def by (rule default_client_inv)
  moreover have "client_inv ?c" by (rule client_opt_inv) (simp_all add: client_opt.intros inv)
  ultimately show ?thesis
    using backoff_exact [of "sample_client 503" 40 None] backoff_exact [of "sample_client 503" 3 None]
      backoff_exact [of ?c 1 None] backoff_exact [of ?c 2 None]
    by (simp add: WithBackoff_def sample_client_def default_client_def client_default_defs retry_after_def)
qed

text \<open>
  A client with the default options, failing without \<open>Retry-After\<close>, sleeps 0.5, 1, 2, 4, 8
  and 16 seconds, in this order, 31.5 seconds in all; whatever the server asks for, its sleeps
  never exceed 30 seconds each.
\<close>

theorem default_schedule:
  assumes "length es \<le> 6"
  shows "(\<forall>d \<in> set (backoff_schedule (default_client http pick lg tok) 1 es).
            0 < sint d \<and> sint d \<le> 30000000000) \<and>
    ((\<forall>e \<in> set es. retry_after (Some e) = 0) \<longrightarrow>
       map sint (backoff_schedule (default_client http pick lg tok) 1 es) =
         take (length es) [500000000, 1000000000, 2000000000, 4000000000, 8000000000, 16000000000])"
proof (intro conjI impI)
  let ?c = "default_client http pick lg tok"
  show "\<forall>d \<in> set (backoff_schedule ?c 1 es). 0 < sint d \<and> sint d \<le> 30000000000"
    using backoff_schedule_bounds [OF default_client_sane [of http pick lg tok]]
    by (fastforce simp: default_client_def client_default_defs)
  assume ra: "\<forall>e \<in> set es. retry_after (Some e) = 0"
  let ?f = "\<lambda>i. min (500000000 * 2 ^ i) 30000000000 :: int"
  have "sint (backoff_schedule ?c 1 es ! i) = ?f i" if "i < length es" for i
    using that ra backoffDelay_exact [OF default_client_sane [of http pick lg tok], of "1 + int i" "Some (es ! i)"]
    by (simp add: backoff_schedule_nth default_client_def client_default_defs)
  then have "map sint (backoff_schedule ?c 1 es) = map ?f [0..<length es]"
    by (intro nth_equalityI) simp_all
  also have "\<dots> = take (length es) (map ?f [0..<6])"
    using assms by (simp add: take_map)
  also have "map ?f [0..<6] = [500000000, 1000000000, 2000000000, 4000000000, 8000000000, 16000000000]"
    by (simp add: upt_rec)
  finally show "map sint (backoff_schedule ?c 1 es) =
      take (length es) [500000000, 1000000000, 2000000000, 4000000000, 8000000000, 16000000000]" .
qed

theorem default_schedule_witness:
  "map sint (backoff_schedule (sample_client 503) 1 [EAPI \<lparr>StatusCode = 503, Code = [], Message = [], RetryAfter = 0\<rparr>,
     EAPI \<lparr>StatusCode = 500, Code = [], Message = [], RetryAfter = 0\<rparr>]) = [500000000, 1000000000]"
  using default_schedule [of "[EAPI \<lparr>StatusCode = 503, Code = [], Message = [], RetryAfter = 0\<rparr>,
     EAPI \<lparr>StatusCode = 500, Code = [], Message = [], RetryAfter = 0\<rparr>]" "answering 503" "\<lambda>_. True"
     slog_Default "''s3cret''"]
  by (simp add: sample_client_def retry_after_def)

section \<open>Errors\<close>

lemma errors_Is_wraps [simp]: "errors_Is (foldr (\<lambda>p e. EWrap p e []) ps err) t = errors_Is err t"
  by (induction ps) simp_all

lemma errors_As_wraps [simp]: "errors_As (foldr (\<lambda>p e. EWrap p e []) ps err) = errors_As err"
  by (induction ps) simp_all

text \<open>
  C27: the classification of API errors survives any number of wrappings: the sentinels
  correspond to the status codes of the answer, at most one of them matches, and an error
  is retryable exactly when the answer was 429, 5xx, or no answer arrived (status 0).
\<close>

theorem api_error_classified:
  "let err = foldr (\<lambda>p e. EWrap p e []) ps (EAPI (parseAPIError lib resp body t)) in
    (errors_Is err ErrInvalidToken \<longleftrightarrow> rs_StatusCode resp = 401) \<and>
    (errors_Is err ErrForbidden \<longleftrightarrow> rs_StatusCode resp = 403) \<and>
    (errors_Is err ErrNotFound \<longleftrightarrow> rs_StatusCode resp = 404) \<and>
    (errors_Is err ErrConflict \<longleftrightarrow> rs_StatusCode resp = 409) \<and>
    (errors_Is err ErrInvalidZoneName \<longleftrightarrow> rs_StatusCode resp = 422) \<and>
    (errors_Is err ErrRateLimited \<longleftrightarrow> rs_StatusCode resp = 429) \<and>
    (errors_Is err ErrServer \<longleftrightarrow> rs_StatusCode resp \<in> {500..<600}) \<and>
    (isRetryable err \<longleftrightarrow> rs_StatusCode resp \<in> {0, 429} \<union> {500..<600}) \<and>
    Uniq (errors_Is err)"
proof -
  have "Uniq (errors_Is e)" for e
    using errors_Is_unique by (auto simp: Uniq_def)
  moreover have "isRetryable (foldr (\<lambda>p e. EWrap p e []) ps (EAPI (parseAPIError lib resp body t))) \<longleftrightarrow>
      rs_StatusCode resp \<in> {0, 429} \<union> {500..<600}"
    by (auto simp: isRetryable_def)
  ultimately show ?thesis unfolding Let_def by (simp add: APIError_Is_def del: Un_iff insert_iff)
qed

section \<open>Requests\<close>

text \<open>
  C26: the path of a record set splits into exactly the seven segments it was built from,
  whatever bytes the record name holds (slashes and percent signs included), the escaped
  segments decode to the name and type, and different record sets have different paths.
\<close>

theorem rrset_path_faithful:
  "Split1 (rrset_path i n t) (CHR ''/'') =
     ['''', ''v1'', ''zones'', Itoa (sint i), ''rrsets'', PathEscape n, PathEscape t] \<and>
   PathUnescape (PathEscape n) = Some n \<and> PathUnescape (PathEscape t) = Some t \<and>
   Atoi (Itoa (sint i)) = Some (sint i) \<and>
   (rrset_path i n t = rrset_path j m s \<longleftrightarrow> i = j \<and> n = m \<and> t = s)"
  using rrset_path_inj [of i n t j m s]
  by (auto simp: rrset_path_Split PathUnescape_PathEscape Atoi_Itoa [OF sint_in_int64])

text \<open>
  C11: the token is confidential. Run the same call with two different tokens against servers
  that treat them alike: results, timing and outside world are equal, and so are the traces,
  log lines and all, up to the \<open>Authorization\<close> header of the requests.
\<close>

theorem token_noninterference:
  assumes "cl_token c = StaticToken tok" and "cl_clock c = realClock pick" and "same_but_token w1 w2"
  shows "fst (client_do lib c cx meth path body out zero w1) =
         fst (client_do lib (other_token tok tok' c) cx meth path body out zero w2) \<and>
         same_but_token (snd (client_do lib c cx meth path body out zero w1))
           (snd (client_do lib (other_token tok tok' c) cx meth path body out zero w2))"
  unfolding client_do_def by (rule do_loop_other_token [OF assms])

theorem token_noninterference_witness:
  "fst (client_do sample_lib (sample_client 429) Background ''DELETE'' ''/v1/zones/1'' None None () sample_world) =
   fst (client_do sample_lib (other_token ''s3cret'' ''other'' (sample_client 429)) Background
     ''DELETE'' ''/v1/zones/1'' None None () sample_world)"
  by (rule conjunct1 [OF token_noninterference])
    (simp_all add: sample_client_def default_client_def same_but_token_def)

section \<open>Limits of the implementation\<close>

text \<open>
  C38: a \<open>Retry-After\<close> in seconds is multiplied in 64 bits without a check. For every number below
  \<open>2 ^ 63\<close> the result is the product in two's complement; it is the delay the server asked for
  exactly up to 9223372036 seconds, and for no number beyond (18446744074 seconds, 584 years, become
  0.29 seconds). From \<open>2 ^ 63\<close> on the number does not parse and, not being a date, is ignored.
\<close>

theorem retry_after_wraps:
  "(if n < 2 ^ 63
    then sint (parseRetryAfter lib (dec n) t0) = wrap64 (int n * 1000000000) \<and>
      (sint (parseRetryAfter lib (dec n) t0) = int n * 1000000000 \<longleftrightarrow> n \<le> 9223372036)
    else http_ParseTime lib (dec n) = None \<longrightarrow> parseRetryAfter lib (dec n) t0 = 0)"
proof (cases "n < 2 ^ 63")
  case True
  have "wrap64 (int n * 1000000000) = int n * 1000000000 \<longleftrightarrow> n \<le> 9223372036"
    unfolding wrap64_id in_int64_def by auto
  with True sint_seconds_wrap [of "int n"] show ?thesis by (simp add: parseRetryAfter_seconds)
qed (simp add: parseRetryAfter_huge)

theorem retry_after_wraps_witness:
  "sint (parseRetryAfter sample_lib (dec 120) 0) = 120000000000 \<and>
   sint (parseRetryAfter sample_lib (dec 18446744074) 0) = 290448384 \<and>
   parseRetryAfter sample_lib (dec 9223372036854775808) 0 = 0"
proof (intro conjI)
  show "sint (parseRetryAfter sample_lib (dec 120) 0) = 120000000000"
    using retry_after_wraps [of 120 sample_lib 0] by simp
  show "sint (parseRetryAfter sample_lib (dec 18446744074) 0) = 290448384"
    using retry_after_wraps [of 18446744074 sample_lib 0] by (simp add: wrap64_def)
  have "dec 9223372036854775808 \<noteq> ''Wed, 21 Oct 2026 07:28:00 GMT''"
    using dec_digits [of 9223372036854775808] by (auto simp: is_digit_def)
  then show "parseRetryAfter sample_lib (dec 9223372036854775808) 0 = 0"
    using retry_after_wraps [of 9223372036854775808 sample_lib 0] by (simp add: sample_lib_def)
qed

text \<open>
  The ceiling does not apply to the first retry when the options set a first delay above
  it: \<open>WithBackoff\<close> accepts 60 and 10 seconds, and the client then sleeps 60 seconds.
\<close>

theorem first_delay_not_capped:
  "\<exists>c. client_New http pick (Some (StaticToken tok)) [WithBackoff (60 * second) (10 * second)] = Inr c \<and>
    sint (cl_maxBackoff c) < sint (backoffDelay c 1 None)"
  by (simp add: client_New_def WithBackoff_def backoffDelay_def second_def)

end
