(* ===== verification/Json_Correct.thy ===== *)
theory Json_Correct
  imports Wire
begin

text \<open>
  The JSON printer and the JSON parser agree: a value whose strings are ASCII and whose numbers
  are decimal integers, printed as \<open>json.Marshal\<close> does and followed by anything that may
  follow a value, is parsed to itself. The fuel of the parser is shown to be enough for it.
\<close>

section \<open>Strings\<close>

lemma unhex_hexdigit: "d < 16 \<Longrightarrow> unhex (hexdigit d) = Some d"
  by (auto simp: unhex_def hexdigit_def of_char_of)

lemma byte_specials [simp]: "byte dquote = 34" "byte backslash = 92"
  by (simp_all add: dquote_def backslash_def of_char_of)

lemma getu4_hex: "r < 256 \<Longrightarrow> getu4 (CHR ''0'' # CHR ''0'' # hexdigit (r div 16) # hexdigit (r mod 16) # t) = Some r"
proof -
  assume "r < 256"
  then have "r div 16 < 16" by (simp add: less_mult_imp_div_less)
  moreover have "unhex (CHR ''0'') = Some 0" by (simp add: unhex_def)
  ultimately show ?thesis by (simp add: unhex_hexdigit)
qed

lemma hex_2: "r < 256 \<Longrightarrow> hex 2 r = [hexdigit (r div 16), hexdigit (r mod 16)]"
  by (simp add: numeral_2_eq_2 less_mult_imp_div_less)

declare parse_string.simps [simp del]

lemma parse_string_simple:
  "simple_escape e = Some x \<Longrightarrow>
     parse_string (backslash # e # t) = map_option (\<lambda>(s, r). (x # s, r)) (parse_string t)"
  by (subst parse_string.simps) (simp add: backslash_def dquote_def)

lemma parse_string_u00:
  assumes "r < 128"
  shows "parse_string (backslash # CHR ''u'' # CHR ''0'' # CHR ''0'' # hexdigit (r div 16) # hexdigit (r mod 16) # t) =
    map_option (\<lambda>(s, r'). (chr r # s, r')) (parse_string t)"
proof -
  have "simple_escape (CHR ''u'') = None"
    by (simp add: simple_escape_def dquote_def backslash_def char_of_def bit_Suc_0_iff)
  then show ?thesis
    using assms getu4_hex [of r t]
    by (subst parse_string.simps) (simp add: is_surrogate_def EncodeRune_def dquote_def backslash_def)
qed

lemma parse_string_plain:
  assumes "32 \<le> byte c" and "byte c < 128" and "c \<noteq> dquote" and "c \<noteq> backslash"
  shows "parse_string (c # t) = map_option (\<lambda>(s, r). (c # s, r)) (parse_string t)"
  using assms by (subst parse_string.simps) simp

lemma simple_escape_letters [simp]:
  "simple_escape (CHR ''b'') = Some (chr 8)" "simple_escape (CHR ''f'') = Some (chr 12)"
  "simple_escape (CHR ''n'') = Some (chr 10)" "simple_escape (CHR ''r'') = Some (chr 13)"
  "simple_escape (CHR ''t'') = Some (chr 9)"
  by (simp_all add: simple_escape_def dquote_def backslash_def char_of_def bit_Suc_0_iff)

lemma parse_string_escape:
  assumes "byte c < 128"
  shows "parse_string (json_escape (byte c) @ t) = map_option (\<lambda>(s, r). (c # s, r)) (parse_string t)"
proof -
  have special: "byte c = n \<Longrightarrow> c = chr n" for n by (metis char_of_char)
  consider "byte c = 34 \<or> byte c = 92" | "byte c \<in> {8, 12, 10, 13, 9}"
    | "byte c < 32 \<or> byte c = 60 \<or> byte c = 62 \<or> byte c = 38" "byte c \<notin> {8, 12, 10, 13, 9}"
    | "32 \<le> byte c" "byte c \<noteq> 34" "byte c \<noteq> 92" "byte c \<notin> {60, 62, 38}"
    by (cases "byte c < 32") auto
  then show ?thesis
  proof cases
    case 1
    then have "simple_escape c = Some c"
      using special [of 34] special [of 92] by (auto simp: simple_escape_def dquote_def backslash_def)
    with 1 show ?thesis by (simp add: json_escape_def parse_string_simple)
  next
    case 2
    then have "c \<in> chr ` {8, 12, 10, 13, 9}" using special by (metis imageI)
    then show ?thesis
      by (auto simp: json_escape_def parse_string_simple of_char_of)
  next
    case 3
    then have "json_escape (byte c) = backslash # ''u00'' @ hex 2 (byte c)"
      by (auto simp: json_escape_def)
    then show ?thesis
      using parse_string_u00 [OF assms, of t] hex_2 [of "byte c"] assms by simp
  next
    case 4
    then have "json_escape (byte c) = [c]"
      using assms by (auto simp: json_escape_def EncodeRune_def)
    moreover have "c \<noteq> dquote" "c \<noteq> backslash" using 4(2,3) by auto
    ultimately show ?thesis using 4(1) assms by (simp add: parse_string_plain)
  qed
qed

lemma parse_string_body:
  "ascii s \<Longrightarrow> parse_string (json_string_body s @ dquote # t) = Some (s, t)"
proof (induction s)
  case Nil
  show ?case by (simp add: parse_string.simps)
next
  case (Cons c s)
  then have c: "byte c < 128" and s: "ascii s" by (auto simp: ascii_def)
  then have "json_string_body (c # s) = json_escape (byte c) @ json_string_body s"
    by (simp add: RuneError_def)
  with Cons.IH [OF s] parse_string_escape [OF c] show ?case by simp
qed

section \<open>Numbers\<close>

text \<open>What may follow a value: the end of the text, a separator, a closing bracket, or white space.\<close>

definition stops :: "string \<Rightarrow> bool" where
  "stops t \<longleftrightarrow> t = [] \<or> hd t \<in> {CHR '','', CHR '']'', CHR ''}'', chr 10}"

lemma stops_Cons [simp]:
  "stops (CHR '','' # t)" "stops (CHR '']'' # t)" "stops (CHR ''}'' # t)" "stops []" "stops [chr 10]"
  by (simp_all add: stops_def)

lemma stops_digits: "stops t \<Longrightarrow> takeWhile is_digit t = [] \<and> dropWhile is_digit t = t"
  by (cases t) (auto simp: stops_def is_digit_def of_char_of)

lemma stops_frac: "stops t \<Longrightarrow> parse_frac t = Some ([], t)"
  by (cases t) (auto simp: stops_def parse_frac_def char_of_def bit_Suc_0_iff)

lemma stops_exp: "stops t \<Longrightarrow> parse_exp t = Some ([], t)"
  by (cases t) (auto simp: stops_def parse_exp_def char_of_def bit_Suc_0_iff)

lemma hd_dec_zero: "hd (dec n) = CHR ''0'' \<Longrightarrow> n = 0"
proof (induction n rule: dec.induct)
  case (1 n)
  show ?case
  proof (cases "n < 10")
    case True
    then have "byte (hd (dec n)) = 48 + n" by (simp add: dec.simps [of n])
    with 1(2) show ?thesis by simp
  next
    case False
    then have "hd (dec n) = hd (dec (n div 10))" by (simp add: dec.simps [of n])
    with 1 False have "n div 10 = 0" by metis
    with False show ?thesis by simp
  qed
qed

lemma dec_0: "dec 0 = ''0''"
  by (simp add: dec.simps [of 0] digit_def char_of_def bit_Suc_0_iff)

lemma parse_int_part_dec:
  assumes "stops t"
  shows "parse_int_part (dec n @ t) = Some (dec n, t)"
proof (cases "n = 0")
  case True
  then show ?thesis by (simp add: dec_0 parse_int_part_def)
next
  case False
  obtain c cs where d: "dec n = c # cs" by (cases "dec n") auto
  with False hd_dec_zero [of n] have "c \<noteq> CHR ''0''" by auto
  moreover have "is_digit c" "\<forall>x \<in> set cs. is_digit x" using dec_digits [of n] d by (auto simp: list_all_iff)
  ultimately show ?thesis
    using d stops_digits [OF assms] by (simp add: parse_int_part_def takeWhile_append dropWhile_append)
qed

lemma parse_number_Itoa:
  assumes "stops t"
  shows "parse_number (Itoa i @ t) = Some (Itoa i, t)"
proof (cases "i < 0")
  case True
  then show ?thesis
    using parse_int_part_dec [OF assms, of "nat (- i)"] stops_frac [OF assms] stops_exp [OF assms]
    by (simp add: parse_number_def Itoa_def HasPrefix_iff Let_def)
next
  case False
  have "\<not> HasPrefix (dec (nat i) @ t) ''-''"
    using dec_no_sign(1) [of "nat i"] by (cases "dec (nat i)") (auto simp: HasPrefix_iff dec_nonempty)
  with False show ?thesis
    using parse_int_part_dec [OF assms, of "nat i"] stops_frac [OF assms] stops_exp [OF assms]
    by (simp add: parse_number_def Itoa_def Let_def)
qed

section \<open>Values\<close>

text \<open>The values the round trip is about, their nesting, and the fuel their parse takes.\<close>

fun json_plain :: "json \<Rightarrow> bool" where
  "json_plain (JNum n) \<longleftrightarrow> (\<exists>i. n = Itoa i)"
| "json_plain (JStr s) \<longleftrightarrow> ascii s"
| "json_plain (JArr vs) \<longleftrightarrow> list_all json_plain vs"
| "json_plain (JObj ms) \<longleftrightarrow> list_all (\<lambda>(k, v). ascii k \<and> json_plain v) ms"
| "json_plain _ \<longleftrightarrow> True"

fun json_depth :: "json \<Rightarrow> nat" where
  "json_depth (JArr vs) = Suc (foldr max (map json_depth vs) 0)"
| "json_depth (JObj ms) = Suc (foldr max (map (json_depth \<circ> snd) ms) 0)"
| "json_depth _ = 0"

lemma foldr_max: "(x :: nat) \<in> set xs \<Longrightarrow> x \<le> foldr max xs 0"
  by (induction xs) auto

lemma skip_ws_Cons: "\<not> json_ws c \<Longrightarrow> skip_ws (c # cs) = c # cs"
  by (simp add: skip_ws_def)

lemma expect_hit: "\<not> json_ws c \<Longrightarrow> expect c (c # t) = Some t"
  by (simp add: expect_def skip_ws_Cons)

lemma expect_miss: "\<not> json_ws x \<Longrightarrow> x \<noteq> c \<Longrightarrow> expect c (x # t) = None"
  by (simp add: expect_def skip_ws_Cons)

lemma json_ws_punct [simp]:
  "\<not> json_ws dquote" "\<not> json_ws (CHR '':'')" "\<not> json_ws (CHR '','')" "\<not> json_ws (CHR '']'')"
  "\<not> json_ws (CHR ''}'')" "\<not> json_ws (CHR ''['')" "\<not> json_ws (CHR ''{'')"
  by (simp_all add: json_ws_def dquote_def of_char_of)

lemma dquote_neq [simp]:
  "dquote \<noteq> CHR ''['' " "dquote \<noteq> CHR ''{''" "dquote \<noteq> CHR '']''" "dquote \<noteq> CHR ''}''" "dquote \<noteq> CHR '',''"
  by (auto dest!: arg_cong [of _ _ byte])

text \<open>The first byte of a printed value.\<close>

definition value_start :: "char \<Rightarrow> bool" where
  "value_start c \<longleftrightarrow> \<not> json_ws c \<and> c \<noteq> CHR '']'' \<and> c \<noteq> CHR ''}''"

lemma Itoa_start:
  obtains c cs where "Itoa i = c # cs" and "c = CHR ''-'' \<or> is_digit c"
proof (cases "i < 0")
  case True
  then show ?thesis by (intro that) (auto simp: Itoa_def)
next
  case False
  obtain c cs where "dec (nat i) = c # cs" by (cases "dec (nat i)") auto
  with False hd_dec_digit [of "nat i"] show ?thesis by (intro that) (auto simp: Itoa_def)
qed

lemma Itoa_nonempty [simp]: "Itoa i \<noteq> []"
  by (rule Itoa_start [of i]) simp

lemma json_print_start: "json_plain j \<Longrightarrow> \<exists>c cs. json_print j = c # cs \<and> value_start c"
proof (cases j)
  case (JNum n)
  assume "json_plain j"
  then obtain i where i: "n = Itoa i" using JNum by auto
  obtain c cs where c: "Itoa i = c # cs" "c = CHR ''-'' \<or> is_digit c" by (rule Itoa_start)
  then have "value_start c" by (auto simp: value_start_def json_ws_def is_digit_def)
  with JNum i c show ?thesis by simp
qed (auto simp: value_start_def json_string_def json_ws_def)

lemma parse_value_number:
  assumes "stops t"
  shows "parse_value (Suc k) d (Itoa i @ t) = Some (JNum (Itoa i), t)"
proof -
  obtain c cs where c: "Itoa i = c # cs" "c = CHR ''-'' \<or> is_digit c" by (rule Itoa_start)
  then have "c \<noteq> dquote" "c \<noteq> CHR ''[''" "c \<noteq> CHR ''{''" "c \<noteq> CHR ''n''" "c \<noteq> CHR ''t''" "c \<noteq> CHR ''f''"
    "\<not> json_ws c"
    by (auto simp: is_digit_def json_ws_def dest!: arg_cong [of _ _ byte])
  with c parse_number_Itoa [OF assms, of i] show ?thesis
    by (simp add: skip_ws_Cons HasPrefix_iff)
qed

lemma json_string_parse:
  "ascii s \<Longrightarrow> Option.bind (expect dquote (json_string s @ t)) parse_string = Some (s, t)"
  by (simp add: json_string_def expect_hit parse_string_body)

text \<open>Nesting allowed for every member of a list inside \<open>d\<close> open brackets.\<close>

definition room :: "nat \<Rightarrow> json \<Rightarrow> bool" where
  "room d j \<longleftrightarrow> d + json_depth j \<le> maxNestingDepth"

lemma room_JArr: "room d (JArr vs) \<Longrightarrow> d < maxNestingDepth \<and> list_all (room (Suc d)) vs"
  using foldr_max [of _ "map json_depth vs"] by (fastforce simp: room_def list_all_iff)

lemma room_JObj: "room d (JObj ms) \<Longrightarrow> d < maxNestingDepth \<and> list_all (\<lambda>(k, v). room (Suc d) v) ms"
  using foldr_max [of _ "map (json_depth \<circ> snd) ms"] by (fastforce simp: room_def list_all_iff)

lemma json_print_list_start:
  "vs \<noteq> [] \<Longrightarrow> list_all json_plain vs \<Longrightarrow> \<exists>c cs. json_print_list vs = c # cs \<and> value_start c"
  by (cases vs rule: json_print_list.cases) (auto dest: json_print_start)

lemma json_print_members_start: "ms \<noteq> [] \<Longrightarrow> \<exists>cs. json_print_members ms = dquote # cs"
  by (cases ms rule: json_print_members.cases) (auto simp: json_string_def)

lemma expect_close:
  "vs \<noteq> [] \<Longrightarrow> list_all json_plain vs \<Longrightarrow> expect (CHR '']'') (json_print_list vs @ t) = None"
  using json_print_list_start [of vs] by (auto simp: value_start_def expect_miss)

lemma expect_close_members: "ms \<noteq> [] \<Longrightarrow> expect (CHR ''}'') (json_print_members ms @ t) = None"
  using json_print_members_start [of ms] by (auto simp: expect_miss)

text \<open>One step of the parser on an opening bracket, an element and a member.\<close>

lemma parse_value_array:
  "d < maxNestingDepth \<Longrightarrow> parse_value (Suc k) d (CHR ''['' # s) =
     (case expect (CHR '']'') s of
        Some t \<Rightarrow> Some (JArr [], t)
      | None \<Rightarrow> map_option (\<lambda>(xs, t). (JArr xs, t)) (parse_elems k (Suc d) s))"
  by (auto simp: skip_ws_Cons dest!: arg_cong [of _ _ byte])

lemma parse_value_object:
  "d < maxNestingDepth \<Longrightarrow> parse_value (Suc k) d (CHR ''{'' # s) =
     (case expect (CHR ''}'') s of
        Some t \<Rightarrow> Some (JObj [], t)
      | None \<Rightarrow> map_option (\<lambda>(ms, t). (JObj ms, t)) (parse_members k (Suc d) s))"
  by (auto simp: skip_ws_Cons dest!: arg_cong [of _ _ byte])

lemma parse_elems_step:
  assumes "parse_value k d (s @ t) = Some (v, t)"
  shows "parse_elems (Suc k) d (s @ t) =
    (case expect (CHR '','') t of
       Some t' \<Rightarrow> map_option (\<lambda>(vs, r). (v # vs, r)) (parse_elems k d t')
     | None \<Rightarrow> map_option (\<lambda>r. ([v], r)) (expect (CHR '']'') t))"
  using assms by simp

lemma parse_members_step:
  assumes "ascii key" and "parse_value k d (s @ t) = Some (v, t)"
  shows "parse_members (Suc k) d (json_string key @ CHR '':'' # s @ t) =
    (case expect (CHR '','') t of
       Some t' \<Rightarrow> map_option (\<lambda>(ms, r). ((key, v) # ms, r)) (parse_members k d t')
     | None \<Rightarrow> map_option (\<lambda>r. ([(key, v)], r)) (expect (CHR ''}'') t))"
  using assms by (simp add: json_string_parse expect_hit)

declare parse_value.simps [simp del] parse_elems.simps [simp del] parse_members.simps [simp del]

lemma parse_print:
  "json_plain j \<Longrightarrow> room d j \<Longrightarrow> stops t \<Longrightarrow> 2 * length (json_print j) \<le> k \<Longrightarrow>
     parse_value k d (json_print j @ t) = Some (j, t)"
  "vs \<noteq> [] \<Longrightarrow> list_all json_plain vs \<Longrightarrow> list_all (room d) vs \<Longrightarrow> 2 * length (json_print_list vs) < k \<Longrightarrow>
     parse_elems k d (json_print_list vs @ CHR '']'' # t) = Some (vs, t)"
  "ms \<noteq> [] \<Longrightarrow> list_all (\<lambda>(k, v). ascii k \<and> json_plain v) ms \<Longrightarrow> list_all (\<lambda>(k, v). room d v) ms \<Longrightarrow>
     2 * length (json_print_members ms) < k \<Longrightarrow>
     parse_members k d (json_print_members ms @ CHR ''}'' # t) = Some (ms, t)"
proof (induction j and vs and ms arbitrary: d t k and d t k and d t k
    rule: json_print_json_print_list_json_print_members.induct)
  case 1
  then show ?case
    by (cases k) (auto simp: parse_value.simps skip_ws_Cons json_ws_def HasPrefix_iff dest!: arg_cong [of _ _ byte])
next
  case (2 b)
  then show ?case
    by (cases k; cases b)
      (auto simp: parse_value.simps skip_ws_Cons json_ws_def HasPrefix_iff dest!: arg_cong [of _ _ byte])
next
  case (3 n)
  then show ?case using parse_value_number [of t] by (cases k) (auto dest: sym)
next
  case (4 s)
  then show ?case by (cases k) (auto simp: parse_value.simps json_string_def skip_ws_Cons parse_string_body)
next
  case (5 vs)
  then obtain k' where k: "k = Suc k'" by (cases k) auto
  have "vs \<noteq> [] \<Longrightarrow> parse_elems k' (Suc d) (json_print_list vs @ CHR '']'' # t) = Some (vs, t)"
    using 5 k room_JArr [of d vs] by (intro "5.IH") auto
  then show ?case
    using 5 k room_JArr [of d vs]
    by (cases "vs = []") (auto simp: parse_value_array expect_hit expect_close)
next
  case (6 ms)
  then obtain k' where k: "k = Suc k'" by (cases k) auto
  have "ms \<noteq> [] \<Longrightarrow> parse_members k' (Suc d) (json_print_members ms @ CHR ''}'' # t) = Some (ms, t)"
    using 6 k room_JObj [of d ms] by (intro "6.IH") auto
  then show ?case
    using 6 k room_JObj [of d ms]
    by (cases "ms = []") (auto simp: parse_value_object expect_hit expect_close_members)
next
  case 7
  then show ?case by simp
next
  case (8 v)
  then obtain k' where k: "k = Suc k'" by (cases k) auto
  have "parse_value k' d (json_print v @ CHR '']'' # t) = Some (v, CHR '']'' # t)"
    using 8 k by (intro "8.IH") auto
  then show ?case using k by (simp add: parse_elems_step expect_hit expect_miss)
next
  case (9 v w vs)
  then obtain k' where k: "k = Suc k'" by (cases k) auto
  let ?t = "CHR '','' # json_print_list (w # vs) @ CHR '']'' # t"
  have "parse_value k' d (json_print v @ ?t) = Some (v, ?t)"
    using 9 k by (intro "9.IH") auto
  moreover have "parse_elems k' d (json_print_list (w # vs) @ CHR '']'' # t) = Some (w # vs, t)"
    using 9 k by (intro "9.IH") auto
  ultimately show ?case using k parse_elems_step [of k' d "json_print v" ?t v] by (simp add: expect_hit)
next
  case 10
  then show ?case by simp
next
  case (11 key v)
  then obtain k' where k: "k = Suc k'" by (cases k) auto
  have "parse_value k' d (json_print v @ CHR ''}'' # t) = Some (v, CHR ''}'' # t)"
    using 11 k by (intro "11.IH") auto
  then show ?case using 11 k by (simp add: parse_members_step expect_hit expect_miss)
next
  case (12 key v m ms)
  then obtain k' where k: "k = Suc k'" by (cases k) auto
  let ?t = "CHR '','' # json_print_members (m # ms) @ CHR ''}'' # t"
  have "parse_value k' d (json_print v @ ?t) = Some (v, ?t)"
    using 12 k by (intro "12.IH") auto
  moreover have "parse_members k' d (json_print_members (m # ms) @ CHR ''}'' # t) = Some (m # ms, t)"
    using 12 k by (intro "12.IH") auto
  ultimately show ?case
    using 12 k parse_members_step [of key k' d "json_print v" ?t v] by (simp add: expect_hit)
qed

lemma json_roundtrip:
  assumes "json_plain j" and "json_depth j \<le> maxNestingDepth" and "t = [] \<or> t = [chr 10]"
  shows "json_Parse lib (json_print j @ t) = Inr j"
proof -
  have "parse_value (2 * length (json_print j @ t) + 2) 0 (json_print j @ t) = Some (j, t)"
    using assms by (intro parse_print(1)) (auto simp: room_def)
  moreover have "skip_ws t = []"
    using assms(3) by (auto simp: skip_ws_def json_ws_def of_char_of)
  ultimately show ?thesis by (simp add: json_Parse_def)
qed

lemma json_roundtrip_plain:
  "json_plain j \<Longrightarrow> json_depth j \<le> maxNestingDepth \<Longrightarrow> json_Parse lib (json_print j) = Inr j"
  using json_roundtrip [of j "[]"] by simp

end
