(* ===== verification/Wire_Correct.thy ===== *)
theory Wire_Correct
  imports Json_Correct
begin

text \<open>
  Round trips of the request bodies of \<open>src/internal/hcloud/types.go\<close>: what the client marshals
  is what a server decoding the same struct types reads. The decoders of the two request types
  are those \<open>encoding/json\<close> derives from the struct tags.
\<close>

section \<open>Decoders of the request types\<close>

definition zero_CreateRRSetRequest :: CreateRRSetRequest where
  "zero_CreateRRSetRequest =
     \<lparr>crq_Name = [], crq_Type = [], crq_TTL = None, crq_Records = [], crq_Labels = []\<rparr>"

definition dec_CreateRRSetRequest :: "golib \<Rightarrow> CreateRRSetRequest decoder" where
  "dec_CreateRRSetRequest lib = dec_struct lib ''CreateRRSetRequest''
     [(''name'', dec_field crq_Name (\<lambda>x q. q\<lparr>crq_Name := x\<rparr>) (dec_string lib ''name'')),
      (''type'', dec_field crq_Type (\<lambda>x q. q\<lparr>crq_Type := x\<rparr>) (dec_string lib ''type'')),
      (''ttl'', dec_field crq_TTL (\<lambda>x q. q\<lparr>crq_TTL := x\<rparr>) (dec_int_ptr lib ''ttl'')),
      (''records'', dec_field crq_Records (\<lambda>x q. q\<lparr>crq_Records := x\<rparr>)
         (dec_slice lib ''records'' (dec_Record lib zero_Record))),
      (''labels'', dec_field crq_Labels (\<lambda>x q. q\<lparr>crq_Labels := x\<rparr>) (dec_string_map lib ''labels''))]"

definition dec_SetRRSetRecordsRequest :: "golib \<Rightarrow> SetRRSetRecordsRequest decoder" where
  "dec_SetRRSetRecordsRequest lib = dec_struct lib ''SetRRSetRecordsRequest''
     [(''records'', dec_field srq_Records (\<lambda>x q. q\<lparr>srq_Records := x\<rparr>)
         (dec_slice lib ''records'' (dec_Record lib zero_Record)))]"

section \<open>Decoding what was marshalled\<close>

lemma dec_Record_marshal: "dec_Record lib zero_Record (marshal_Record r) = Inr r"
  by (simp add: dec_Record_def marshal_Record_def dec_struct_def dec_field_def dec_string_def json_field_def
      zero_Record_def)

lemma dec_all_map: "(\<And>x. f (g x) = Inr x) \<Longrightarrow> dec_all f (map g xs) = Inr xs"
  by (induction xs) auto

lemma dec_slice_Records:
  "dec_slice lib fld (dec_Record lib zero_Record) cur (JArr (map marshal_Record rs)) = Inr rs"
  by (simp add: dec_slice_def dec_all_map dec_Record_marshal)

text \<open>Labels in the order Go prints them.\<close>

definition labels_sorted :: "(string \<times> string) list \<Rightarrow> bool" where
  "labels_sorted m \<longleftrightarrow> sorted (map fst m) \<and> distinct (map fst m)"

lemma dec_string_map_fold:
  assumes "distinct (map fst (cur @ m))"
  shows "foldl (\<lambda>r (k, v). case r of
           Inl e \<Rightarrow> Inl e
         | Inr m \<Rightarrow>
             (case dec_string lib fld [] v of
                Inl e \<Rightarrow> Inl e
              | Inr s \<Rightarrow> Inr (filter (\<lambda>(k', _). k' \<noteq> k) m @ [(k, s)])))
         (Inr cur) (map (\<lambda>(k, v). (k, JStr v)) m) = Inr (cur @ m)"
  using assms
proof (induction m arbitrary: cur)
  case (Cons p m)
  obtain k v where p: "p = (k, v)" by force
  have "filter (\<lambda>(k', _). k' \<noteq> k) cur = cur"
    using Cons.prems p by (force simp: filter_id_conv)
  with Cons.IH [of "cur @ [(k, v)]"] Cons.prems p show ?case by (simp add: dec_string_def)
qed simp

lemma dec_string_map_marshal:
  assumes "labels_sorted m"
  shows "dec_string_map lib fld [] (marshal_labels m) = Inr m"
proof -
  have "sort_key fst m = m"
    using assms by (simp add: labels_sorted_def sort_key_id_if_sorted)
  with dec_string_map_fold [of "[]" m lib fld] assms show ?thesis
    by (simp add: dec_string_map_def marshal_labels_def labels_sorted_def)
qed

lemma dec_CreateRRSetRequest_marshal:
  assumes "labels_sorted (crq_Labels q)" and "\<forall>t. crq_TTL q = Some t \<longrightarrow> in_int64 t"
  shows "dec_CreateRRSetRequest lib zero_CreateRRSetRequest (marshal_CreateRRSetRequest q) = Inr q"
  using assms
  by (cases q)
    (auto simp: dec_CreateRRSetRequest_def marshal_CreateRRSetRequest_def dec_struct_def dec_field_def json_field_def
      dec_string_def dec_slice_Records dec_int_ptr_def dec_int_def Atoi_Itoa dec_string_map_marshal
      zero_CreateRRSetRequest_def split: option.split)

lemma dec_SetRRSetRecordsRequest_marshal:
  "dec_SetRRSetRecordsRequest lib \<lparr>srq_Records = []\<rparr> (marshal_SetRRSetRecordsRequest q) = Inr q"
  by (cases q) (simp add: dec_SetRRSetRecordsRequest_def marshal_SetRRSetRecordsRequest_def dec_struct_def
      dec_field_def json_field_def dec_slice_Records)

section \<open>Through the text\<close>

definition record_ascii :: "Record \<Rightarrow> bool" where
  "record_ascii r \<longleftrightarrow> ascii (rec_Value r) \<and> ascii (rec_Comment r)"

definition create_ascii :: "CreateRRSetRequest \<Rightarrow> bool" where
  "create_ascii q \<longleftrightarrow> ascii (crq_Name q) \<and> ascii (crq_Type q) \<and> list_all record_ascii (crq_Records q) \<and>
     list_all (\<lambda>(k, v). ascii k \<and> ascii v) (crq_Labels q)"

lemma ascii_Cons [simp]: "ascii (c # s) \<longleftrightarrow> byte c < 128 \<and> ascii s"
  by (simp add: ascii_def)

lemma marshal_Record_plain: "record_ascii r \<Longrightarrow> json_plain (marshal_Record r)"
  by (simp add: record_ascii_def marshal_Record_def)

lemma foldr_max_le: "list_all (\<lambda>x. x \<le> (n :: nat)) xs \<Longrightarrow> foldr max xs 0 \<le> n"
  by (induction xs) auto

lemma json_depth_Record [simp]: "json_depth (marshal_Record r) = 1"
  by (simp add: marshal_Record_def)

lemma json_depth_Records: "json_depth (JArr (map marshal_Record rs)) \<le> 2"
  using foldr_max_le [of 1 "map (json_depth \<circ> marshal_Record) rs"] by (simp add: list_all_iff o_def)

lemma json_depth_labels: "json_depth (marshal_labels m) \<le> 1"
proof -
  have "list_all (\<lambda>x. x \<le> 0) (map (json_depth \<circ> snd) (map (\<lambda>(k, v). (k, JStr v)) (sort_key fst m)))"
    by (auto simp: list_all_iff)
  from foldr_max_le [OF this] show ?thesis by (simp add: marshal_labels_def)
qed

lemma marshal_Create_plain:
  "create_ascii q \<Longrightarrow> json_plain (marshal_CreateRRSetRequest q)"
  "json_depth (marshal_CreateRRSetRequest q) \<le> 3"
  using json_depth_Records [of "crq_Records q"] json_depth_labels [of "crq_Labels q"]
  by (auto simp: create_ascii_def marshal_CreateRRSetRequest_def marshal_labels_def list_all_iff
      marshal_Record_plain split: option.split)

lemma marshal_Set_plain:
  "list_all record_ascii (srq_Records q) \<Longrightarrow> json_plain (marshal_SetRRSetRecordsRequest q)"
  "json_depth (marshal_SetRRSetRecordsRequest q) \<le> 3"
  using json_depth_Records [of "srq_Records q"]
  by (auto simp: marshal_SetRRSetRecordsRequest_def list_all_iff marshal_Record_plain)

lemma Unmarshal_Create:
  assumes "create_ascii q" and "labels_sorted (crq_Labels q)" and "\<forall>t. crq_TTL q = Some t \<longrightarrow> in_int64 t"
  shows "json_Unmarshal lib (dec_CreateRRSetRequest lib) zero_CreateRRSetRequest
    (json_print (marshal_CreateRRSetRequest q)) = Inr q"
proof -
  have "json_Parse lib (json_print (marshal_CreateRRSetRequest q)) = Inr (marshal_CreateRRSetRequest q)"
    using marshal_Create_plain(2) [of q]
    by (intro json_roundtrip_plain marshal_Create_plain(1) assms(1)) (simp add: maxNestingDepth_def)
  with dec_CreateRRSetRequest_marshal [OF assms(2,3)] show ?thesis by (simp add: json_Unmarshal_def)
qed

lemma Unmarshal_Set:
  assumes "list_all record_ascii (srq_Records q)"
  shows "json_Unmarshal lib (dec_SetRRSetRecordsRequest lib) \<lparr>srq_Records = []\<rparr>
    (json_print (marshal_SetRRSetRecordsRequest q)) = Inr q"
proof -
  have "json_Parse lib (json_print (marshal_SetRRSetRecordsRequest q)) = Inr (marshal_SetRRSetRecordsRequest q)"
    using marshal_Set_plain(2) [of q]
    by (intro json_roundtrip_plain marshal_Set_plain(1) assms) (simp add: maxNestingDepth_def)
  then show ?thesis by (simp add: json_Unmarshal_def dec_SetRRSetRecordsRequest_marshal)
qed

end
