(* ===== verification/Mock_Server.thy ===== *)
theory Mock_Server
  imports Client_Guarantees Wire_Correct
begin

text \<open>
  The in-memory replica of the Hetzner Cloud Zones endpoints that the repository's tests run the
  solver against (\<open>mockHCloudServer\<close> in \<open>src/internal/solver/solver_test.go\<close>), with its hooks
  left nil, and a network between the client and it that may delay, lose requests and lose
  responses. The server keeps at most one record set per zone, as in the source.
\<close>

section \<open>Library functions\<close>

text \<open>\<open>strings.Index\<close>.\<close>

fun strings_Index :: "string \<Rightarrow> string \<Rightarrow> nat option" where
  "strings_Index [] p = (if p = [] then Some 0 else None)"
| "strings_Index (c # cs) p = (if HasPrefix (c # cs) p then Some 0 else map_option Suc (strings_Index cs p))"

text \<open>
  \<open>fmt.Sscanf(s, "%d", &id)\<close> into an \<open>int64\<close>: leading white space other than a newline is
  skipped, then an optional sign and the longest run of digits are read; what follows is left.
\<close>

definition Sscanf_d :: "string \<Rightarrow> int64 option" where
  "Sscanf_d s =
     (let t = TrimLeftSpace s;
          sign = (if HasPrefix t ''-'' \<or> HasPrefix t ''+'' then take 1 t else []);
          ds = takeWhile is_digit (drop (length sign) t)
      in if chr 10 \<in> set (take (length s - length t) s) then None
         else map_option word_of_int (Atoi (sign @ ds)))"

section \<open>The server\<close>

record recordedRequest =
  rec_method :: string
  rec_path :: string
  rec_body :: string
  rec_auth :: string

text \<open>
  The Go map \<open>zones\<close> is an association list with distinct keys; the order in which \<open>range\<close>
  visits it is a parameter of the handler. \<open>mk_failed\<close> is set when the handler reports a test
  failure (\<open>t.Errorf\<close>, \<open>t.Fatalf\<close>).
\<close>

record mockHCloudServer =
  mk_zones :: "(string \<times> int64) list"
  mk_rrsets :: "int64 \<rightharpoonup> RRSet"
  mk_requests :: "recordedRequest list"
  mk_expected :: string
  mk_rejectAuthWith :: int
  mk_failed :: bool

definition newMockHCloudServer :: "string \<Rightarrow> (string \<times> int64) list \<Rightarrow> mockHCloudServer" where
  "newMockHCloudServer expectedToken zones =
     \<lparr>mk_zones = zones, mk_rrsets = Map.empty, mk_requests = [], mk_expected = expectedToken,
      mk_rejectAuthWith = 0, mk_failed = False\<rparr>"

text \<open>\<open>json.NewEncoder(w).Encode\<close> ends the text with a newline.\<close>

definition writeJSON :: "int \<Rightarrow> json \<Rightarrow> http_response" where
  "writeJSON status body =
     \<lparr>rs_StatusCode = status, rs_Header = [(''Content-Type'', ''application/json'')],
      rs_Body = json_print body @ [chr 10], rs_BodyErr = None\<rparr>"

definition writeError :: "int \<Rightarrow> string \<Rightarrow> string \<Rightarrow> http_response" where
  "writeError status code msg =
     writeJSON status (JObj [(''error'', JObj [(''code'', JStr code), (''message'', JStr msg)])])"

text \<open>The JSON text of \<open>hcloud.Zone{ID, Name, Mode: "primary", Status: "ok"}\<close>; the zero time is
  printed although the field is marked \<open>omitempty\<close>, since it is a struct.\<close>

definition mock_zone :: "string \<times> int64 \<Rightarrow> json" where
  "mock_zone p = JObj [(''id'', JNum (Itoa (sint (snd p)))), (''name'', JStr (fst p)), (''mode'', JStr ''primary''),
     (''status'', JStr ''ok''), (''created'', JStr ''0001-01-01T00:00:00Z'')]"

definition serveListZones :: "(string \<times> int64) list \<Rightarrow> http_response" where
  "serveListZones zs = writeJSON 200 (JObj [(''zones'', if zs = [] then JNull else JArr (map mock_zone zs))])"

definition marshal_RRSet :: "RRSet \<Rightarrow> json" where
  "marshal_RRSet r =
     JObj ((if rr_ID r = [] then [] else [(''id'', JStr (rr_ID r))]) @
           [(''name'', JStr (rr_Name r)), (''type'', JStr (rr_Type r))] @
           (case rr_TTL r of None \<Rightarrow> [] | Some t \<Rightarrow> [(''ttl'', JNum (Itoa t))]) @
           (if rr_Records r = [] then [] else [(''records'', JArr (map marshal_Record (rr_Records r)))]) @
           (if rr_Protect r then [(''protected'', JBool True)] else []) @
           (if rr_ZoneID r = 0 then [] else [(''zone_id'', JNum (Itoa (sint (rr_ZoneID r))))]) @
           (if rr_Labels r = [] then [] else [(''labels'', marshal_labels (rr_Labels r))]))"

definition mock_rrset :: "int64 \<Rightarrow> CreateRRSetRequest \<Rightarrow> RRSet" where
  "mock_rrset zoneID req =
     \<lparr>rr_ID = ''rrset-'' @ Itoa (sint zoneID), rr_Name = crq_Name req, rr_Type = crq_Type req,
      rr_TTL = crq_TTL req, rr_Records = crq_Records req, rr_Protect = False, rr_ZoneID = zoneID,
      rr_Labels = []\<rparr>"

definition serveCreate ::
  "int64 \<Rightarrow> CreateRRSetRequest \<Rightarrow> mockHCloudServer \<Rightarrow> http_response \<times> mockHCloudServer" where
  "serveCreate zoneID req m = (case mk_rrsets m zoneID of
     Some _ \<Rightarrow> (writeError 409 ''rrset_exists'' ''rrset already exists'', m)
   | None \<Rightarrow>
       (writeJSON 201 (JObj [(''rrset'', marshal_RRSet (mock_rrset zoneID req))]),
        m\<lparr>mk_rrsets := (mk_rrsets m)(zoneID \<mapsto> mock_rrset zoneID req)\<rparr>))"

definition serveSetRecords ::
  "int64 \<Rightarrow> SetRRSetRecordsRequest \<Rightarrow> mockHCloudServer \<Rightarrow> http_response \<times> mockHCloudServer" where
  "serveSetRecords zoneID req m = (case mk_rrsets m zoneID of
     None \<Rightarrow> (writeError 404 ''not_found'' ''rrset not found'', m)
   | Some rrset \<Rightarrow>
       (writeJSON 201 (JObj [(''action'', JObj [(''command'', JStr ''set_rrset_records''),
          (''id'', JNum (Itoa 1509851)), (''status'', JStr ''running'')])]),
        m\<lparr>mk_rrsets := (mk_rrsets m)(zoneID \<mapsto> rrset\<lparr>rr_Records := srq_Records req\<rparr>)\<rparr>))"

definition serveDelete :: "int64 \<Rightarrow> mockHCloudServer \<Rightarrow> http_response \<times> mockHCloudServer" where
  "serveDelete zoneID m = (case mk_rrsets m zoneID of
     None \<Rightarrow> (writeError 404 ''not_found'' ''rrset not found'', m)
   | Some _ \<Rightarrow>
       (\<lparr>rs_StatusCode = 204, rs_Header = [], rs_Body = [], rs_BodyErr = None\<rparr>, m\<lparr>mk_rrsets := (mk_rrsets m)(zoneID := None)\<rparr>))"

definition parseZoneID :: "string \<Rightarrow> string \<Rightarrow> string \<Rightarrow> int64 option" where
  "parseZoneID path pre suf =
     (let trim = TrimPrefix path pre in
      Sscanf_d (case strings_Index trim suf of Some i \<Rightarrow> take i trim | None \<Rightarrow> trim))"

definition http_NotFound :: http_response where
  "http_NotFound =
     \<lparr>rs_StatusCode = 404,
      rs_Header = [(''Content-Type'', ''text/plain; charset=utf-8''), (''X-Content-Type-Options'', ''nosniff'')],
      rs_Body = ''404 page not found'' @ [chr 10], rs_BodyErr = None\<rparr>"

text \<open>A handler that ends with \<open>t.Fatalf\<close> answers nothing: the connection is closed.\<close>

definition test_failed :: "mockHCloudServer \<Rightarrow> mockHCloudServer" where
  "test_failed m = m\<lparr>mk_failed := True\<rparr>"

definition with_zone_id ::
  "int64 option \<Rightarrow> (int64 \<Rightarrow> mockHCloudServer \<Rightarrow> http_response \<times> mockHCloudServer) \<Rightarrow> mockHCloudServer
   \<Rightarrow> http_response option \<times> mockHCloudServer" where
  "with_zone_id zid serve m = (case zid of
     None \<Rightarrow> (None, test_failed m)
   | Some i \<Rightarrow> (case serve i m of (resp, m') \<Rightarrow> (Some resp, m')))"

text \<open>\<open>Handler\<close> after the request was recorded and authorised. A set-records body that does not
  decode leaves the request at its zero value, its error is ignored.\<close>

definition route_request ::
  "golib \<Rightarrow> (string \<times> int64) list \<Rightarrow> string \<Rightarrow> string \<Rightarrow> string \<Rightarrow> mockHCloudServer
   \<Rightarrow> http_response option \<times> mockHCloudServer" where
  "route_request lib visited meth path body m =
     (if meth = ''GET'' \<and> path = ''/v1/zones'' then (Some (serveListZones visited), m)
      else if meth = ''POST'' \<and> HasPrefix path ''/v1/zones/'' \<and> HasSuffix path ''/rrsets'' then
        with_zone_id (parseZoneID path ''/v1/zones/'' ''/rrsets'')
          (\<lambda>zoneID m.
             (case json_Unmarshal lib (dec_CreateRRSetRequest lib) zero_CreateRRSetRequest body of
                Inl e \<Rightarrow> (writeError 400 ''bad_json'' e, m)
              | Inr req \<Rightarrow> serveCreate zoneID req m)) m
      else if meth = ''POST'' \<and> Contains path ''/rrsets/'' \<and> HasSuffix path ''/actions/set_records'' then
        with_zone_id (parseZoneID path ''/v1/zones/'' ''/rrsets/'')
          (\<lambda>zoneID.
             serveSetRecords zoneID
               (case json_Unmarshal lib (dec_SetRRSetRecordsRequest lib) \<lparr>srq_Records = []\<rparr> body of
                  Inl e \<Rightarrow> \<lparr>srq_Records = []\<rparr>
                | Inr req \<Rightarrow> req)) m
      else if meth = ''DELETE'' \<and> Contains path ''/rrsets/'' then
        with_zone_id (parseZoneID path ''/v1/zones/'' ''/rrsets/'') serveDelete m
      else (Some http_NotFound, test_failed m))"

definition Handler ::
  "golib \<Rightarrow> ((string \<times> int64) list \<Rightarrow> (string \<times> int64) list) \<Rightarrow> string \<Rightarrow> string \<Rightarrow> string \<Rightarrow> string
   \<Rightarrow> mockHCloudServer \<Rightarrow> http_response option \<times> mockHCloudServer" where
  "Handler lib order meth path body auth m0 =
     (let m = m0\<lparr>mk_requests := mk_requests m0 @
                   [\<lparr>rec_method = meth, rec_path = path, rec_body = body, rec_auth = auth\<rparr>]\<rparr>
      in if mk_rejectAuthWith m \<noteq> 0 then (Some (writeError (mk_rejectAuthWith m) ''rejected'' ''auth rejected''), m)
         else if mk_expected m \<noteq> [] \<and> auth \<noteq> ''Bearer '' @ mk_expected m then
           (Some (writeError 401 ''unauthorized'' ''bad token''), test_failed m)
         else route_request lib (order (mk_zones m)) meth path body m)"

section \<open>The network\<close>

text \<open>
  What the network does to the next request: deliver it and its response, lose the request
  before it reaches the server, or lose the response after the server has acted; each takes
  some time. When nothing is scheduled, requests are delivered at once.
\<close>

datatype link_fault = Deliver | LoseRequest | LoseResponse

record network =
  net_server :: mockHCloudServer
  net_link :: "(link_fault \<times> nat) list"

definition next_link :: "network \<Rightarrow> link_fault \<times> nat" where
  "next_link x = (case net_link x of [] \<Rightarrow> (Deliver, 0) | p # _ \<Rightarrow> p)"

text \<open>The server's reaction to a request: the path is the unescaped rest of the URL after the base.\<close>

definition serve_request ::
  "golib \<Rightarrow> ((string \<times> int64) list \<Rightarrow> (string \<times> int64) list) \<Rightarrow> string \<Rightarrow> http_request \<Rightarrow> mockHCloudServer
   \<Rightarrow> http_response option \<times> mockHCloudServer" where
  "serve_request lib order base rq m =
     (case PathUnescape (TrimPrefix (rq_url rq) base) of
        None \<Rightarrow> (None, m)
      | Some path \<Rightarrow>
          Handler lib order (rq_method rq) path (case rq_body rq of None \<Rightarrow> [] | Some b \<Rightarrow> b)
            (header_Get (rq_header rq) ''Authorization'') m)"

text \<open>
  The transport: a request whose context is done is not sent; one whose answer would come after
  the context is done fails at that instant, although the server may have acted.
\<close>

definition net_http ::
  "golib \<Rightarrow> ((string \<times> int64) list \<Rightarrow> (string \<times> int64) list) \<Rightarrow> string \<Rightarrow> network transport" where
  "net_http lib order base cx rq t x =
     (case ctx_Err cx t of
        Some _ \<Rightarrow> (Inl ''context deadline exceeded'', 0, x)
      | None \<Rightarrow>
          (case next_link x of (fault, dt) \<Rightarrow>
             let x1 = x\<lparr>net_link := tl (net_link x)\<rparr>;
                 answer = serve_request lib order base rq (net_server x);
                 x2 = (if fault = LoseRequest then x1 else x1\<lparr>net_server := snd answer\<rparr>);
                 got = (if fault = Deliver then fst answer else None)
             in if ctx_Err cx (t + int dt) \<noteq> None
                then (Inl ''context deadline exceeded'', nat (fst (the (ctx_done cx)) - t), x2)
                else ((case got of Some resp \<Rightarrow> Inr resp | None \<Rightarrow> Inl ''EOF''), dt, x2)))"

end
