(* ===== verification/Mock_Correct.thy ===== *)
theory Mock_Correct
  imports Mock_Server
begin

text \<open>
  What the test server answers to the requests of the client: each of the four endpoints is
  recognised by its path, the zone id and the body arrive as sent, and the client can decode
  the answers.
\<close>

section \<open>Paths\<close>

lemma strings_Index_slash:
  "CHR ''/'' \<notin> set xs \<Longrightarrow> strings_Index (xs @ (CHR ''/'' # s) @ ys) (CHR ''/'' # s) = Some (length xs)"
proof (induction xs)
  case Nil
  then show ?case by (simp add: HasPrefix_iff)
next
  case (Cons c xs)
  then show ?case by (auto simp: HasPrefix_iff)
qed

lemma TrimLeftSpace_Itoa: "TrimLeftSpace (Itoa i) = Itoa i"
proof -
  obtain c cs where c: "Itoa i = c # cs" by (cases "Itoa i") auto
  moreover have "is_digit c \<or> c = CHR ''-''"
    using c hd_dec_digit [of "nat i"] by (auto simp: Itoa_def split: if_splits)
  then have "byte c < 128" "\<not> IsSpace (byte c)"
    by (auto simp: is_digit_def IsSpace_def)
  ultimately show ?thesis by simp
qed

lemma takeWhile_dec [simp]: "takeWhile is_digit (dec n) = dec n"
  using dec_digits [of n] by (auto simp: list_all_iff intro: takeWhile_eq_all_conv [THEN iffD2])

lemma Sscanf_d_Itoa: "Sscanf_d (Itoa (sint i)) = Some i"
proof -
  have split: "(if HasPrefix (Itoa j) ''-'' \<or> HasPrefix (Itoa j) ''+'' then take 1 (Itoa j) else []) @
      takeWhile is_digit (drop (length (if HasPrefix (Itoa j) ''-'' \<or> HasPrefix (Itoa j) ''+'' then take 1 (Itoa j) else []))
        (Itoa j)) = Itoa j" for j
    using dec_no_sign [of "nat j"] by (simp add: Itoa_def HasPrefix_single)
  have "Atoi (Itoa (sint i)) = Some (sint i)" by (rule Atoi_Itoa) simp
  then show ?thesis by (simp add: Sscanf_d_def Let_def TrimLeftSpace_Itoa split)
qed

lemma TrimPrefix_zone_path: "TrimPrefix (zone_path i @ r) ''/v1/zones/'' = Itoa (sint i) @ ''/rrsets'' @ r"
  using TrimPrefix_append [of "''/v1/zones/''" "Itoa (sint i) @ ''/rrsets'' @ r"] by (simp add: zone_path_def)

lemma parseZoneID_create: "parseZoneID (zone_path i) ''/v1/zones/'' ''/rrsets'' = Some i"
  using strings_Index_slash [OF Itoa_no_slash, of "sint i" "''rrsets''" "[]"] TrimPrefix_zone_path [of i "[]"]
  by (simp add: parseZoneID_def Sscanf_d_Itoa)

lemma parseZoneID_rrset: "parseZoneID (zone_path i @ CHR ''/'' # rest) ''/v1/zones/'' ''/rrsets/'' = Some i"
  using strings_Index_slash [OF Itoa_no_slash, of "sint i" "''rrsets/''" rest]
  by (simp add: parseZoneID_def TrimPrefix_zone_path Sscanf_d_Itoa)

lemma PathUnescape_no_percent:
  "CHR ''%'' \<notin> set s \<Longrightarrow> PathUnescape (s @ t) = map_option ((@) s) (PathUnescape t)"
  by (cases "PathUnescape t"; induction s) auto

lemma PathUnescape_PathEscape_append:
  "PathUnescape (PathEscape s @ t) = map_option ((@) s) (PathUnescape t)"
proof (induction s)
  case Nil
  then show ?case by (cases "PathUnescape t") (simp_all add: PathEscape_def)
next
  case (Cons c s)
  have "byte c div 16 < 16"
    using byte_less_256 [of c] by (simp add: less_mult_imp_div_less)
  moreover have "\<not> shouldEscape c \<Longrightarrow> c \<noteq> CHR ''%''" by (auto simp: shouldEscape_def)
  ultimately show ?case
    using Cons by (cases "PathUnescape t") (auto simp: PathEscape_def unhex_HEXDIGIT)
qed

lemma zone_path_no_percent: "CHR ''%'' \<notin> set (zone_path i)"
proof -
  have "\<not> is_digit (CHR ''%'')" by (simp add: is_digit_def)
  then have "CHR ''%'' \<notin> set (dec n)" for n
    using dec_digits [of n] by (auto simp: list_all_iff)
  then show ?thesis by (simp add: zone_path_def Itoa_def)
qed

text \<open>The path of a record set as the server sees it.\<close>

definition server_path :: "int64 \<Rightarrow> string \<Rightarrow> string \<Rightarrow> string" where
  "server_path i n t = zone_path i @ ''/'' @ n @ ''/'' @ t"

lemma PathUnescape_zone_path: "PathUnescape (zone_path i) = Some (zone_path i)"
  using PathUnescape_no_percent [OF zone_path_no_percent, of i "[]"] by simp

lemma PathUnescape_rrset_path:
  assumes "CHR ''%'' \<notin> set rest"
  shows "PathUnescape (rrset_path i n t @ rest) = Some (server_path i n t @ rest)"
proof -
  have "PathUnescape (rest @ []) = Some rest"
    by (subst PathUnescape_no_percent [OF assms]) simp
  then show ?thesis
    by (simp add: rrset_path_def server_path_def PathUnescape_no_percent [OF zone_path_no_percent]
        PathUnescape_PathEscape_append)
qed

lemma Contains_append: "Contains (xs @ p @ ys) p"
  unfolding Contains_iff by blast

lemma server_path_contains: "Contains (server_path i n t @ rest) ''/rrsets/''"
  using Contains_append [of "''/v1/zones/'' @ Itoa (sint i)" "''/rrsets/''" "n @ ''/'' @ t @ rest"]
  by (simp add: server_path_def zone_path_def)

section \<open>Routing\<close>

lemma route_list: "route_request lib zs ''GET'' ''/v1/zones'' body m = (Some (serveListZones zs), m)"
  by (simp add: route_request_def)

lemma route_create:
  assumes "json_Unmarshal lib (dec_CreateRRSetRequest lib) zero_CreateRRSetRequest body = Inr q"
  shows "route_request lib zs ''POST'' (zone_path i) body m = map_prod Some id (serveCreate i q m)"
proof -
  have "HasPrefix (zone_path i) ''/v1/zones/''" "HasSuffix (zone_path i) ''/rrsets''"
    by (simp_all add: zone_path_def HasPrefix_iff HasSuffix_iff suffix_def)
  with assms show ?thesis
    by (simp add: route_request_def parseZoneID_create with_zone_id_def split: prod.split)
qed

lemma set_path_not_create: "\<not> HasSuffix (xs @ ''/actions/set_records'') ''/rrsets''"
  by (simp add: HasSuffix_def)

lemma route_set:
  assumes "json_Unmarshal lib (dec_SetRRSetRecordsRequest lib) \<lparr>srq_Records = []\<rparr> body = Inr q"
  shows "route_request lib zs ''POST'' (server_path i n t @ ''/actions/set_records'') body m =
    map_prod Some id (serveSetRecords i q m)"
proof -
  have "HasSuffix (server_path i n t @ ''/actions/set_records'') ''/actions/set_records''"
    by (simp add: HasSuffix_iff)
  with assms show ?thesis
    using parseZoneID_rrset [of i "n @ ''/'' @ t @ ''/actions/set_records''"]
      server_path_contains [of i n t "''/actions/set_records''"] set_path_not_create [of "server_path i n t"]
    by (simp add: route_request_def server_path_def with_zone_id_def split: prod.split)
qed

lemma route_delete:
  "route_request lib zs ''DELETE'' (server_path i n t) body m = map_prod Some id (serveDelete i m)"
  using parseZoneID_rrset [of i "n @ ''/'' @ t"] server_path_contains [of i n t "[]"]
  by (simp add: route_request_def server_path_def with_zone_id_def split: prod.split)

section \<open>Answers\<close>

text \<open>The zero time in RFC 3339 is read back by \<open>Time.UnmarshalJSON\<close>.\<close>

definition parses_zero_time :: "golib \<Rightarrow> bool" where
  "parses_zero_time lib \<longleftrightarrow> time_UnmarshalJSON lib (JStr ''0001-01-01T00:00:00Z'') = Inr zero_time"

definition listed_zone :: "string \<times> int64 \<Rightarrow> Zone" where
  "listed_zone p = \<lparr>zone_ID = snd p, zone_Name = fst p, zone_Mode = ''primary'', zone_Status = ''ok'',
     zone_TTL = 0, zone_RecordsCnt = 0, zone_Created = zero_time\<rparr>"

lemmas dec_simps = dec_struct_def dec_field_def json_field_def dec_string_def dec_int64_def dec_int_def Atoi_Itoa

lemma dec_Zone_mock: "parses_zero_time lib \<Longrightarrow> dec_Zone lib zero_Zone (mock_zone p) = Inr (listed_zone p)"
  by (simp add: dec_Zone_def mock_zone_def dec_simps dec_time_def parses_zero_time_def zero_Zone_def listed_zone_def)

lemma zones_answer:
  assumes "parses_zero_time lib" and "list_all (\<lambda>p. ascii (fst p)) zs"
  shows "json_Unmarshal lib (dec_listZonesResponse lib) zero_listZonesResponse (rs_Body (serveListZones zs)) =
    Inr (zero_listZonesResponse\<lparr>lz_Zones := map listed_zone zs\<rparr>)"
proof -
  let ?j = "JObj [(''zones'', if zs = [] then JNull else JArr (map mock_zone zs))]"
  have "json_depth (mock_zone p) = 1" for p by (simp add: mock_zone_def)
  then have "json_depth (JArr (map mock_zone zs)) \<le> 2"
    using foldr_max_le [of 1 "map (json_depth \<circ> mock_zone) zs"] by (simp add: list_all_iff o_def)
  moreover have "json_plain ?j"
    using assms(2) by (auto simp: list_all_iff mock_zone_def)
  ultimately have "json_Parse lib (json_print ?j @ [chr 10]) = Inr ?j"
    by (intro json_roundtrip) (auto simp: maxNestingDepth_def)
  moreover have "dec_all (dec_Zone lib zero_Zone) (map mock_zone zs) = Inr (map listed_zone zs)"
    by (induction zs) (simp_all add: dec_Zone_mock [OF assms(1)])
  ultimately show ?thesis
    by (simp add: json_Unmarshal_def serveListZones_def writeJSON_def dec_listZonesResponse_def dec_simps dec_slice_def)
qed

lemma ascii_Itoa: "ascii (Itoa i)"
proof -
  have "byte c < 128" if "c \<in> set (dec n)" for c n
    using that dec_digits [of n] by (fastforce simp: list_all_iff is_digit_def)
  then show ?thesis by (simp add: ascii_def Itoa_def list_all_iff)
qed

lemma create_answer:
  assumes "create_ascii q" and "\<forall>t. crq_TTL q = Some t \<longrightarrow> in_int64 t"
  shows "is_ok (json_Unmarshal lib (dec_rrsetEnvelope lib) zero_RRSet
    (rs_Body (writeJSON 201 (JObj [(''rrset'', marshal_RRSet (mock_rrset i q))]))))"
proof -
  let ?j = "JObj [(''rrset'', marshal_RRSet (mock_rrset i q))]"
  have "ascii (''rrset-'' @ Itoa (sint i))"
    using ascii_Itoa [of "sint i"] by (simp add: ascii_def)
  then have "json_plain ?j"
    using assms(1) by (auto simp: marshal_RRSet_def mock_rrset_def create_ascii_def list_all_iff marshal_Record_plain
        split: option.split)
  moreover have "json_depth ?j \<le> 4"
    using json_depth_Records [of "crq_Records q"]
    by (auto simp: marshal_RRSet_def mock_rrset_def split: option.split)
  ultimately have "json_Parse lib (json_print ?j @ [chr 10]) = Inr ?j"
    by (intro json_roundtrip) (auto simp: maxNestingDepth_def)
  then show ?thesis
    using assms(2)
    by (auto simp: json_Unmarshal_def writeJSON_def dec_rrsetEnvelope_def dec_RRSet_def marshal_RRSet_def mock_rrset_def
        dec_simps dec_slice_Records dec_int_ptr_def zero_RRSet_def split: option.split)
qed

lemma action_answer:
  "is_ok (json_Unmarshal lib (dec_actionEnvelope lib) zero_Action
     (rs_Body (writeJSON 201 (JObj [(''action'', JObj [(''command'', JStr ''set_rrset_records''),
        (''id'', JNum (Itoa 1509851)), (''status'', JStr ''running'')])]))))"
proof -
  let ?j = "JObj [(''action'', JObj [(''command'', JStr ''set_rrset_records''), (''id'', JNum (Itoa 1509851)),
      (''status'', JStr ''running'')])]"
  have "json_Parse lib (json_print ?j @ [chr 10]) = Inr ?j"
    by (intro json_roundtrip) (auto simp: maxNestingDepth_def)
  then show ?thesis
    by (simp add: json_Unmarshal_def writeJSON_def dec_actionEnvelope_def dec_Action_def dec_simps in_int64_def)
qed

end
