(* ===== verification/Config.thy ===== *)
theory Config
  imports Routing_Correct Wire
begin

text \<open>
  The per-issuer configuration, \<open>src/internal/solver/config.go\<close>: decoding of the JSON block,
  resolution of the secret references with their defaults, and hand-over to the routing
  layer. \<open>cmmeta.SecretKeySelector\<close> is a type of cert-manager: the two fields the code reads
  are modelled, its JSON decoder is a parameter.
\<close>

section \<open>Data\<close>

record SecretKeySelector =
  sks_Name :: string
  sks_Key :: string

record CredentialConfig =
  cc_Name :: string
  cc_Zones :: "string list"
  cc_APITokenSecretRef :: SecretKeySelector
  cc_Namespace :: string

record solver_Config =
  cfg_Credentials :: "CredentialConfig list"

record SecretRef =
  sr_Namespace :: string
  sr_Name :: string
  sr_Key :: string

definition SecretRef_String :: "SecretRef \<Rightarrow> string" where
  "SecretRef_String r = sr_Namespace r @ ''/'' @ sr_Name r @ ''#'' @ sr_Key r"

definition zero_CredentialConfig :: CredentialConfig where
  "zero_CredentialConfig = \<lparr>cc_Name = [], cc_Zones = [],
     cc_APITokenSecretRef = \<lparr>sks_Name = [], sks_Key = []\<rparr>, cc_Namespace = []\<rparr>"

definition dec_CredentialConfig ::
  "golib \<Rightarrow> SecretKeySelector decoder \<Rightarrow> CredentialConfig decoder" where
  "dec_CredentialConfig lib dsks = dec_struct lib ''CredentialConfig''
     [(''name'', dec_field cc_Name (\<lambda>x c. c\<lparr>cc_Name := x\<rparr>) (dec_string lib ''name'')),
      (''zones'', dec_field cc_Zones (\<lambda>x c. c\<lparr>cc_Zones := x\<rparr>)
         (dec_slice lib ''zones'' (dec_string lib ''zones'' []))),
      (''apiTokenSecretRef'', dec_field cc_APITokenSecretRef (\<lambda>x c. c\<lparr>cc_APITokenSecretRef := x\<rparr>) dsks),
      (''namespace'', dec_field cc_Namespace (\<lambda>x c. c\<lparr>cc_Namespace := x\<rparr>) (dec_string lib ''namespace''))]"

definition dec_solver_Config :: "golib \<Rightarrow> SecretKeySelector decoder \<Rightarrow> solver_Config decoder" where
  "dec_solver_Config lib dsks = dec_struct lib ''Config''
     [(''credentials'', dec_field cfg_Credentials (\<lambda>x c. c\<lparr>cfg_Credentials := x\<rparr>)
         (dec_slice lib ''credentials'' (dec_CredentialConfig lib dsks zero_CredentialConfig)))]"

section \<open>Secret references\<close>

definition resolveSecretRef :: "unicode \<Rightarrow> CredentialConfig \<Rightarrow> string \<Rightarrow> int \<Rightarrow> SecretRef result" where
  "resolveSecretRef u cred defaultNamespace idx =
     (let name = TrimSpace (sks_Name (cc_APITokenSecretRef cred)) in
      if name = [] then
        Inl (ENew (''solver: credential at index '' @ Itoa idx @ '' ('' @ Quote u (cc_Name cred) @
                   ''): apiTokenSecretRef.name is empty''))
      else
        let namespace = TrimSpace (cc_Namespace cred);
            namespace = (if namespace = [] then TrimSpace defaultNamespace else namespace)
        in if namespace = [] then
             Inl (ENew (''solver: credential '' @ Quote u (cc_Name cred) @
               '': apiTokenSecretRef namespace is empty and no default namespace is available; '' @
               ''set the `namespace` field on the credential or run via an Issuer (not ClusterIssuer) '' @
               ''so cert-manager supplies the resource namespace''))
           else
             let key = TrimSpace (sks_Key (cc_APITokenSecretRef cred));
                 key = (if key = [] then ''token'' else key)
             in Inr \<lparr>sr_Namespace = namespace, sr_Name = name, sr_Key = key\<rparr>)"

section \<open>parseConfig\<close>

fun convert_creds ::
  "unicode \<Rightarrow> string \<Rightarrow> nat \<Rightarrow> CredentialConfig list \<Rightarrow> Credential list \<Rightarrow> (string \<rightharpoonup> SecretRef)
   \<Rightarrow> (Credential list \<times> (string \<rightharpoonup> SecretRef)) result" where
  "convert_creds u ns i [] rcs refs = Inr (rcs, refs)"
| "convert_creds u ns i (cred # creds) rcs refs =
     (case resolveSecretRef u cred ns (int i) of
        Inl err \<Rightarrow> Inl err
      | Inr ref \<Rightarrow>
          convert_creds u ns (Suc i) creds
            (rcs @ [\<lparr>cred_Name = cc_Name cred, cred_Zones = cc_Zones cred,
                     cred_APITokenSecretRef = SecretRef_String ref\<rparr>])
            (refs(cc_Name cred \<mapsto> ref)))"

definition parseConfig ::
  "golib \<Rightarrow> SecretKeySelector decoder \<Rightarrow> string option \<Rightarrow> string
   \<Rightarrow> (routing_Config \<times> (string \<rightharpoonup> SecretRef)) result" where
  "parseConfig lib dsks raw defaultNamespace =
     (case raw of
        None \<Rightarrow> Inl (ENew (''solver: webhook config is empty; expected a `credentials` block per '' @
                   ''docs/app-concept.md '' @ [chr 194, chr 167] @ '' 3.2''))
      | Some bytes \<Rightarrow>
          if bytes = [] then
            Inl (ENew (''solver: webhook config is empty; expected a `credentials` block per '' @
                   ''docs/app-concept.md '' @ [chr 194, chr 167] @ '' 3.2''))
          else
            (case json_Unmarshal lib (dec_solver_Config lib dsks) \<lparr>cfg_Credentials = []\<rparr> bytes of
               Inl e \<Rightarrow> Inl (EWrap ''solver: parse webhook config: '' (EExt e) [])
             | Inr cfg \<Rightarrow>
                 if cfg_Credentials cfg = [] then
                   Inl (ENew ''solver: webhook config has no credentials; at least one is required'')
                 else
                   (case convert_creds (lib_unicode lib) defaultNamespace 0 (cfg_Credentials cfg) [] Map.empty of
                      Inl err \<Rightarrow> Inl err
                    | Inr (rcs, refs) \<Rightarrow>
                        (case ValidateConfig (lib_unicode lib) (Some \<lparr>Credentials = rcs\<rparr>) of
                           Some err \<Rightarrow> Inl (EWrap ''solver: validate webhook config: '' err [])
                         | None \<Rightarrow> Inr (\<lparr>Credentials = rcs\<rparr>, refs)))))"

end
