(* ===== verification/Secrets.thy ===== *)
theory Secrets
  imports Config
begin

text \<open>
  Reading the API token, \<open>src/internal/solver/secrets.go\<close>. The Kubernetes API is a parameter:
  \<open>kube_GetSecret\<close> answers a read of a Secret with an error text or its data map. The contract
  of the interface \<open>SecretGetter\<close> is the locale \<open>secret_getter\<close>; the production getter
  satisfies it.
\<close>

type_synonym rest_Config = string

type_synonym 'e kube_api =
  "rest_Config \<Rightarrow> ctx \<Rightarrow> string \<Rightarrow> string \<Rightarrow> time \<Rightarrow> 'e \<Rightarrow> (string + (string \<rightharpoonup> string)) \<times> nat \<times> 'e"

type_synonym 'e SecretGetter = "ctx \<Rightarrow> SecretRef \<Rightarrow> 'e world \<Rightarrow> string result \<times> 'e world"

record 'e kubeSecretGetter =
  kg_api :: "'e kube_api"
  kg_config :: rest_Config

text \<open>\<open>kubernetes.NewForConfig\<close> answers with an error text or succeeds.\<close>

definition newKubeSecretGetter ::
  "'e kube_api \<Rightarrow> (rest_Config \<Rightarrow> string option) \<Rightarrow> rest_Config option \<Rightarrow> 'e kubeSecretGetter result" where
  "newKubeSecretGetter api NewForConfig cfg = (case cfg of
     None \<Rightarrow> Inl (ENew ''solver: rest.Config is nil; Initialize must be called before Present/CleanUp'')
   | Some rc \<Rightarrow>
       (case NewForConfig rc of
          Some e \<Rightarrow> Inl (EWrap ''solver: build Kubernetes client: '' (EExt e) [])
        | None \<Rightarrow> Inr \<lparr>kg_api = api, kg_config = rc\<rparr>))"

definition GetToken :: "unicode \<Rightarrow> 'e kubeSecretGetter \<Rightarrow> 'e SecretGetter" where
  "GetToken u g cx ref w =
     (case call_out (kg_api g (kg_config g) cx (sr_Namespace ref) (sr_Name ref))
             (emit (SecretRead (sr_Namespace ref) (sr_Name ref)) w) of
        (Inl e, w1) \<Rightarrow>
          (Inl (EWrap (''solver: get Secret '' @ sr_Namespace ref @ ''/'' @ sr_Name ref @ '': '')
                 (EExt e) []), w1)
      | (Inr data, w1) \<Rightarrow>
          (case data (sr_Key ref) of
             None \<Rightarrow>
               (Inl (ENew (''solver: Secret '' @ sr_Namespace ref @ ''/'' @ sr_Name ref @
                  '' has no key '' @ Quote u (sr_Key ref) @ ''; configure data.'' @ sr_Key ref @
                  '' with the hcloud token'')), w1)
           | Some raw \<Rightarrow>
               let token = TrimSpace raw in
               if token = [] then
                 (Inl (ENew (''solver: Secret '' @ sr_Namespace ref @ ''/'' @ sr_Name ref @ '' key '' @
                    Quote u (sr_Key ref) @ '' is empty'')), w1)
               else (Inr token, w1)))"

section \<open>The contract of SecretGetter\<close>

text \<open>
  What the solver relies on: a token is never empty, a call reads exactly the Secret it was
  asked for, and does nothing else. With a Kubernetes client that honours contexts it does not
  outlast its context either.
\<close>

locale secret_getter =
  fixes get :: "'e SecretGetter"
  assumes token_nonempty: "get cx ref w = (Inr tok, w') \<Longrightarrow> tok \<noteq> []"
    and reads_one: "get cx ref w = (r, w') \<Longrightarrow>
      trace w' = trace w @ [SecretRead (sr_Namespace ref) (sr_Name ref)]"
    and get_mono: "get cx ref w = (r, w') \<Longrightarrow> now w \<le> now w'"
begin

lemma get_frame:
  assumes "get cx ref w = (r, w')"
  shows "secrets_read (trace w') = secrets_read (trace w) @ [(sr_Namespace ref, sr_Name ref)]"
    and "http_sent (trace w') = http_sent (trace w)"
    and "slept (trace w') = slept (trace w)"
    and "logged (trace w') = logged (trace w)" and "http_log (trace w') = http_log (trace w)"
  using reads_one [OF assms] by simp_all

end

lemma GetToken_call:
  assumes "GetToken u g cx ref w = (r, w')"
  obtains res where "call_out (kg_api g (kg_config g) cx (sr_Namespace ref) (sr_Name ref))
      (emit (SecretRead (sr_Namespace ref) (sr_Name ref)) w) = (res, w')"
    and "\<And>tok. r = Inr tok \<Longrightarrow> \<exists>m raw. res = Inr m \<and> m (sr_Key ref) = Some raw \<and>
      tok = TrimSpace raw \<and> tok \<noteq> []"
proof -
  obtain res w1 where c: "call_out (kg_api g (kg_config g) cx (sr_Namespace ref) (sr_Name ref))
      (emit (SecretRead (sr_Namespace ref) (sr_Name ref)) w) = (res, w1)"
    by force
  with assms have "w1 = w'"
    by (auto simp: GetToken_def Let_def split: sum.splits option.splits if_splits)
  moreover have "\<exists>m raw. res = Inr m \<and> m (sr_Key ref) = Some raw \<and> tok = TrimSpace raw \<and> tok \<noteq> []"
    if "r = Inr tok" for tok
    using assms c that by (auto simp: GetToken_def Let_def split: sum.splits option.splits if_splits)
  ultimately show ?thesis using that c by blast
qed

interpretation kube: secret_getter "GetToken u g" for u g
proof unfold_locales
  fix cx ref w w' r
  assume r: "GetToken u g cx ref w = (r, w')"
  show "trace w' = trace w @ [SecretRead (sr_Namespace ref) (sr_Name ref)]" "now w \<le> now w'"
    by (rule GetToken_call [OF r]; auto dest: call_out_frame)+
next
  fix cx ref w w' tok
  assume r: "GetToken u g cx ref w = (Inr tok, w')"
  show "tok \<noteq> []" by (rule GetToken_call [OF r]) auto
qed

text \<open>The documented behaviour of the Kubernetes client: a request ends with its context.\<close>

definition kube_honours_ctx :: "'e kube_api \<Rightarrow> bool" where
  "kube_honours_ctx api \<longleftrightarrow>
     (\<forall>rc cx ns n t x. case ctx_done cx of
        None \<Rightarrow> True
      | Some (t0, e) \<Rightarrow> t + int (fst (snd (api rc cx ns n t x))) \<le> max t t0)"

lemma GetToken_deadline:
  assumes "kube_honours_ctx (kg_api g)" and "GetToken u g cx ref w = (r, w')"
  shows "by_deadline cx w (now w')"
proof (cases "ctx_done cx")
  case (Some d)
  obtain t0 e where d: "d = (t0, e)" by (cases d)
  let ?api = "kg_api g (kg_config g) cx (sr_Namespace ref) (sr_Name ref)"
  have "now w + int (fst (snd (?api (now w) (ext w)))) \<le> max (now w) t0"
    using assms(1) Some d unfolding kube_honours_ctx_def by (metis (no_types, lifting) option.case(2) prod.case)
  moreover obtain res where "call_out ?api (emit (SecretRead (sr_Namespace ref) (sr_Name ref)) w) = (res, w')"
    by (rule GetToken_call [OF assms(2)])
  ultimately show ?thesis
    using Some d by (auto simp: by_deadline_def call_out_def split: prod.splits)
qed (simp add: by_deadline_def)

text \<open>
  The token handed to the API client is exactly the value of the referenced key in the
  Secret as the API server returned it for this call, without surrounding white space, and
  never empty; a missing Secret, a missing key or a blank value is an error.
\<close>

theorem get_token_correct:
  "GetToken u g cx ref w = (Inr tok, w') \<longleftrightarrow>
     (\<exists>m raw. call_out (kg_api g (kg_config g) cx (sr_Namespace ref) (sr_Name ref))
          (emit (SecretRead (sr_Namespace ref) (sr_Name ref)) w) = (Inr m, w') \<and>
        m (sr_Key ref) = Some raw \<and> tok = TrimSpace raw \<and> tok \<noteq> [])"
proof
  assume r: "GetToken u g cx ref w = (Inr tok, w')"
  show "\<exists>m raw. call_out (kg_api g (kg_config g) cx (sr_Namespace ref) (sr_Name ref))
          (emit (SecretRead (sr_Namespace ref) (sr_Name ref)) w) = (Inr m, w') \<and>
        m (sr_Key ref) = Some raw \<and> tok = TrimSpace raw \<and> tok \<noteq> []"
  proof (rule GetToken_call [OF r])
    fix res
    assume "call_out (kg_api g (kg_config g) cx (sr_Namespace ref) (sr_Name ref))
        (emit (SecretRead (sr_Namespace ref) (sr_Name ref)) w) = (res, w')"
      and "\<And>t. Inr tok = (Inr t :: string result) \<Longrightarrow> \<exists>m raw. res = Inr m \<and> m (sr_Key ref) = Some raw \<and>
        t = TrimSpace raw \<and> t \<noteq> []"
    from this(1) this(2) [OF refl] show ?thesis by auto
  qed
qed (auto simp: GetToken_def Let_def)

end
