(* ===== verification/Zone_Cache.thy ===== *)
theory Zone_Cache
  imports Runtime
begin

text \<open>
  The TTL cache of zone ids, \<open>src/internal/solver/zonecache.go\<close>. Every operation holds the
  mutex for its whole body, so it is one step on the record; the clock is the injected
  \<open>now\<close> function, read from the world.
\<close>

section \<open>Data and operations\<close>

record zoneCacheKey =
  zk_secretRef :: string
  zk_zoneName :: string

record zoneCacheEntry =
  ze_id :: int64
  ze_expiresAt :: time

record 'e zoneCache =
  zc_ttl :: duration
  zc_now :: "'e world \<Rightarrow> time"
  zc_store :: "zoneCacheKey \<rightharpoonup> zoneCacheEntry"

definition newZoneCache :: "duration \<Rightarrow> ('e world \<Rightarrow> time) option \<Rightarrow> 'e zoneCache" where
  "newZoneCache ttl nowf =
     \<lparr>zc_ttl = (if sint ttl \<le> 0 then 30 * 1000000000 else ttl),
      zc_now = (case nowf of None \<Rightarrow> now | Some f \<Rightarrow> f),
      zc_store = Map.empty\<rparr>"

definition cache_key :: "string \<Rightarrow> string \<Rightarrow> zoneCacheKey" where
  "cache_key secretRef zone = \<lparr>zk_secretRef = secretRef, zk_zoneName = zone\<rparr>"

definition Lookup :: "string \<Rightarrow> string \<Rightarrow> 'e world \<Rightarrow> 'e zoneCache \<Rightarrow> int64 option \<times> 'e zoneCache" where
  "Lookup secretRef zone w c =
     (case zc_store c (cache_key secretRef zone) of
        None \<Rightarrow> (None, c)
      | Some entry \<Rightarrow>
          if ze_expiresAt entry < zc_now c w
          then (None, c\<lparr>zc_store := (zc_store c)(cache_key secretRef zone := None)\<rparr>)
          else (Some (ze_id entry), c))"

definition Store :: "string \<Rightarrow> string \<Rightarrow> int64 \<Rightarrow> 'e world \<Rightarrow> 'e zoneCache \<Rightarrow> 'e zoneCache" where
  "Store secretRef zone i w c =
     c\<lparr>zc_store := (zc_store c)(cache_key secretRef zone \<mapsto>
        \<lparr>ze_id = i, ze_expiresAt = zc_now c w + sint (zc_ttl c)\<rparr>)\<rparr>"

definition Invalidate :: "string \<Rightarrow> string \<Rightarrow> 'e zoneCache \<Rightarrow> 'e zoneCache" where
  "Invalidate secretRef zone c = c\<lparr>zc_store := (zc_store c)(cache_key secretRef zone := None)\<rparr>"

end
