(* ===== verification/Solver.thy ===== *)
theory Solver
  imports Client Secrets Zone_Cache
begin

text \<open>
  The cert-manager solver, \<open>src/internal/solver/solver.go\<close>, and the entry point
  \<open>src/cmd/cert-manager-webhook-hcloud-zones/main.go\<close>: the state of \<open>Solver\<close>, its options,
  \<open>New\<close>, \<open>Initialize\<close>, \<open>Present\<close>, \<open>CleanUp\<close> and their helpers. Each operation takes the
  solver and the world and returns both, since the zone cache inside the solver changes.

  The record \<open>platform\<close> collects what the program is linked with: library parameters, the
  decoder of cert-manager's \<open>SecretKeySelector\<close>, the default HTTP client, the Kubernetes API
  and the choice \<open>select\<close> makes between simultaneous events.
\<close>

section \<open>Types\<close>

record 'e platform =
  pf_lib :: golib
  pf_dsks :: "SecretKeySelector decoder"
  pf_http :: "'e transport"
  pf_pick :: "time \<Rightarrow> bool"
  pf_kube :: "'e kube_api"
  pf_NewForConfig :: "rest_Config \<Rightarrow> string option"

abbreviation pf_uc :: "'e platform \<Rightarrow> unicode" where
  "pf_uc pf \<equiv> lib_unicode (pf_lib pf)"

record 'e HCloudClient =
  hc_ListZones :: "ctx \<Rightarrow> 'e world \<Rightarrow> Zone list result \<times> 'e world"
  hc_CreateRRSet :: "ctx \<Rightarrow> int64 \<Rightarrow> CreateRRSetRequest \<Rightarrow> 'e world \<Rightarrow> RRSet result \<times> 'e world"
  hc_SetRRSetRecords :: "ctx \<Rightarrow> int64 \<Rightarrow> string \<Rightarrow> string \<Rightarrow> SetRRSetRecordsRequest
    \<Rightarrow> 'e world \<Rightarrow> Action result \<times> 'e world"
  hc_DeleteRRSet :: "ctx \<Rightarrow> int64 \<Rightarrow> string \<Rightarrow> string \<Rightarrow> 'e world \<Rightarrow> unit result \<times> 'e world"

type_synonym 'e ClientFactory = "string \<Rightarrow> 'e HCloudClient result"

record 'e Solver =
  s_logger :: logger
  s_clientFactory :: "'e ClientFactory"
  s_secrets :: "'e SecretGetter option"
  s_zones :: "'e zoneCache"
  s_now :: "'e world \<Rightarrow> time"
  s_rrsetTTL :: int
  s_clientFactorySet :: bool
  s_requestBudget :: duration
  s_kubeConfig :: "rest_Config option"

text \<open>The fields of cert-manager's \<open>ChallengeRequest\<close> the solver reads; \<open>ch_Config\<close> is the raw
  JSON, \<^const>\<open>None\<close> for a nil pointer.\<close>

record ChallengeRequest =
  ch_ResolvedFQDN :: string
  ch_Key :: string
  ch_ResourceNamespace :: string
  ch_Config :: "string option"

definition SolverName :: string where
  "SolverName = ''hcloud-zones''"

definition defaultRRSetTTL :: int where
  "defaultRRSetTTL = 60"

definition defaultZoneCacheTTL :: duration where
  "defaultZoneCacheTTL = 30 * second"

definition defaultChallengeLabel :: string where
  "defaultChallengeLabel = ''_acme-challenge''"

definition defaultRRSetType :: string where
  "defaultRRSetType = ''TXT''"

definition defaultRequestBudget :: duration where
  "defaultRequestBudget = 120 * second"

section \<open>Options and construction\<close>

type_synonym 'e solver_option = "'e Solver \<Rightarrow> 'e Solver"

definition solver_WithLogger :: "logger option \<Rightarrow> 'e solver_option" where
  "solver_WithLogger l s = (case l of None \<Rightarrow> s | Some lg \<Rightarrow> s\<lparr>s_logger := lg\<rparr>)"

definition WithClientFactory :: "'e ClientFactory option \<Rightarrow> 'e solver_option" where
  "WithClientFactory f s = (case f of
     None \<Rightarrow> s
   | Some g \<Rightarrow> s\<lparr>s_clientFactory := g, s_clientFactorySet := True\<rparr>)"

definition WithSecretGetter :: "'e SecretGetter option \<Rightarrow> 'e solver_option" where
  "WithSecretGetter g s = (case g of None \<Rightarrow> s | Some f \<Rightarrow> s\<lparr>s_secrets := Some f\<rparr>)"

definition WithZoneCacheTTL :: "duration \<Rightarrow> 'e solver_option" where
  "WithZoneCacheTTL d s = (if 0 < sint d then s\<lparr>s_zones := newZoneCache d (Some (s_now s))\<rparr> else s)"

definition WithRRSetTTL :: "int \<Rightarrow> 'e solver_option" where
  "WithRRSetTTL seconds s = (if 0 < seconds then s\<lparr>s_rrsetTTL := seconds\<rparr> else s)"

definition WithRequestBudget :: "duration \<Rightarrow> 'e solver_option" where
  "WithRequestBudget d s = (if 0 < sint d then s\<lparr>s_requestBudget := d\<rparr> else s)"

definition solver_WithClock :: "('e world \<Rightarrow> time) option \<Rightarrow> 'e solver_option" where
  "solver_WithClock nowf s = (case nowf of
     None \<Rightarrow> s
   | Some f \<Rightarrow> s\<lparr>s_now := f, s_zones := newZoneCache (zc_ttl (s_zones s)) (Some f)\<rparr>)"

text \<open>The methods of \<open>*hcloud.Client\<close> behind the interface.\<close>

definition as_HCloudClient :: "golib \<Rightarrow> 'e Client \<Rightarrow> 'e HCloudClient" where
  "as_HCloudClient lib c =
     \<lparr>hc_ListZones = ListZones lib c, hc_CreateRRSet = CreateRRSet lib c,
      hc_SetRRSetRecords = SetRRSetRecords lib c, hc_DeleteRRSet = DeleteRRSet lib c\<rparr>"

definition DefaultClientFactory :: "'e platform \<Rightarrow> logger option \<Rightarrow> 'e ClientFactory" where
  "DefaultClientFactory pf lg token =
     (let opts = (case lg of None \<Rightarrow> [] | Some l \<Rightarrow> [client_WithLogger (Some l)]) in
      case client_New (pf_http pf) (pf_pick pf) (Some (StaticToken token)) opts of
        Inl err \<Rightarrow> Inl err
      | Inr c \<Rightarrow> Inr (as_HCloudClient (pf_lib pf) c))"

text \<open>
  \<open>New\<close>. The factory field is nil until the end of the code's constructor; no option reads
  it, so the model starts with the default one for the default logger.
\<close>

definition solver_New :: "'e platform \<Rightarrow> 'e solver_option list \<Rightarrow> 'e Solver" where
  "solver_New pf opts =
     (let s0 = \<lparr>s_logger = slog_Default, s_clientFactory = DefaultClientFactory pf (Some slog_Default),
                s_secrets = None, s_zones = newZoneCache defaultZoneCacheTTL (Some now), s_now = now,
                s_rrsetTTL = defaultRRSetTTL, s_clientFactorySet = False,
                s_requestBudget = defaultRequestBudget, s_kubeConfig = None\<rparr>;
          s1 = foldl (\<lambda>s opt. opt s) s0 opts
      in if \<not> s_clientFactorySet s1
         then s1\<lparr>s_clientFactory := DefaultClientFactory pf (Some (s_logger s1))\<rparr> else s1)"

definition Name :: "'e Solver \<Rightarrow> string" where
  "Name s = SolverName"

definition Initialize :: "'e platform \<Rightarrow> 'e Solver \<Rightarrow> rest_Config option \<Rightarrow> goerr option \<times> 'e Solver" where
  "Initialize pf s kubeConfig = (case kubeConfig of
     None \<Rightarrow> (Some (ENew ''solver: Initialize called with nil rest.Config''), s)
   | Some rc \<Rightarrow>
       let s1 = s\<lparr>s_kubeConfig := Some rc\<rparr> in
       (case s_secrets s1 of
          Some g \<Rightarrow> (None, s1)
        | None \<Rightarrow>
            (case newKubeSecretGetter (pf_kube pf) (pf_NewForConfig pf) (Some rc) of
               Inl err \<Rightarrow> (Some err, s1)
             | Inr getter \<Rightarrow> (None, s1\<lparr>s_secrets := Some (GetToken (pf_uc pf) getter)\<rparr>))))"

section \<open>Helpers\<close>

definition wrapError :: "unicode \<Rightarrow> string \<Rightarrow> string \<Rightarrow> string \<Rightarrow> goerr \<Rightarrow> goerr" where
  "wrapError u stage credName zoneApex cause =
     EWrap (''solver: '' @ stage @ '' failed for credential '' @ Quote u credName @ '' zone '' @
            Quote u zoneApex @ '': '') cause []"

definition contextFor :: "'e Solver \<Rightarrow> 'e world \<Rightarrow> ctx" where
  "contextFor s w = WithTimeout Background (s_requestBudget s) (now w)"

definition quoteTXT :: "unicode \<Rightarrow> string \<Rightarrow> string" where
  "quoteTXT u key = Quote u key"

definition relativeRecordName :: "unicode \<Rightarrow> string \<Rightarrow> string \<Rightarrow> string" where
  "relativeRecordName u resolvedFQDN zoneApex =
     (let fqdn = ToLower u (TrimSuffix resolvedFQDN ''.'');
          apex = ToLower u zoneApex
      in if fqdn = apex then ''@''
         else if HasSuffix fqdn (''.'' @ apex) then TrimSuffix fqdn (''.'' @ apex)
         else defaultChallengeLabel)"

definition prepare ::
  "'e platform \<Rightarrow> 'e Solver \<Rightarrow> ctx \<Rightarrow> ChallengeRequest \<Rightarrow> 'e world
   \<Rightarrow> (Credential \<times> SecretRef \<times> 'e HCloudClient \<times> string) result \<times> 'e world" where
  "prepare pf s cx ch w =
     (case parseConfig (pf_lib pf) (pf_dsks pf) (ch_Config ch) (ch_ResourceNamespace ch) of
        Inl err \<Rightarrow> (Inl err, w)
      | Inr (routingCfg, secretRefs) \<Rightarrow>
          (case Resolve (pf_uc pf) (Some routingCfg) (ch_ResolvedFQDN ch) of
             Inl err \<Rightarrow>
               (Inl (EWrap (''solver: route FQDN '' @ Quote (pf_uc pf) (ch_ResolvedFQDN ch) @ '': '') err []), w)
           | Inr (cred, zoneApex) \<Rightarrow>
               (case secretRefs (cred_Name cred) of
                  None \<Rightarrow>
                    (Inl (ENew (''solver: internal error '' @ [chr 226, chr 128, chr 148] @
                       '' no secret ref for credential '' @ Quote (pf_uc pf) (cred_Name cred))), w)
                | Some secretRef \<Rightarrow>
                    (case s_secrets s of
                       None \<Rightarrow>
                         (Inl (ENew (''solver: not initialised '' @ [chr 226, chr 128, chr 148] @
                            '' Initialize() must be called before Present/CleanUp, or WithSecretGetter '' @
                            ''must be supplied'')), w)
                     | Some getToken \<Rightarrow>
                         (case getToken cx secretRef w of
                            (Inl err, w1) \<Rightarrow> (Inl err, w1)
                          | (Inr token, w1) \<Rightarrow>
                              (case s_clientFactory s token of
                                 Inl err \<Rightarrow> (Inl (EWrap ''solver: build hcloud client: '' err []), w1)
                               | Inr client \<Rightarrow> (Inr (cred, secretRef, client, zoneApex), w1)))))))"

definition not_found_error :: "unicode \<Rightarrow> string \<Rightarrow> goerr" where
  "not_found_error u zoneApex =
     EAPI \<lparr>StatusCode = 404, Code = ''not_found'',
       Message = ''zone '' @ Quote u zoneApex @
         '' not found via this credential'' @ [chr 39] @ ''s token; verify the zone lives in the Hetzner Cloud '' @
         ''project the credential points at'',
       RetryAfter = 0\<rparr>"

definition resolveZoneID ::
  "unicode \<Rightarrow> 'e Solver \<Rightarrow> ctx \<Rightarrow> 'e HCloudClient \<Rightarrow> string \<Rightarrow> string \<Rightarrow> 'e world
   \<Rightarrow> int64 result \<times> 'e Solver \<times> 'e world" where
  "resolveZoneID u s cx client secretRefKey zoneApex w =
     (case Lookup secretRefKey zoneApex w (s_zones s) of
        (Some i, zc) \<Rightarrow> (Inr i, s\<lparr>s_zones := zc\<rparr>, w)
      | (None, zc) \<Rightarrow>
          let s1 = s\<lparr>s_zones := zc\<rparr> in
          (case hc_ListZones client cx w of
             (Inl err, w1) \<Rightarrow> (Inl err, s1, w1)
           | (Inr zones, w1) \<Rightarrow>
               (case find (\<lambda>z. zone_Name z = zoneApex) zones of
                  Some z \<Rightarrow>
                    (Inr (zone_ID z),
                     s1\<lparr>s_zones := Store secretRefKey zoneApex (zone_ID z) w1 (s_zones s1)\<rparr>, w1)
                | None \<Rightarrow> (Inl (not_found_error u zoneApex), s1, w1))))"

definition reconcileExisting ::
  "unicode \<Rightarrow> 'e Solver \<Rightarrow> ctx \<Rightarrow> 'e HCloudClient \<Rightarrow> string \<Rightarrow> string \<Rightarrow> string \<Rightarrow> int64 \<Rightarrow> string
   \<Rightarrow> 'e world \<Rightarrow> goerr option \<times> 'e world" where
  "reconcileExisting u s cx client credName zoneApex recordName zoneID key w =
     (let req = \<lparr>srq_Records = [\<lparr>rec_Value = quoteTXT u key, rec_Comment = []\<rparr>]\<rparr> in
      case hc_SetRRSetRecords client cx zoneID recordName defaultRRSetType req w of
        (Inl err, w1) \<Rightarrow>
          (Some (wrapError u ''set existing RRSet records (conflict path)'' credName zoneApex err), w1)
      | (Inr _, w1) \<Rightarrow>
          (None, LogAttrs (s_logger s) LevelInfo ''solver: reconciled existing challenge RRSet''
             [AStr ''credential'' credName, AStr ''zone'' zoneApex, AStr ''record_name'' recordName,
              AInt ''zone_id'' (sint zoneID)] w1))"

section \<open>Present and CleanUp\<close>

definition create_request :: "unicode \<Rightarrow> 'e Solver \<Rightarrow> string \<Rightarrow> string \<Rightarrow> CreateRRSetRequest" where
  "create_request u s recordName key =
     \<lparr>crq_Name = recordName, crq_Type = defaultRRSetType, crq_TTL = Some (s_rrsetTTL s),
      crq_Records = [\<lparr>rec_Value = quoteTXT u key, rec_Comment = []\<rparr>], crq_Labels = []\<rparr>"

definition Present ::
  "'e platform \<Rightarrow> 'e Solver \<Rightarrow> ChallengeRequest option \<Rightarrow> 'e world
   \<Rightarrow> goerr option \<times> 'e Solver \<times> 'e world" where
  "Present pf s req w = (case req of
     None \<Rightarrow> (Some (ENew ''solver: Present called with nil ChallengeRequest''), s, w)
   | Some ch \<Rightarrow>
       let cx = contextFor s w; u = pf_uc pf in
       (case prepare pf s cx ch w of
          (Inl err, w1) \<Rightarrow> (Some err, s, w1)
        | (Inr (cred, secretRef, client, zoneApex), w1) \<Rightarrow>
            (case resolveZoneID u s cx client (SecretRef_String secretRef) zoneApex w1 of
               (Inl err, s2, w2) \<Rightarrow> (Some (wrapError u ''resolve zone'' (cred_Name cred) zoneApex err), s2, w2)
             | (Inr zoneID, s2, w2) \<Rightarrow>
                 let recordName = relativeRecordName u (ch_ResolvedFQDN ch) zoneApex in
                 (case hc_CreateRRSet client cx zoneID (create_request u s2 recordName (ch_Key ch)) w2 of
                    (Inr rrset, w3) \<Rightarrow>
                      (None, s2, LogAttrs (s_logger s2) LevelInfo ''solver: presented challenge''
                         [AStr ''credential'' (cred_Name cred), AStr ''zone'' zoneApex,
                          AStr ''record_name'' recordName, AInt ''zone_id'' (sint zoneID),
                          AStr ''rrset_id'' (rr_ID rrset)] w3)
                  | (Inl err, w3) \<Rightarrow>
                      if errors_Is err ErrConflict then
                        (case reconcileExisting u s2 cx client (cred_Name cred) zoneApex recordName zoneID
                                (ch_Key ch) w3 of
                           (r, w4) \<Rightarrow> (r, s2, w4))
                      else if errors_Is err ErrNotFound then
                        (Some (wrapError u ''create RRSet'' (cred_Name cred) zoneApex err),
                         s2\<lparr>s_zones := Invalidate (SecretRef_String secretRef) zoneApex (s_zones s2)\<rparr>, w3)
                      else (Some (wrapError u ''create RRSet'' (cred_Name cred) zoneApex err), s2, w3)))))"

definition CleanUp ::
  "'e platform \<Rightarrow> 'e Solver \<Rightarrow> ChallengeRequest option \<Rightarrow> 'e world
   \<Rightarrow> goerr option \<times> 'e Solver \<times> 'e world" where
  "CleanUp pf s req w = (case req of
     None \<Rightarrow> (Some (ENew ''solver: CleanUp called with nil ChallengeRequest''), s, w)
   | Some ch \<Rightarrow>
       let cx = contextFor s w; u = pf_uc pf in
       (case prepare pf s cx ch w of
          (Inl err, w1) \<Rightarrow> (Some err, s, w1)
        | (Inr (cred, secretRef, client, zoneApex), w1) \<Rightarrow>
            (case resolveZoneID u s cx client (SecretRef_String secretRef) zoneApex w1 of
               (Inl err, s2, w2) \<Rightarrow>
                 if errors_Is err ErrNotFound then
                   (None, s2, LogAttrs (s_logger s2) LevelInfo ''solver: cleanup no-op (zone not found)''
                      [AStr ''credential'' (cred_Name cred), AStr ''zone'' zoneApex] w2)
                 else (Some (wrapError u ''resolve zone'' (cred_Name cred) zoneApex err), s2, w2)
             | (Inr zoneID, s2, w2) \<Rightarrow>
                 let recordName = relativeRecordName u (ch_ResolvedFQDN ch) zoneApex in
                 (case hc_DeleteRRSet client cx zoneID recordName defaultRRSetType w2 of
                    (Inr _, w3) \<Rightarrow>
                      (None, s2, LogAttrs (s_logger s2) LevelInfo ''solver: cleaned up challenge''
                         [AStr ''credential'' (cred_Name cred), AStr ''zone'' zoneApex,
                          AStr ''record_name'' recordName, AInt ''zone_id'' (sint zoneID)] w3)
                  | (Inl err, w3) \<Rightarrow>
                      if errors_Is err ErrNotFound then
                        (None, s2, LogAttrs (s_logger s2) LevelInfo ''solver: cleanup no-op (RRSet already gone)''
                           [AStr ''credential'' (cred_Name cred), AStr ''zone'' zoneApex,
                            AStr ''record_name'' recordName] w3)
                      else (Some (wrapError u ''delete RRSet'' (cred_Name cred) zoneApex err), s2, w3)))))"

section \<open>The entry point\<close>

definition defaultGroupName :: string where
  "defaultGroupName = ''acme.hcloud-zones.cert-manager.io''"

definition envOrDefault :: "(string \<rightharpoonup> string) \<Rightarrow> string \<Rightarrow> string \<Rightarrow> string" where
  "envOrDefault env name fallback =
     (case env name of Some v \<Rightarrow> if v \<noteq> [] then v else fallback | None \<Rightarrow> fallback)"

text \<open>\<open>main\<close> hands the group name and a solver with default options to the webhook server.\<close>

definition main_args :: "'e platform \<Rightarrow> (string \<rightharpoonup> string) \<Rightarrow> string \<times> 'e Solver" where
  "main_args pf env = (envOrDefault env ''GROUP_NAME'' defaultGroupName, solver_New pf [])"

end
