(* ===== verification/Zone_Api.thy ===== *)
theory Zone_Api
  imports Solver Client_Guarantees
begin

text \<open>
  The contract of the interface \<open>HCloudClient\<close>, which the solver uses to talk to Hetzner, and
  its fulfilment by the client of package \<open>hcloud\<close>. A call of an endpoint sends one request,
  repeated as retries need, and nothing else; its result is what the last answer says.
\<close>

section \<open>The contract\<close>

text \<open>
  The exchanges between two moments; the attempts of one call, which all send the same request and
  of which each but the last got a retryable answer; and the answer to the last of them.
\<close>

definition exchange_log :: "'e world \<Rightarrow> 'e world \<Rightarrow> (http_request \<times> time \<times> answer) list \<Rightarrow> bool" where
  "exchange_log w w' xs \<longleftrightarrow> http_log (trace w') = http_log (trace w) @ exchanges xs"

definition attempts :: "http_request \<Rightarrow> (http_request \<times> time \<times> answer) list \<Rightarrow> bool" where
  "attempts rq xs \<longleftrightarrow> xs \<noteq> [] \<and> list_all (\<lambda>x. fst x = rq) xs \<and>
     list_all (\<lambda>x. retryable_answer (snd (snd x))) (butlast xs)"

definition final_answer :: "(http_request \<times> time \<times> answer) list \<Rightarrow> answer" where
  "final_answer xs = snd (snd (last xs))"

text \<open>The status of an answer; 0 if there is none.\<close>

definition status_of :: "answer \<Rightarrow> int" where
  "status_of a = (case a of Inl _ \<Rightarrow> 0 | Inr resp \<Rightarrow> rs_StatusCode resp)"

lemma exchange_log_refl [simp]: "exchange_log w w [] \<longleftrightarrow> True"
  by (simp add: exchange_log_def)

lemma exchange_log_trans: "exchange_log w w' xs \<Longrightarrow> exchange_log w' w'' ys \<Longrightarrow> exchange_log w w'' (xs @ ys)"
  by (simp add: exchange_log_def)

lemma exchange_log_LogAttrs [simp]: "exchange_log w (LogAttrs lg lvl msg at w') = exchange_log w w'"
  by (simp add: exchange_log_def fun_eq_iff)

lemma exchange_log_sent: "exchange_log w w' xs \<Longrightarrow> http_sent (trace w') = http_sent (trace w) @ map fst xs"
  unfolding exchange_log_def by (metis http_sent_append http_sent_exchanges http_sent_log)

lemma attempts_Pair:
  "attempts rq (map (Pair rq) xs) \<longleftrightarrow> xs \<noteq> [] \<and> list_all (retryable_answer \<circ> snd) (butlast xs)"
  by (auto simp: attempts_def list_all_iff map_butlast [symmetric])

lemma final_answer_Pair: "xs \<noteq> [] \<Longrightarrow> final_answer (map (Pair rq) xs) = snd (last xs)"
  by (simp add: final_answer_def last_map)

text \<open>
  The contract of a call: its exchanges are attempts of one request; it succeeds only if the last
  answer is a success, and reports a conflict or that something was not found only if the last
  answer had that status; it reads no Secret and, with a timely transport, keeps its deadline.
\<close>

definition api_call :: "http_request \<Rightarrow> bool \<Rightarrow> ctx \<Rightarrow> 'e world \<Rightarrow> 'a result \<Rightarrow> 'e world \<Rightarrow> bool" where
  "api_call rq timely cx w r w' \<longleftrightarrow>
     (\<exists>xs. exchange_log w w' xs \<and> (xs = [] \<or> attempts rq xs) \<and>
        (is_ok r \<longrightarrow> xs \<noteq> [] \<and> answered_ok (final_answer xs)) \<and>
        (\<forall>e. r = Inl e \<longrightarrow>
           (errors_Is e ErrConflict \<longrightarrow> xs \<noteq> [] \<and> status_of (final_answer xs) = 409) \<and>
           (errors_Is e ErrNotFound \<longrightarrow> xs \<noteq> [] \<and> status_of (final_answer xs) = 404))) \<and>
     secrets_read (trace w') = secrets_read (trace w) \<and> now w \<le> now w' \<and>
     (timely \<longrightarrow> by_deadline cx w (now w'))"

text \<open>\<open>request meth path body\<close> is the request the client builds; \<open>timely\<close> holds if its
  transport honours contexts.\<close>

locale zone_client =
  fixes api :: "'e HCloudClient"
    and request :: "string \<Rightarrow> string \<Rightarrow> string option \<Rightarrow> http_request"
    and timely :: bool
  assumes list_law: "hc_ListZones api cx w = (r1, w') \<Longrightarrow>
      api_call (request ''GET'' ''/v1/zones'' None) timely cx w r1 w'"
    and create_law: "hc_CreateRRSet api cx i rq w = (r2, w') \<Longrightarrow>
      api_call (request ''POST'' (zone_path i) (Some (json_print (marshal_CreateRRSetRequest rq)))) timely cx w r2 w'"
    and set_law: "hc_SetRRSetRecords api cx i n t srq w = (r3, w') \<Longrightarrow>
      api_call (request ''POST'' (rrset_path i n t @ ''/actions/set_records'')
        (Some (json_print (marshal_SetRRSetRecordsRequest srq)))) timely cx w r3 w'"
    and delete_law: "hc_DeleteRRSet api cx i n t w = (r4, w') \<Longrightarrow>
      api_call (request ''DELETE'' (rrset_path i n t) None) timely cx w r4 w'"

section \<open>The client fulfils it\<close>

lemma client_do_bad_url:
  assumes "cl_token c = StaticToken tok" and "url_ParseError lib (cl_baseURL c @ path) = Some e"
    and "0 \<le> cl_maxRetries c"
  shows "client_do lib c cx meth path body out zero w =
    (Inl (EWrap ''hcloud: build request: '' (EExt e) []), w)"
  using assms
  by (simp add: client_do_def do_loop.simps [of _ _ _ _ _ _ _ _ 0] before_attempt_def doOnce_def
      StaticToken_def isRetryable_def)

lemma concluded_status:
  assumes "concluded lib meth path (Inl e) x" and "errors_Is e t"
  shows "e = answer_error lib x" and "APIError_Is (the (errors_As e)) t" and "StatusCode (the (errors_As e)) = status_of (snd x)"
  using assms by (auto simp: concluded_def answer_error_def status_of_def split: if_splits sum.splits)

lemma client_do_api_call:
  assumes "client_env c tok" and "client_inv c"
    and "client_do lib c cx meth path body out zero w = (r, w')"
  shows "api_call (make_request c meth path (map_option json_print body) tok)
    (honours_ctx (cl_httpClient c)) cx w r w'"
proof (cases "url_ParseError lib (cl_baseURL c @ path)")
  case None
  let ?rq = "make_request c meth path (map_option json_print body) tok"
  have nn: "0 \<le> cl_maxRetries c" using assms(2) by (simp add: client_inv_def)
  with client_env.do_loop_answers [OF assms(1) None assms(3) [unfolded client_do_def]]
  obtain xs where xs: "http_log (trace w') = http_log (trace w) @ exchanges (map (Pair ?rq) xs)" "xs \<noteq> []"
      "list_all (retryable_answer \<circ> snd) (if interrupted r then xs else butlast xs)"
      "\<not> interrupted r \<Longrightarrow> concluded lib meth path r (last xs)"
    by (auto split: if_splits)
  have "list_all (retryable_answer \<circ> snd) (butlast xs)"
    using xs(3) by (auto simp: list_all_iff split: if_splits dest: in_set_butlastD)
  with xs(2) have att: "attempts ?rq (map (Pair ?rq) xs)" by (simp add: attempts_Pair)
  have status: "APIError_Is (the (errors_As e)) t \<and> StatusCode (the (errors_As e)) = status_of (snd (last xs))"
    if "r = Inl e" "errors_Is e t" for e t
  proof -
    have "\<not> interrupted r" using that by (auto simp: interrupted_def)
    from xs(4) [OF this] have "concluded lib meth path r (last xs)" .
    from concluded_status(2,3) [OF this [unfolded that(1)] that(2)] show ?thesis by blast
  qed
  have "answered_ok (snd (last xs))" if "is_ok r"
    using xs(4) that by (cases r) (auto simp: interrupted_def is_ok_def concluded_def split: if_splits)
  moreover have "status_of (snd (last xs)) = 409" if "r = Inl e" "errors_Is e ErrConflict" for e
    using status [OF that] by (simp add: APIError_Is_def)
  moreover have "status_of (snd (last xs)) = 404" if "r = Inl e" "errors_Is e ErrNotFound" for e
    using status [OF that] by (simp add: APIError_Is_def)
  moreover have "secrets_read (trace w') = secrets_read (trace w) \<and> now w \<le> now w' \<and>
      (honours_ctx (cl_httpClient c) \<longrightarrow> by_deadline cx w (now w'))"
    using client_env.do_loop_outcome [OF assms(1) None assms(3) [unfolded client_do_def]] nn by auto
  ultimately show ?thesis
    unfolding api_call_def exchange_log_def using xs(1,2) att
    by (intro conjI exI [of _ "map (Pair ?rq) xs"]) (simp_all add: final_answer_Pair)
next
  case (Some e)
  with assms client_do_bad_url [of c tok lib path e cx meth body out zero w] show ?thesis
    by (auto simp: api_call_def client_inv_def client_env_def is_ok_def intro!: exI [of _ "[]"])
qed

lemma api_call_map:
  "api_call rq timely cx w r w' \<Longrightarrow> is_ok r' = is_ok r \<Longrightarrow> (\<And>e. r' = Inl e \<Longrightarrow> r = Inl e) \<Longrightarrow> api_call rq timely cx w r' w'"
  unfolding api_call_def by (elim conjE exE) (intro conjI exI, assumption, auto)

lemma zone_client_New:
  assumes "client_env c tok" and "client_inv c"
  shows "zone_client (as_HCloudClient lib c) (\<lambda>m p b. make_request c m p b tok) (honours_ctx (cl_httpClient c))"
proof unfold_locales
  fix cx w r w'
  assume "hc_ListZones (as_HCloudClient lib c) cx w = (r, w')"
  then obtain r0 where "client_do lib c cx ''GET'' ''/v1/zones'' None (Some (dec_listZonesResponse lib))
      zero_listZonesResponse w = (r0, w')" and "is_ok r = is_ok r0" and "\<And>e. r = Inl e \<Longrightarrow> r0 = Inl e"
    by (auto simp: as_HCloudClient_def ListZones_def is_ok_def split: prod.splits sum.splits)
  from api_call_map [OF client_do_api_call [OF assms this(1)] this(2,3)]
  show "api_call (make_request c ''GET'' ''/v1/zones'' None tok) (honours_ctx (cl_httpClient c)) cx w r w'"
    by simp
next
  fix cx i n t srq w r w'
  assume "hc_SetRRSetRecords (as_HCloudClient lib c) cx i n t srq w = (r, w')"
  from client_do_api_call [OF assms this [simplified as_HCloudClient_def, simplified, unfolded SetRRSetRecords_def]]
  show "api_call (make_request c ''POST'' (rrset_path i n t @ ''/actions/set_records'')
      (Some (json_print (marshal_SetRRSetRecordsRequest srq))) tok) (honours_ctx (cl_httpClient c)) cx w r w'"
    by simp
next
  fix cx i rq w r w'
  assume "hc_CreateRRSet (as_HCloudClient lib c) cx i rq w = (r, w')"
  from client_do_api_call [OF assms this [simplified as_HCloudClient_def, simplified, unfolded CreateRRSet_def]]
  show "api_call (make_request c ''POST'' (zone_path i)
      (Some (json_print (marshal_CreateRRSetRequest rq))) tok) (honours_ctx (cl_httpClient c)) cx w r w'"
    by simp
next
  fix cx i n t w r w'
  assume "hc_DeleteRRSet (as_HCloudClient lib c) cx i n t w = (r, w')"
  from client_do_api_call [OF assms this [simplified as_HCloudClient_def, simplified, unfolded DeleteRRSet_def]]
  show "api_call (make_request c ''DELETE'' (rrset_path i n t) None tok) (honours_ctx (cl_httpClient c)) cx w r w'"
    by simp
qed

interpretation production_api: zone_client
  "as_HCloudClient lib (default_client http pick lg tok)"
  "\<lambda>m p b. make_request (default_client http pick lg tok) m p b tok" "honours_ctx http"
  for lib http pick lg tok
  using zone_client_New [OF production.client_env_axioms default_client_inv, of lib http pick lg tok]
  by (simp add: default_client_def)

lemma DefaultClientFactory_eq:
  "DefaultClientFactory pf (Some lg) tok =
     Inr (as_HCloudClient (pf_lib pf) (default_client (pf_http pf) (pf_pick pf) lg tok))"
  by (simp add: DefaultClientFactory_def client_New_default)

section \<open>Effects of sequences of calls\<close>

text \<open>Between \<open>w\<close> and \<open>w'\<close> the program sent requests of a given kind only, read no Secret, and
  finished in time.\<close>

definition calls :: "(http_request \<Rightarrow> bool) \<Rightarrow> bool \<Rightarrow> ctx \<Rightarrow> 'e world \<Rightarrow> 'e world \<Rightarrow> bool" where
  "calls P timely cx w w' \<longleftrightarrow>
     (\<exists>rs. http_sent (trace w') = http_sent (trace w) @ rs \<and> list_all P rs) \<and>
     secrets_read (trace w') = secrets_read (trace w) \<and> now w \<le> now w' \<and>
     (timely \<longrightarrow> by_deadline cx w (now w'))"

lemma calls_refl: "calls P timely cx w w"
  by (simp add: calls_def)

lemma calls_trans: "calls P timely cx w w' \<Longrightarrow> calls P timely cx w' w'' \<Longrightarrow> calls P timely cx w w''"
  by (fastforce simp: calls_def intro: by_deadline_trans)

lemma calls_LogAttrs: "calls P timely cx w w' \<Longrightarrow> calls P timely cx w (LogAttrs lg lvl msg at w')"
  by (simp add: calls_def)

lemma api_call_calls:
  assumes "api_call rq timely cx w r w'" and "P rq"
  shows "calls P timely cx w w'"
proof -
  obtain xs where xs: "exchange_log w w' xs" "xs = [] \<or> attempts rq xs"
    using assms(1) unfolding api_call_def by blast
  have "list_all P (map fst xs)" using xs(2) assms(2) by (auto simp: attempts_def list_all_iff)
  with exchange_log_sent [OF xs(1)] assms(1) show ?thesis unfolding api_call_def calls_def by blast
qed

lemma api_call_ok:
  assumes "api_call rq timely cx w r w'" and "is_ok r"
  obtains xs where "exchange_log w w' xs" and "attempts rq xs" and "answered_ok (final_answer xs)"
  using assms unfolding api_call_def by blast

lemma api_call_conflict:
  assumes "api_call rq timely cx w (Inl e) w'" and "errors_Is e ErrConflict"
  obtains xs where "exchange_log w w' xs" and "attempts rq xs" and "status_of (final_answer xs) = 409"
  using assms unfolding api_call_def by blast

lemma api_call_not_found:
  assumes "api_call rq timely cx w (Inl e) w'" and "errors_Is e ErrNotFound"
  obtains xs where "exchange_log w w' xs" and "attempts rq xs" and "status_of (final_answer xs) = 404"
  using assms unfolding api_call_def by blast

end
