(* ===== verification/Config_Correct.thy ===== *)
theory Config_Correct
  imports Config Client_Guarantees
begin

text \<open>
  Correctness of the configuration layer: which secret a credential refers to, exactly when
  \<open>parseConfig\<close> accepts a configuration and what it returns, and that the textual form of a
  secret reference, the key of the zone cache, identifies it.
\<close>

section \<open>Secret references\<close>

text \<open>The reference a credential means: its own namespace or else the default one, and the key
  \<open>token\<close> unless it names another.\<close>

definition or_default :: "string \<Rightarrow> string \<Rightarrow> string" where
  "or_default s d = (if TrimSpace s = [] then d else TrimSpace s)"

definition meant_ref :: "string \<Rightarrow> CredentialConfig \<Rightarrow> SecretRef" where
  "meant_ref ns c =
     \<lparr>sr_Namespace = or_default (cc_Namespace c) (TrimSpace ns),
      sr_Name = TrimSpace (sks_Name (cc_APITokenSecretRef c)),
      sr_Key = or_default (sks_Key (cc_APITokenSecretRef c)) ''token''\<rparr>"

definition ref_ok :: "SecretRef \<Rightarrow> bool" where
  "ref_ok r \<longleftrightarrow> sr_Name r \<noteq> [] \<and> sr_Namespace r \<noteq> []"

lemma resolveSecretRef_iff:
  "resolveSecretRef u c ns i = Inr r \<longleftrightarrow> r = meant_ref ns c \<and> ref_ok r"
  unfolding resolveSecretRef_def Let_def guards
  by (auto simp: meant_ref_def or_default_def ref_ok_def)

lemma resolveSecretRef_ok: "ref_ok (meant_ref ns c) \<Longrightarrow> resolveSecretRef u c ns i = Inr (meant_ref ns c)"
  by (simp add: resolveSecretRef_iff)

lemma resolveSecretRef_fails: "\<not> ref_ok (meant_ref ns c) \<Longrightarrow> \<exists>e. resolveSecretRef u c ns i = Inl e"
  using resolveSecretRef_iff [of u c ns i] by (cases "resolveSecretRef u c ns i") auto

section \<open>parseConfig\<close>

text \<open>The routing credential made of a configured one.\<close>

definition routing_cred :: "string \<Rightarrow> CredentialConfig \<Rightarrow> Credential" where
  "routing_cred ns c = \<lparr>cred_Name = cc_Name c, cred_Zones = cc_Zones c,
     cred_APITokenSecretRef = SecretRef_String (meant_ref ns c)\<rparr>"

definition meant_refs :: "string \<Rightarrow> CredentialConfig list \<Rightarrow> (string \<times> SecretRef) list" where
  "meant_refs ns cs = map (\<lambda>c. (cc_Name c, meant_ref ns c)) cs"

lemma convert_creds_iff:
  "convert_creds u ns i cs rcs refs = Inr (rcs', refs') \<longleftrightarrow>
     list_all (\<lambda>c. ref_ok (meant_ref ns c)) cs \<and> rcs' = rcs @ map (routing_cred ns) cs \<and>
     refs' = refs ++ map_of (rev (meant_refs ns cs))"
proof (induction cs arbitrary: i rcs refs)
  case (Cons c cs)
  show ?case
  proof (cases "ref_ok (meant_ref ns c)")
    case True
    have "refs ++ map_of (rev (meant_refs ns (c # cs))) =
        refs(cc_Name c \<mapsto> meant_ref ns c) ++ map_of (rev (meant_refs ns cs))"
      by (simp add: meant_refs_def)
    with True show ?thesis
      unfolding convert_creds.simps resolveSecretRef_ok [OF True] sum.case Cons.IH
      by (simp add: routing_cred_def [of ns c])
  next
    case False
    with resolveSecretRef_fails [of ns c u "int i"] show ?thesis by auto
  qed
qed (auto simp: meant_refs_def)

lemma map_of_rev_distinct: "distinct (map fst xs) \<Longrightarrow> map_of (rev xs) = map_of xs"
  by (subst map_of_inject_set) (simp_all add: rev_map [symmetric])

lemma parseConfig_iff:
  "parseConfig lib dsks raw ns = Inr (conf, refs) \<longleftrightarrow>
     (\<exists>bytes c. raw = Some bytes \<and> bytes \<noteq> [] \<and>
        json_Unmarshal lib (dec_solver_Config lib dsks) \<lparr>cfg_Credentials = []\<rparr> bytes = Inr c \<and>
        list_all (\<lambda>cc. ref_ok (meant_ref ns cc)) (cfg_Credentials c) \<and>
        conf = \<lparr>Credentials = map (routing_cred ns) (cfg_Credentials c)\<rparr> \<and>
        config_ok (lib_unicode lib) (Credentials conf) \<and>
        refs = map_of (meant_refs ns (cfg_Credentials c)))"
  (is "?L \<longleftrightarrow> (\<exists>bytes c. ?R bytes c)")
proof -
  have *: "map_of (rev (meant_refs ns cs)) = map_of (meant_refs ns cs)"
    if "config_ok u (map (routing_cred ns) cs)" for u cs
    using that by (intro map_of_rev_distinct) (simp add: config_ok_def meant_refs_def routing_cred_def o_def)
  have conv: "convert_creds u ns 0 cs [] Map.empty =
      Inr (map (routing_cred ns) cs, map_of (rev (meant_refs ns cs)))"
    if "list_all (\<lambda>cc. ref_ok (meant_ref ns cc)) cs" for u cs
    using that by (simp add: convert_creds_iff)
  have valid: "ValidateConfig u (Some \<lparr>Credentials = rcs\<rparr>) = None" if "config_ok u rcs" for u rcs
    using that by (simp add: ValidateConfig_iff)
  show ?thesis
  proof
    assume ?L
    then show "\<exists>bytes c. ?R bytes c"
      unfolding parseConfig_def
      by (auto simp: convert_creds_iff ValidateConfig_iff * split: option.splits sum.splits if_splits)
  next
    assume "\<exists>bytes c. ?R bytes c"
    then show ?L
      by (auto simp: parseConfig_def conv valid * config_ok_def [of _ "[]"])
  qed
qed

text \<open>The two maps \<open>parseConfig\<close> returns agree: every routing credential has a reference, with
  the text the credential carries.\<close>

lemma parseConfig_refs:
  assumes "parseConfig lib dsks raw ns = Inr (conf, refs)" and "cr \<in> set (Credentials conf)"
  shows "\<exists>r. refs (cred_Name cr) = Some r \<and> ref_ok r \<and> cred_APITokenSecretRef cr = SecretRef_String r"
proof -
  obtain c :: solver_Config where c: "list_all (\<lambda>cc. ref_ok (meant_ref ns cc)) (cfg_Credentials c)"
      "conf = \<lparr>Credentials = map (routing_cred ns) (cfg_Credentials c)\<rparr>"
      "config_ok (lib_unicode lib) (Credentials conf)"
      "refs = map_of (meant_refs ns (cfg_Credentials c))"
    using assms(1) unfolding parseConfig_iff by blast
  obtain cc where cc: "cc \<in> set (cfg_Credentials c)" "cr = routing_cred ns cc"
    using assms(2) c(2) by auto
  have "distinct (map fst (meant_refs ns (cfg_Credentials c)))"
    using c(2,3) by (simp add: config_ok_def meant_refs_def routing_cred_def o_def)
  moreover have "(cc_Name cc, meant_ref ns cc) \<in> set (meant_refs ns (cfg_Credentials c))"
    using cc(1) by (auto simp: meant_refs_def)
  ultimately have "refs (cred_Name cr) = Some (meant_ref ns cc)"
    using c(4) cc(2) by (simp add: routing_cred_def)
  with c(1) cc show ?thesis by (auto simp: routing_cred_def list_all_iff)
qed

section \<open>The text of a reference\<close>

lemma append_sep_inj:
  "x \<notin> set a \<Longrightarrow> x \<notin> set b \<Longrightarrow> a @ x # r = b @ x # t \<Longrightarrow> a = b \<and> r = t"
proof -
  assume ab: "x \<notin> set a" "x \<notin> set b" and eq: "a @ x # r = b @ x # t"
  have "takeWhile (\<lambda>y. y \<noteq> x) (a @ x # r) = a" "takeWhile (\<lambda>y. y \<noteq> x) (b @ x # t) = b"
    using ab by (auto simp: takeWhile_append takeWhile_eq_Nil_iff)
  with eq show ?thesis by auto
qed

lemma SecretRef_String_inj:
  assumes "SecretRef_String r = SecretRef_String s"
    and "CHR ''/'' \<notin> set (sr_Namespace r)" "CHR ''/'' \<notin> set (sr_Namespace s)"
    and "CHR ''#'' \<notin> set (sr_Name r)" "CHR ''#'' \<notin> set (sr_Name s)"
  shows "r = s"
proof -
  from append_sep_inj [OF assms(2,3)] assms(1)
  have "sr_Namespace r = sr_Namespace s" "sr_Name r @ ''#'' @ sr_Key r = sr_Name s @ ''#'' @ sr_Key s"
    by (auto simp: SecretRef_String_def)
  with append_sep_inj [OF assms(4,5)] show ?thesis by auto
qed

section \<open>A sample configuration\<close>

text \<open>A decoder of \<open>SecretKeySelector\<close> with the JSON field names of cert-manager's type.\<close>

definition sample_dsks :: "SecretKeySelector decoder" where
  "sample_dsks = dec_struct sample_lib ''SecretKeySelector''
     [(''name'', dec_field sks_Name (\<lambda>x c. c\<lparr>sks_Name := x\<rparr>) (dec_string sample_lib ''name'')),
      (''key'', dec_field sks_Key (\<lambda>x c. c\<lparr>sks_Key := x\<rparr>) (dec_string sample_lib ''key''))]"

definition sample_bytes :: string where
  "sample_bytes = ''{\"credentials\":[{\"name\":\"a\",\"zones\":[\"example.com\"],'' @
     ''\"apiTokenSecretRef\":{\"name\":\"tok\"}}]}''"

definition sample_cc :: CredentialConfig where
  "sample_cc = \<lparr>cc_Name = ''a'', cc_Zones = [''example.com''],
     cc_APITokenSecretRef = \<lparr>sks_Name = ''tok'', sks_Key = []\<rparr>, cc_Namespace = []\<rparr>"

definition sample_conf :: routing_Config where
  "sample_conf = \<lparr>Credentials = [\<lparr>cred_Name = ''a'', cred_Zones = [''example.com''],
     cred_APITokenSecretRef = ''ns/tok#token''\<rparr>]\<rparr>"

definition sample_ref :: SecretRef where
  "sample_ref = \<lparr>sr_Namespace = ''ns'', sr_Name = ''tok'', sr_Key = ''token''\<rparr>"

lemma sample_unmarshal:
  "json_Unmarshal sample_lib (dec_solver_Config sample_lib sample_dsks) \<lparr>cfg_Credentials = []\<rparr> sample_bytes =
     Inr \<lparr>cfg_Credentials = [sample_cc]\<rparr>"
  by code_simp

lemma parseConfig_single:
  assumes "json_Unmarshal lib (dec_solver_Config lib dsks) \<lparr>cfg_Credentials = []\<rparr> raw = Inr \<lparr>cfg_Credentials = [cc]\<rparr>"
    and "raw \<noteq> []" and "ref_ok (meant_ref ns cc)" and "config_ok (lib_unicode lib) [routing_cred ns cc]"
  shows "parseConfig lib dsks (Some raw) ns = Inr (\<lparr>Credentials = [routing_cred ns cc]\<rparr>, [cc_Name cc \<mapsto> meant_ref ns cc])"
  unfolding parseConfig_iff using assms by (intro exI [of _ raw] exI [of _ "\<lparr>cfg_Credentials = [cc]\<rparr>"]) (simp add: meant_refs_def)

lemma sample_meant_ref: "meant_ref ''ns'' sample_cc = sample_ref"
  by (simp add: meant_ref_def sample_cc_def or_default_def sample_ref_def go_defs)

lemma sample_parse:
  "parseConfig sample_lib sample_dsks (Some sample_bytes) ''ns'' = Inr (sample_conf, [''a'' \<mapsto> sample_ref])"
proof -
  have cred: "routing_cred ''ns'' sample_cc = hd (Credentials sample_conf)"
    by (simp add: routing_cred_def sample_meant_ref)
      (simp add: sample_ref_def sample_cc_def sample_conf_def SecretRef_String_def)
  have "config_ok u [hd (Credentials sample_conf)]" for u
    by (simp add: sample_conf_def go_defs)
  with parseConfig_single [OF sample_unmarshal, of "''ns''"] show ?thesis
    by (simp add: cred sample_meant_ref ref_ok_def sample_ref_def sample_bytes_def)
      (simp add: sample_conf_def sample_cc_def)
qed

section \<open>Properties\<close>

text \<open>
  C17: \<open>parseConfig\<close> accepts a configuration exactly when it is a non-empty document that
  decodes, every credential names a secret and has a namespace (its own or the one supplied by
  cert-manager), and the resulting routing configuration is valid; it then returns the
  credentials in their order, each with the reference its own fields and the defaults mean.
\<close>

theorem parse_config_correct:
  "parseConfig lib dsks raw ns = Inr (conf, refs) \<longleftrightarrow>
     (\<exists>bytes c. raw = Some bytes \<and> bytes \<noteq> [] \<and>
        json_Unmarshal lib (dec_solver_Config lib dsks) \<lparr>cfg_Credentials = []\<rparr> bytes = Inr c \<and>
        list_all (\<lambda>cc. ref_ok (meant_ref ns cc)) (cfg_Credentials c) \<and>
        conf = \<lparr>Credentials = map (routing_cred ns) (cfg_Credentials c)\<rparr> \<and>
        config_ok (lib_unicode lib) (Credentials conf) \<and>
        refs = map_of (meant_refs ns (cfg_Credentials c)))"
  by (rule parseConfig_iff)

text \<open>
  C21: the internal-error branch of \<open>prepare\<close> is dead: whatever credential the routing layer
  picks from a parsed configuration has a secret reference in the map, the one whose text the
  credential carries, with a name, a namespace and no other candidate of that name.
\<close>

theorem routed_credential_has_ref:
  assumes "parseConfig lib dsks raw ns = Inr (conf, refs)"
    and "Resolve (lib_unicode lib) (Some conf) fqdn = Inr (cr, apex)"
  shows "\<exists>r. refs (cred_Name cr) = Some r \<and> ref_ok r \<and> cred_APITokenSecretRef cr = SecretRef_String r \<and>
     {d \<in> set (Credentials conf). cred_Name d = cred_Name cr} = {cr}"
proof -
  have "ValidateConfig (lib_unicode lib) (Some conf) = None"
    using assms(1) by (auto simp: parseConfig_iff ValidateConfig_iff)
  then have "{d \<in> set (Credentials conf). cred_Name d = cred_Name cr} = {cr}"
    using routes.name_identifies [OF _ assms(2)] routes.resolve_member [OF assms(2)] by auto
  with parseConfig_refs [OF assms(1) routes.resolve_member [OF assms(2)]] show ?thesis by auto
qed

theorem routed_credential_has_ref_witness:
  "\<exists>r. [''a'' \<mapsto> sample_ref] ''a'' = Some r \<and> ref_ok r"
proof -
  have "Resolve (lib_unicode sample_lib) (Some sample_conf) ''example.com'' =
      Inr (hd (Credentials sample_conf), ''example.com'')"
    by code_simp
  from routed_credential_has_ref [OF sample_parse this] show ?thesis
    by (simp add: sample_conf_def)
qed

text \<open>
  The text of a reference, the key of the zone cache, identifies it: two references with
  the same text are equal when namespaces have no slash and names no hash sign, which
  Kubernetes guarantees for both.
\<close>

theorem secret_ref_text_identifies:
  assumes "CHR ''/'' \<notin> set (sr_Namespace r)" and "CHR ''/'' \<notin> set (sr_Namespace s)"
    and "CHR ''#'' \<notin> set (sr_Name r)" and "CHR ''#'' \<notin> set (sr_Name s)"
  shows "SecretRef_String r = SecretRef_String s \<longleftrightarrow> r = s"
  using SecretRef_String_inj [OF _ assms] by auto

theorem secret_ref_text_identifies_witness:
  "SecretRef_String sample_ref = SecretRef_String (sample_ref\<lparr>sr_Key := ''x''\<rparr>) \<longleftrightarrow>
   sample_ref = sample_ref\<lparr>sr_Key := ''x''\<rparr>"
  by (rule secret_ref_text_identifies) (simp_all add: sample_ref_def)

end
