(* ===== verification/Record_Name.thy ===== *)
theory Record_Name
  imports Solver Config_Correct
begin

text \<open>
  The record a challenge is written to. Hetzner addresses a record set by the zone and a name
  relative to its apex; \<open>relativeRecordName\<close> computes that name from the challenge FQDN and
  the apex the routing layer picked. The two components have to agree: put together again,
  name and apex must give the FQDN the validation server will ask for.
\<close>

section \<open>The name a record set answers to\<close>

definition record_fqdn :: "string \<Rightarrow> string \<Rightarrow> string" where
  "record_fqdn name apex = (if name = ''@'' then apex else name @ ''.'' @ apex)"

definition challenge_name :: "string \<Rightarrow> string" where
  "challenge_name fqdn = map ascii_lower (TrimSuffix fqdn ''.'')"

lemma TrimSuffix_map_lower: "TrimSuffix (map ascii_lower f) ''.'' = map ascii_lower (TrimSuffix f ''.'')"
  by (auto simp: TrimSuffix_def HasSuffix_single last_map take_map)

lemma under_challenge_name:
  assumes "ascii f" and "no_outer_space f" and "under apex (normaliseFQDN u f)"
  shows "under apex (challenge_name f)"
proof (cases "HasPrefix (challenge_name f) acmeChallengePrefix")
  case True
  then obtain n where n: "challenge_name f = acmeChallengePrefix @ n"
    by (auto simp: HasPrefix_iff)
  then have "normaliseFQDN u f = n"
    using assms(1,2) by (simp add: normaliseFQDN_ascii TrimSpace_id TrimSuffix_map_lower challenge_name_def)
  with assms(3) n show ?thesis
    by (auto simp: under_def acmeChallengePrefix_def)
next
  case False
  then have "normaliseFQDN u f = challenge_name f"
    using assms(1,2)
    by (simp add: normaliseFQDN_ascii TrimSpace_id TrimSuffix_map_lower challenge_name_def TrimPrefix_id)
  with assms(3) show ?thesis by simp
qed

lemma ascii_TrimSuffix: "ascii f \<Longrightarrow> ascii (TrimSuffix f p)"
  by (auto simp: ascii_def TrimSuffix_def list_all_iff dest: in_set_takeD)

lemma relativeRecordName_ascii:
  assumes "ascii f" and "ascii apex" and "map ascii_lower apex = apex"
  shows "relativeRecordName u f apex =
    (if challenge_name f = apex then ''@''
     else if HasSuffix (challenge_name f) (''.'' @ apex) then TrimSuffix (challenge_name f) (''.'' @ apex)
     else defaultChallengeLabel)"
  using assms by (simp add: relativeRecordName_def challenge_name_def ascii_TrimSuffix Let_def)

lemma relativeRecordName_under:
  assumes "ascii f" and "ascii apex" and "map ascii_lower apex = apex" and "under apex (challenge_name f)"
    and "CHR ''@'' \<notin> set f"
  shows "record_fqdn (relativeRecordName u f apex) apex = challenge_name f"
proof (cases "challenge_name f = apex")
  case True
  then show ?thesis using assms by (simp add: relativeRecordName_ascii record_fqdn_def)
next
  case False
  then obtain q where q: "challenge_name f = q @ ''.'' @ apex"
    using assms(4) by (auto simp: under_def)
  have "CHR ''@'' \<notin> set (challenge_name f)"
  proof
    assume "CHR ''@'' \<in> set (challenge_name f)"
    then obtain c where "c \<in> set f" "ascii_lower c = CHR ''@''"
      by (fastforce simp: challenge_name_def TrimSuffix_def split: if_splits dest: in_set_takeD)
    with assms(5) ascii_lower_eq_iff [of "CHR ''@''" c] show False by auto
  qed
  with q have "q \<noteq> ''@''" by auto
  moreover have "relativeRecordName u f apex = q"
    using False q assms(1-3) TrimSuffix_append [of q "''.'' @ apex"]
    by (simp add: relativeRecordName_ascii HasSuffix_iff)
  ultimately show ?thesis using q by (simp add: record_fqdn_def)
qed

section \<open>Properties\<close>

text \<open>
  C8: the record is written where the challenge is looked up. For every challenge FQDN the
  routing layer accepts (ASCII, without surrounding white space or an at sign), the relative
  name together with the apex chosen is that FQDN, lower-cased and without its final dot: in
  particular for certificates of subdomains at any depth, and never through the fallback.
\<close>

theorem record_at_challenge_fqdn:
  assumes "ValidateConfig u (Some conf) = None"
    and "Resolve u (Some conf) fqdn = Inr (cr, apex)"
    and "ascii fqdn" and "no_outer_space fqdn" and "CHR ''@'' \<notin> set fqdn"
  shows "record_fqdn (relativeRecordName u fqdn apex) apex = map ascii_lower (TrimSuffix fqdn ''.'')"
  using relativeRecordName_under [OF assms(3) _ _ _ assms(5)]
    routes.apex_lower [OF assms(1,2)] under_challenge_name [OF assms(3,4) routes.resolve_under [OF assms(2)]]
  by (simp add: challenge_name_def)

theorem record_at_challenge_fqdn_witness:
  "record_fqdn (relativeRecordName sample_unicode ''_acme-challenge.Bar.foo.example.com.'' ''example.com'')
     ''example.com'' = ''_acme-challenge.bar.foo.example.com''"
proof -
  have "Resolve sample_unicode (Some sample_conf) ''_acme-challenge.Bar.foo.example.com.'' =
      Inr (hd (Credentials sample_conf), ''example.com'')"
    by code_simp
  moreover have "ValidateConfig sample_unicode (Some sample_conf) = None"
    by (simp add: ValidateConfig_iff sample_conf_def go_defs)
  ultimately show ?thesis
    using record_at_challenge_fqdn [of sample_unicode sample_conf "''_acme-challenge.Bar.foo.example.com.''"]
    by (simp add: ascii_def go_defs TrimSuffix_def)
qed

lemma apex_last_no_space:
  assumes "ValidateConfig u (Some conf) = None" and "Resolve u (Some conf) fqdn = Inr (cr, apex)"
  shows "apex \<noteq> [] \<and> \<not> IsSpace (byte (last apex))"
proof -
  obtain z where z: "zone_ok z" "apex = map ascii_lower z"
    using valid_apex [OF _ assms(2)] assms(1) by (auto simp: ValidateConfig_iff)
  have "z \<noteq> []" using z(1) by (rule zone_ok_nonempty)
  have "list_all (\<lambda>l. list_all ldh l) (Split1 z (CHR ''.''))"
    using z(1) by (simp add: zone_ok_def list_all_iff)
  then have "list_all (\<lambda>c. zone_rune_ok (byte c)) z" by (simp only: Split1_set zone_rune_ok_ldh)
  then have "zone_rune_ok (byte (last z))" using \<open>z \<noteq> []\<close> by (simp add: list_all_iff)
  then have "\<not> IsSpace (byte (last z))" "\<not> IsSpace (byte (ascii_lower (last z)))"
    by (auto simp: zone_rune_ok_def IsSpace_def ascii_lower_def)
  with \<open>z \<noteq> []\<close> z(2) show ?thesis by (simp add: last_map)
qed

lemma ascii_lower_space: "IsSpace (byte c) \<Longrightarrow> ascii_lower c = c"
  by (auto simp: IsSpace_def ascii_lower_def)

text \<open>
  C37: the proviso on white space is needed. The routing layer trims it, \<open>relativeRecordName\<close> does
  not. Whatever the accepted configuration and whatever ASCII FQDN it routes: if the FQDN ends in
  white space, its record gets the name \<open>_acme-challenge\<close> below the apex, even if the challenge is
  for a subdomain.
\<close>

theorem trailing_space_misplaces_record:
  assumes "ValidateConfig u (Some conf) = None"
    and "Resolve u (Some conf) fqdn = Inr (cr, apex)"
    and "ascii fqdn" and "fqdn \<noteq> []" and "IsSpace (byte (last fqdn))"
  shows "record_fqdn (relativeRecordName u fqdn apex) apex = ''_acme-challenge.'' @ apex"
proof -
  have "last fqdn \<noteq> CHR ''.''" using assms(5) by (auto simp: IsSpace_def)
  then have "TrimSuffix fqdn ''.'' = fqdn" by (simp add: TrimSuffix_def HasSuffix_single)
  then have name: "challenge_name fqdn = map ascii_lower fqdn" by (simp add: challenge_name_def)
  then have sp: "IsSpace (byte (last (challenge_name fqdn)))"
    using assms(4,5) by (simp add: last_map ascii_lower_space)
  note apex = apex_last_no_space [OF assms(1,2)]
  have "challenge_name fqdn \<noteq> apex" using sp apex by auto
  moreover have "\<not> HasSuffix (challenge_name fqdn) (''.'' @ apex)" using sp apex by (auto simp: HasSuffix_iff)
  ultimately have "relativeRecordName u fqdn apex = defaultChallengeLabel"
    using relativeRecordName_ascii [OF assms(3)] routes.apex_lower [OF assms(1,2)] by simp
  then show ?thesis by (simp add: record_fqdn_def defaultChallengeLabel_def)
qed

theorem trailing_space_misplaces_record_witness:
  "Resolve sample_unicode (Some sample_conf) ''www.example.com '' = Inr (hd (Credentials sample_conf), ''example.com'') \<and>
   record_fqdn (relativeRecordName sample_unicode ''www.example.com '' ''example.com'') ''example.com'' =
     ''_acme-challenge.example.com''"
proof -
  have r: "Resolve sample_unicode (Some sample_conf) ''www.example.com '' = Inr (hd (Credentials sample_conf), ''example.com'')"
    by code_simp
  moreover have "ValidateConfig sample_unicode (Some sample_conf) = None"
    by (simp add: ValidateConfig_iff sample_conf_def go_defs)
  ultimately show ?thesis
    using trailing_space_misplaces_record [of sample_unicode sample_conf "''www.example.com ''"]
    by (simp add: ascii_def IsSpace_def)
qed

end
