(* ===== verification/Zone_Cache_Correct.thy ===== *)
theory Zone_Cache_Correct
  imports Zone_Cache
begin

text \<open>
  The contract of the zone cache. An abstract cache with a time to live is a locale: its state
  is seen through \<open>view\<close>, the map of the keys that would be found at a given instant. From
  the laws of the single operations the locale derives the behaviour of whole histories: a
  lookup answers according to the last store or invalidation of its key. The model of
  \<open>zonecache.go\<close> is an instance. Since every operation of the code holds the mutex, any
  concurrent execution is such a history.
\<close>

section \<open>Histories\<close>

datatype ('k, 'v) cache_op = OLookup 'k | OStore 'k 'v | OInvalidate 'k

text \<open>What a history, newest operation first, says about a key at instant \<open>t\<close>.\<close>

fun remembered :: "int \<Rightarrow> (time \<times> ('k, 'v) cache_op) list \<Rightarrow> time \<Rightarrow> 'k \<rightharpoonup> 'v" where
  "remembered ttl [] t k = None"
| "remembered ttl ((t0, OLookup k') # h) t k = remembered ttl h t k"
| "remembered ttl ((t0, OStore k' v) # h) t k =
     (if k' = k then (if t \<le> t0 + ttl then Some v else None) else remembered ttl h t k)"
| "remembered ttl ((t0, OInvalidate k') # h) t k = (if k' = k then None else remembered ttl h t k)"

locale ttl_cache =
  fixes clock :: "'c \<Rightarrow> 'w \<Rightarrow> time"
    and ttl :: "'c \<Rightarrow> int"
    and lookup :: "'k \<Rightarrow> 'w \<Rightarrow> 'c \<Rightarrow> 'v option \<times> 'c"
    and store :: "'k \<Rightarrow> 'v \<Rightarrow> 'w \<Rightarrow> 'c \<Rightarrow> 'c"
    and invalidate :: "'k \<Rightarrow> 'c \<Rightarrow> 'c"
    and view :: "'c \<Rightarrow> time \<Rightarrow> 'k \<rightharpoonup> 'v"
  assumes lookup_result: "fst (lookup k w c) = view c (clock c w) k"
    and lookup_view: "clock c w \<le> t \<Longrightarrow> view (snd (lookup k w c)) t = view c t"
    and store_view: "view (store k v w c) t =
          (view c t)(k := (if t \<le> clock c w + ttl c then Some v else None))"
    and invalidate_view: "view (invalidate k c) t = (view c t)(k := None)"
    and settings [simp]:
      "clock (snd (lookup k w c)) = clock c" "ttl (snd (lookup k w c)) = ttl c"
      "clock (store k v w c) = clock c" "ttl (store k v w c) = ttl c"
      "clock (invalidate k c) = clock c" "ttl (invalidate k c) = ttl c"
begin

text \<open>\<open>lookup\<close> right after \<open>store\<close> finds the value up to and including the last instant of its
  life, and leaves the other keys alone.\<close>

lemma store_lookup:
  "fst (lookup k' w' (store k v w c)) =
     (if k' = k then (if clock c w' \<le> clock c w + ttl c then Some v else None)
      else fst (lookup k' w' c))"
  by (simp add: lookup_result store_view)

lemma invalidate_lookup:
  "fst (lookup k' w (invalidate k c)) = (if k' = k then None else fst (lookup k' w c))"
  by (simp add: lookup_result invalidate_view)

definition run_op :: "'w \<times> ('k, 'v) cache_op \<Rightarrow> 'c \<Rightarrow> 'c" where
  "run_op p c = (case p of
     (w, OLookup k) \<Rightarrow> snd (lookup k w c)
   | (w, OStore k v) \<Rightarrow> store k v w c
   | (w, OInvalidate k) \<Rightarrow> invalidate k c)"

lemma run_op_settings [simp]: "clock (run_op p c) = clock c" "ttl (run_op p c) = ttl c"
  by (simp_all add: run_op_def split: prod.split cache_op.split)

lemma foldr_settings [simp]: "clock (foldr run_op ps c) = clock c" "ttl (foldr run_op ps c) = ttl c"
  by (induction ps) simp_all

text \<open>Operations, newest first, at instants that do not decrease.\<close>

lemma history_view:
  assumes "sorted (map (\<lambda>p. - clock c (fst p)) ps)" and "\<forall>p \<in> set ps. clock c (fst p) \<le> t"
    and "view c = (\<lambda>t. Map.empty)"
  shows "view (foldr run_op ps c) t k =
    remembered (ttl c) (map (\<lambda>(w, op). (clock c w, op)) ps) t k"
  using assms(1,2)
proof (induction ps)
  case Nil
  then show ?case using assms(3) by simp
next
  case (Cons p ps)
  then show ?case
    by (auto simp: run_op_def [of p] lookup_view store_view invalidate_view split: prod.split cache_op.split)
qed

end

section \<open>The zone cache\<close>

text \<open>What the cache would find at instant \<open>t\<close>.\<close>

definition zone_view :: "'e zoneCache \<Rightarrow> time \<Rightarrow> zoneCacheKey \<rightharpoonup> int64" where
  "zone_view c t k = (case zc_store c k of
     None \<Rightarrow> None
   | Some e \<Rightarrow> if ze_expiresAt e < t then None else Some (ze_id e))"

definition zone_op_lookup :: "zoneCacheKey \<Rightarrow> 'e world \<Rightarrow> 'e zoneCache \<Rightarrow> int64 option \<times> 'e zoneCache" where
  "zone_op_lookup k = Lookup (zk_secretRef k) (zk_zoneName k)"

definition zone_op_store :: "zoneCacheKey \<Rightarrow> int64 \<Rightarrow> 'e world \<Rightarrow> 'e zoneCache \<Rightarrow> 'e zoneCache" where
  "zone_op_store k = Store (zk_secretRef k) (zk_zoneName k)"

definition zone_op_invalidate :: "zoneCacheKey \<Rightarrow> 'e zoneCache \<Rightarrow> 'e zoneCache" where
  "zone_op_invalidate k = Invalidate (zk_secretRef k) (zk_zoneName k)"

lemma cache_key_surj [simp]: "cache_key (zk_secretRef k) (zk_zoneName k) = k"
  by (simp add: cache_key_def)

lemma cache_key_inj: "cache_key r z = cache_key r' z' \<longleftrightarrow> r = r' \<and> z = z'"
  by (simp add: cache_key_def)

lemmas zone_op_defs = zone_op_lookup_def zone_op_store_def zone_op_invalidate_def
  Lookup_def Store_def Invalidate_def zone_view_def

interpretation zones: ttl_cache zc_now "\<lambda>c. sint (zc_ttl c)"
  zone_op_lookup zone_op_store zone_op_invalidate zone_view
  by unfold_locales (auto simp: zone_op_defs fun_eq_iff split: option.splits)

lemma zone_view_new [simp]: "zone_view (newZoneCache d f) = (\<lambda>t. Map.empty)"
  by (simp add: zone_view_def newZoneCache_def fun_eq_iff)

lemma Lookup_miss_forgets:
  "Lookup ref zone w c = (None, c') \<Longrightarrow> zc_store c' (cache_key ref zone) = None"
  by (auto simp: Lookup_def split: option.splits if_splits)

lemma newZoneCache_ttl: "0 < sint (zc_ttl (newZoneCache d f))"
  by (simp add: newZoneCache_def)

section \<open>Properties\<close>

text \<open>
  A history of cache operations as the program performs them.
\<close>

definition zone_run :: "'e world \<times> (zoneCacheKey, int64) cache_op \<Rightarrow> 'e zoneCache \<Rightarrow> 'e zoneCache" where
  "zone_run p c = (case p of
     (w, OLookup k) \<Rightarrow> snd (Lookup (zk_secretRef k) (zk_zoneName k) w c)
   | (w, OStore k i) \<Rightarrow> Store (zk_secretRef k) (zk_zoneName k) i w c
   | (w, OInvalidate k) \<Rightarrow> Invalidate (zk_secretRef k) (zk_zoneName k) c)"

lemma zone_run_eq: "zone_run = zones.run_op"
  by (simp add: fun_eq_iff zone_run_def zones.run_op_def zone_op_lookup_def zone_op_store_def
      zone_op_invalidate_def split: prod.split cache_op.split)

text \<open>
  C18: the cache refines its history. After any interleaving of lookups, stores and
  invalidations (newest first, on a clock that does not run backwards) from an empty cache, a
  lookup of a secret and zone returns exactly the id last stored for this pair, if no
  invalidation of the pair came after and at most the time to live has passed, that instant
  included; other pairs never matter.
\<close>

theorem zone_cache_history:
  assumes "sorted (map (\<lambda>p. - zc_now c (fst p)) ps)" and "\<forall>p \<in> set ps. zc_now c (fst p) \<le> zc_now c w"
    and "c = newZoneCache d f"
  shows "fst (Lookup ref zone w (foldr zone_run ps c)) =
    remembered (sint (zc_ttl c)) (map (\<lambda>(v, op). (zc_now c v, op)) ps) (zc_now c w) (cache_key ref zone)"
proof -
  have "fst (Lookup ref zone w (foldr zone_run ps c)) =
      zone_view (foldr zones.run_op ps c) (zc_now c w) (cache_key ref zone)"
    using zones.lookup_result [of "cache_key ref zone" w "foldr zones.run_op ps c"]
    by (simp add: zone_op_lookup_def zone_run_eq cache_key_def)
  then show ?thesis using zones.history_view [OF assms(1,2)] assms(3) by simp
qed

definition at_time :: "time \<Rightarrow> unit world" where
  "at_time t = \<lparr>now = t, trace = [], ext = ()\<rparr>"

theorem zone_cache_history_witness:
  "fst (Lookup ''r'' ''z'' (at_time 40) (foldr zone_run
     [(at_time 39, OLookup (cache_key ''r'' ''z'')), (at_time 12, OInvalidate (cache_key ''q'' ''z'')),
      (at_time 10, OStore (cache_key ''r'' ''z'') 7)] (newZoneCache 30 (Some now)))) = Some 7"
proof -
  let ?ps = "[(at_time 39, OLookup (cache_key ''r'' ''z'')), (at_time 12, OInvalidate (cache_key ''q'' ''z'')),
      (at_time 10, OStore (cache_key ''r'' ''z'') 7)]"
  let ?c = "newZoneCache 30 (Some now) :: unit zoneCache"
  have "fst (Lookup ''r'' ''z'' (at_time 40) (foldr zone_run ?ps ?c)) =
      remembered (sint (zc_ttl ?c)) (map (\<lambda>(v, op). (zc_now ?c v, op)) ?ps)
        (zc_now ?c (at_time 40)) (cache_key ''r'' ''z'')"
    by (rule zone_cache_history [of _ _ _ 30 "Some now"]) (auto simp: newZoneCache_def at_time_def)
  then show ?thesis by (simp add: newZoneCache_def at_time_def cache_key_def)
qed

end
