(* ===== verification/Solver_Correct.thy ===== *)
theory Solver_Correct
  imports Zone_Api Record_Name Zone_Cache_Correct
begin

text \<open>
  The solver's operations, proved over the contracts of what it uses: the routing layer, the
  secret getter, the zone cache and the zone client. The properties of \<open>Present\<close> and
  \<open>CleanUp\<close> that span components are in the root theory.
\<close>

section \<open>Preparation\<close>

text \<open>The configuration of the challenge assigns its FQDN to a credential, a secret and an apex.\<close>

definition routed :: "'e platform \<Rightarrow> ChallengeRequest \<Rightarrow> Credential \<Rightarrow> SecretRef \<Rightarrow> string \<Rightarrow> bool" where
  "routed pf ch cr ref apex \<longleftrightarrow>
     (\<exists>conf refs. parseConfig (pf_lib pf) (pf_dsks pf) (ch_Config ch) (ch_ResourceNamespace ch) = Inr (conf, refs) \<and>
        Resolve (pf_uc pf) (Some conf) (ch_ResolvedFQDN ch) = Inr (cr, apex) \<and>
        refs (cred_Name cr) = Some ref)"

lemma routed_unique: "routed pf ch cr ref apex \<Longrightarrow> routed pf ch cr' ref' apex' \<Longrightarrow> cr = cr' \<and> ref = ref' \<and> apex = apex'"
  by (auto simp: routed_def)

lemma routed_valid:
  assumes "routed pf ch cr ref apex"
  shows "ref_ok ref" and "cred_APITokenSecretRef cr = SecretRef_String ref"
    and "\<exists>conf. ValidateConfig (pf_uc pf) (Some conf) = None \<and>
      Resolve (pf_uc pf) (Some conf) (ch_ResolvedFQDN ch) = Inr (cr, apex)"
proof -
  obtain conf refs where c: "parseConfig (pf_lib pf) (pf_dsks pf) (ch_Config ch) (ch_ResourceNamespace ch) = Inr (conf, refs)"
      "Resolve (pf_uc pf) (Some conf) (ch_ResolvedFQDN ch) = Inr (cr, apex)" "refs (cred_Name cr) = Some ref"
    using assms by (auto simp: routed_def)
  from parseConfig_refs [OF c(1) routes.resolve_member [OF c(2)]] c(3)
  show "ref_ok ref" "cred_APITokenSecretRef cr = SecretRef_String ref" by auto
  have "ValidateConfig (pf_uc pf) (Some conf) = None"
    using c(1) by (auto simp: parseConfig_iff ValidateConfig_iff)
  with c(2) show "\<exists>conf. ValidateConfig (pf_uc pf) (Some conf) = None \<and>
      Resolve (pf_uc pf) (Some conf) (ch_ResolvedFQDN ch) = Inr (cr, apex)" by auto
qed

lemma not_routed_prepare:
  assumes "\<nexists>cr ref apex. routed pf ch cr ref apex"
  shows "\<exists>e. prepare pf s cx ch w = (Inl e, w)"
proof -
  consider e where "parseConfig (pf_lib pf) (pf_dsks pf) (ch_Config ch) (ch_ResourceNamespace ch) = Inl e"
    | conf refs where "parseConfig (pf_lib pf) (pf_dsks pf) (ch_Config ch) (ch_ResourceNamespace ch) = Inr (conf, refs)"
    by (cases "parseConfig (pf_lib pf) (pf_dsks pf) (ch_Config ch) (ch_ResourceNamespace ch)") auto
  then show ?thesis
    using assms unfolding prepare_def routed_def
    by cases (auto split: sum.split option.split)
qed

lemma prepare_routed:
  assumes "routed pf ch cr ref apex"
  shows "prepare pf s cx ch w = (case s_secrets s of
      None \<Rightarrow>
        (Inl (ENew (''solver: not initialised '' @ [chr 226, chr 128, chr 148] @
           '' Initialize() must be called before Present/CleanUp, or WithSecretGetter '' @
           ''must be supplied'')), w)
    | Some getToken \<Rightarrow>
        (case getToken cx ref w of
           (Inl err, w1) \<Rightarrow> (Inl err, w1)
         | (Inr token, w1) \<Rightarrow>
             (case s_clientFactory s token of
                Inl err \<Rightarrow> (Inl (EWrap ''solver: build hcloud client: '' err []), w1)
              | Inr client \<Rightarrow> (Inr (cr, ref, client, apex), w1))))"
  using assms unfolding routed_def prepare_def by (elim exE conjE) simp

section \<open>Calls of the zone client\<close>

text \<open>The two requests by which \<open>Present\<close> writes a record, and the one of \<open>CleanUp\<close>; \<open>request\<close>
  builds a request of the client in use.\<close>

definition create_rq :: "(string \<Rightarrow> string \<Rightarrow> string option \<Rightarrow> http_request) \<Rightarrow>
    unicode \<Rightarrow> 'e Solver \<Rightarrow> int64 \<Rightarrow> string \<Rightarrow> string \<Rightarrow> http_request" where
  "create_rq request u s i name key = request ''POST'' (zone_path i)
     (Some (json_print (marshal_CreateRRSetRequest (create_request u s name key))))"

definition set_rq :: "(string \<Rightarrow> string \<Rightarrow> string option \<Rightarrow> http_request) \<Rightarrow>
    unicode \<Rightarrow> int64 \<Rightarrow> string \<Rightarrow> string \<Rightarrow> http_request" where
  "set_rq request u i name key = request ''POST'' (rrset_path i name ''TXT'' @ ''/actions/set_records'')
     (Some (json_print (marshal_SetRRSetRecordsRequest
        \<lparr>srq_Records = [\<lparr>rec_Value = quoteTXT u key, rec_Comment = []\<rparr>]\<rparr>)))"

definition list_rq :: "(string \<Rightarrow> string \<Rightarrow> string option \<Rightarrow> http_request) \<Rightarrow> http_request" where
  "list_rq request = request ''GET'' ''/v1/zones'' None"

definition delete_rq :: "(string \<Rightarrow> string \<Rightarrow> string option \<Rightarrow> http_request) \<Rightarrow> int64 \<Rightarrow> string \<Rightarrow> http_request" where
  "delete_rq request i name = request ''DELETE'' (rrset_path i name ''TXT'') None"

text \<open>
  What a successful \<open>Present\<close> exchanged: after the listing, if any, the creation, answered with
  success; or the creation, answered 409, and then the replacement, answered with success.
\<close>

definition wrote_record :: "http_request \<Rightarrow> http_request \<Rightarrow> http_request \<Rightarrow> 'e world \<Rightarrow> 'e world \<Rightarrow> bool" where
  "wrote_record listing create replace w w' \<longleftrightarrow>
     (\<exists>ls cs rs. exchange_log w w' (ls @ cs @ rs) \<and> (ls = [] \<or> attempts listing ls) \<and> attempts create cs \<and>
        (if rs = [] then answered_ok (final_answer cs)
         else status_of (final_answer cs) = 409 \<and> attempts replace rs \<and> answered_ok (final_answer rs)))"

text \<open>
  What a successful \<open>CleanUp\<close> exchanged. Either the listing alone, answered 404, or with success
  but without the apex among the zones; or the deletion of the record set, answered with success
  or 404, after the listing unless the id was cached.
\<close>

definition removed_record ::
  "http_request \<Rightarrow> (int64 \<Rightarrow> http_request) \<Rightarrow> (Zone list result \<times> 'e world) \<Rightarrow> int64 option \<Rightarrow> string \<Rightarrow> 'e world \<Rightarrow> 'e world \<Rightarrow> bool" where
  "removed_record listing delete listed cached apex w w' \<longleftrightarrow>
     (\<exists>ls. exchange_log w w' ls \<and> attempts listing ls \<and> cached = None \<and>
        (status_of (final_answer ls) = 404 \<or>
         answered_ok (final_answer ls) \<and> (\<exists>zones. fst listed = Inr zones \<and> apex \<notin> zone_Name ` set zones))) \<or>
     (\<exists>i ls ds. exchange_log w w' (ls @ ds) \<and>
        (if ls = [] then cached = Some i
         else attempts listing ls \<and> answered_ok (final_answer ls) \<and>
           (\<exists>zones z. fst listed = Inr zones \<and> z \<in> set zones \<and> zone_Name z = apex \<and> zone_ID z = i)) \<and>
        attempts (delete i) ds \<and> (answered_ok (final_answer ds) \<or> status_of (final_answer ds) = 404))"

lemma find_Some_member: "find P xs = Some x \<Longrightarrow> x \<in> set xs \<and> P x"
  by (auto simp: find_Some_iff)

context zone_client
begin

definition sends :: "http_request \<Rightarrow> bool" where
  "sends rq \<longleftrightarrow> (\<exists>m p b. rq = request m p b)"

lemma list_calls: "hc_ListZones api cx w = (r, w') \<Longrightarrow> calls sends timely cx w w'"
  by (rule api_call_calls [OF list_law]) (auto simp: sends_def)

lemma create_calls: "hc_CreateRRSet api cx i rq w = (r, w') \<Longrightarrow> calls sends timely cx w w'"
  by (rule api_call_calls [OF create_law]) (auto simp: sends_def)

lemma set_calls: "hc_SetRRSetRecords api cx i n t rq w = (r, w') \<Longrightarrow> calls sends timely cx w w'"
  by (rule api_call_calls [OF set_law]) (auto simp: sends_def)

lemma delete_calls: "hc_DeleteRRSet api cx i n t w = (r, w') \<Longrightarrow> calls sends timely cx w w'"
  by (rule api_call_calls [OF delete_law]) (auto simp: sends_def)

lemma resolveZoneID_calls:
  assumes "resolveZoneID u s cx api key apex w = (r, s', w')"
  shows "calls sends timely cx w w'"
  using assms
  by (auto simp: resolveZoneID_def Let_def calls_refl intro: list_calls
      split: prod.splits option.splits sum.splits)

lemma reconcileExisting_calls:
  assumes "reconcileExisting u s cx api cn apex rn i key w = (r, w')"
  shows "calls sends timely cx w w'"
  using assms
  by (auto simp: reconcileExisting_def Let_def split: prod.splits sum.splits intro: set_calls calls_LogAttrs)

lemma resolveZoneID_log:
  assumes "resolveZoneID u s cx api key apex w = (ri, s', w')"
  shows "\<exists>ls. exchange_log w w' ls \<and> (ls = [] \<or> attempts (list_rq request) ls) \<and>
    (\<forall>i. ri = Inr i \<longrightarrow> (if ls = [] then fst (Lookup key apex w (s_zones s)) = Some i
       else answered_ok (final_answer ls) \<and> (\<exists>zones z. fst (hc_ListZones api cx w) = Inr zones \<and> z \<in> set zones \<and>
         zone_Name z = apex \<and> zone_ID z = i))) \<and>
    (\<forall>e. ri = Inl e \<longrightarrow> fst (Lookup key apex w (s_zones s)) = None \<and> (errors_Is e ErrNotFound \<longrightarrow> ls \<noteq> [] \<and>
       (status_of (final_answer ls) = 404 \<or> answered_ok (final_answer ls) \<and>
         (\<exists>zones. fst (hc_ListZones api cx w) = Inr zones \<and> apex \<notin> zone_Name ` set zones))))"
proof (cases "fst (Lookup key apex w (s_zones s))")
  case (Some i)
  with assms show ?thesis
    by (cases "Lookup key apex w (s_zones s)") (auto simp: resolveZoneID_def intro!: exI [of _ "[]"])
next
  case None
  obtain rl w1 where l: "hc_ListZones api cx w = (rl, w1)" by force
  have w1: "w' = w1"
    using assms None l by (cases "Lookup key apex w (s_zones s)") (auto simp: resolveZoneID_def Let_def split: sum.splits option.splits)
  note law = list_law [OF l, folded list_rq_def]
  show ?thesis
  proof (cases rl)
    case (Inl e)
    with assms None l have "ri = Inl e"
      by (cases "Lookup key apex w (s_zones s)") (auto simp: resolveZoneID_def Let_def)
    with law Inl None w1 show ?thesis unfolding api_call_def by auto
  next
    case (Inr zones)
    obtain ls where ls: "exchange_log w w1 ls" "attempts (list_rq request) ls" "answered_ok (final_answer ls)"
      using api_call_ok [OF law] Inr by (auto simp: is_ok_def)
    have "ri = (case find (\<lambda>z. zone_Name z = apex) zones of Some z \<Rightarrow> Inr (zone_ID z) | None \<Rightarrow> Inl (not_found_error u apex))"
      using assms None l Inr
      by (cases "Lookup key apex w (s_zones s)") (auto simp: resolveZoneID_def Let_def split: option.splits)
    then have "ls \<noteq> [] \<and> (\<forall>i. ri = Inr i \<longrightarrow> (\<exists>z \<in> set zones. zone_Name z = apex \<and> zone_ID z = i)) \<and>
        (\<forall>e. ri = Inl e \<longrightarrow> apex \<notin> zone_Name ` set zones)"
      using ls(2) find_Some_member [of "\<lambda>z. zone_Name z = apex" zones] find_None_iff [of "\<lambda>z. zone_Name z = apex" zones]
      by (cases "find (\<lambda>z. zone_Name z = apex) zones") (auto simp: attempts_def)
    with ls w1 l Inr None show ?thesis by (intro exI [of _ ls]) auto
  qed
qed

lemma reconcileExisting_ok:
  assumes "reconcileExisting u s cx api cn apex rn i key w = (None, w')"
  shows "\<exists>rs. exchange_log w w' rs \<and> attempts (set_rq request u i rn key) rs \<and> answered_ok (final_answer rs)"
proof -
  let ?rq = "\<lparr>srq_Records = [\<lparr>rec_Value = quoteTXT u key, rec_Comment = []\<rparr>]\<rparr>"
  obtain a w1 where a: "hc_SetRRSetRecords api cx i rn defaultRRSetType ?rq w = (Inr a, w1)"
    and w': "exchange_log w w' = exchange_log w w1"
    using assms(1) by (auto simp: reconcileExisting_def Let_def split: prod.splits sum.splits)
  from api_call_ok [OF set_law [OF a]] show ?thesis
    by (auto simp: w' set_rq_def defaultRRSetType_def is_ok_def)
qed

lemma Present_calls:
  assumes prep: "prepare pf s (contextFor s w) ch w = (Inr (cr, ref, api, apex), w1)"
    and P: "Present pf s (Some ch) w = (r, s', w')"
  shows "calls sends timely (contextFor s w) w1 w'"
proof -
  let ?u = "pf_uc pf" and ?cx = "contextFor s w"
  obtain ri s2 w2 where z: "resolveZoneID ?u s ?cx api (SecretRef_String ref) apex w1 = (ri, s2, w2)"
    by (cases "resolveZoneID ?u s ?cx api (SecretRef_String ref) apex w1")
  note c2 = resolveZoneID_calls [OF z]
  show ?thesis
  proof (cases ri)
    case (Inl e)
    with P prep z c2 show ?thesis by (auto simp: Present_def Let_def)
  next
    case (Inr i)
    with P prep z show ?thesis
      by (auto simp: Present_def Let_def intro: calls_LogAttrs
          dest!: create_calls reconcileExisting_calls intro: calls_trans [OF c2] calls_trans
          split: prod.splits sum.splits if_splits)
  qed
qed

lemma Present_ok:
  assumes prep: "prepare pf s (contextFor s w) ch w = (Inr (cr, ref, api, apex), w1)"
    and P: "Present pf s (Some ch) w = (None, s', w')"
  obtains i s2 w2 where
    "resolveZoneID (pf_uc pf) s (contextFor s w) api (SecretRef_String ref) apex w1 = (Inr i, s2, w2)"
    and "wrote_record (list_rq request)
      (create_rq request (pf_uc pf) s2 i (relativeRecordName (pf_uc pf) (ch_ResolvedFQDN ch) apex) (ch_Key ch))
      (set_rq request (pf_uc pf) i (relativeRecordName (pf_uc pf) (ch_ResolvedFQDN ch) apex) (ch_Key ch)) w1 w'"
proof -
  let ?u = "pf_uc pf" and ?cx = "contextFor s w"
  let ?name = "relativeRecordName ?u (ch_ResolvedFQDN ch) apex"
  obtain ri s2 w2 where z: "resolveZoneID ?u s ?cx api (SecretRef_String ref) apex w1 = (ri, s2, w2)"
    by (cases "resolveZoneID ?u s ?cx api (SecretRef_String ref) apex w1")
  with P prep obtain i where i: "ri = Inr i" by (cases ri) (auto simp: Present_def Let_def)
  obtain ls where ls: "exchange_log w1 w2 ls" "ls = [] \<or> attempts (list_rq request) ls"
    using resolveZoneID_log [OF z] by blast
  obtain rc w3 where c: "hc_CreateRRSet api ?cx i (create_request ?u s2 ?name (ch_Key ch)) w2 = (rc, w3)" by force
  note law = create_law [OF c, folded create_rq_def]
  show thesis
  proof (rule that [OF z [unfolded i]], cases rc)
    case (Inr rr)
    obtain cs where cs: "exchange_log w2 w3 cs" "attempts (create_rq request ?u s2 i ?name (ch_Key ch)) cs" "answered_ok (final_answer cs)"
      using api_call_ok [OF law] Inr by (auto simp: is_ok_def)
    have "exchange_log w1 w' = exchange_log w1 w3" using Inr i P prep z c by (auto simp: Present_def Let_def)
    with ls cs exchange_log_trans [OF ls(1) cs(1)]
    show "wrote_record (list_rq request) (create_rq request ?u s2 i ?name (ch_Key ch)) (set_rq request ?u i ?name (ch_Key ch)) w1 w'"
      unfolding wrote_record_def by (intro exI [of _ ls] exI [of _ cs] exI [of _ "[]"]) simp
  next
    case (Inl e)
    with i P prep z c have conf: "errors_Is e ErrConflict"
        "reconcileExisting ?u s2 ?cx api (cred_Name cr) apex ?name i (ch_Key ch) w3 = (None, w')"
      by (auto simp: Present_def Let_def split: if_splits prod.splits)
    obtain cs where cs: "exchange_log w2 w3 cs" "attempts (create_rq request ?u s2 i ?name (ch_Key ch)) cs"
        "status_of (final_answer cs) = 409"
      using api_call_conflict [OF law [unfolded Inl] conf(1)] by blast
    obtain rs where rs: "exchange_log w3 w' rs" "attempts (set_rq request ?u i ?name (ch_Key ch)) rs" "answered_ok (final_answer rs)"
      using reconcileExisting_ok [OF conf(2)] by blast
    have "rs \<noteq> []" using rs(2) by (simp add: attempts_def)
    with ls cs rs exchange_log_trans [OF exchange_log_trans [OF ls(1) cs(1)] rs(1)]
    show "wrote_record (list_rq request) (create_rq request ?u s2 i ?name (ch_Key ch)) (set_rq request ?u i ?name (ch_Key ch)) w1 w'"
      unfolding wrote_record_def by (intro exI [of _ ls] exI [of _ cs] exI [of _ rs]) simp
  qed
qed

lemma CleanUp_calls:
  assumes prep: "prepare pf s (contextFor s w) ch w = (Inr (cr, ref, api, apex), w1)"
    and C: "CleanUp pf s (Some ch) w = (r, s', w')"
  shows "calls sends timely (contextFor s w) w1 w'"
proof -
  let ?z = "resolveZoneID (pf_uc pf) s (contextFor s w) api (SecretRef_String ref) apex w1"
  obtain ri s2 w2 where z: "?z = (ri, s2, w2)" by (cases ?z)
  note c2 = resolveZoneID_calls [OF z]
  show ?thesis
  proof (cases ri)
    case (Inl e)
    with C prep z c2 show ?thesis by (auto simp: CleanUp_def Let_def calls_LogAttrs split: if_splits)
  next
    case (Inr i)
    with C prep z show ?thesis
      by (auto simp: CleanUp_def Let_def intro: calls_LogAttrs calls_trans [OF c2] dest!: delete_calls
          split: prod.splits sum.splits if_splits)
  qed
qed

lemma CleanUp_ok:
  assumes prep: "prepare pf s (contextFor s w) ch w = (Inr (cr, ref, api, apex), w1)"
    and C: "CleanUp pf s (Some ch) w = (None, s', w')"
  shows "removed_record (list_rq request)
    (\<lambda>i. delete_rq request i (relativeRecordName (pf_uc pf) (ch_ResolvedFQDN ch) apex))
    (hc_ListZones api (contextFor s w) w1) (fst (Lookup (SecretRef_String ref) apex w1 (s_zones s))) apex w1 w'"
proof -
  let ?u = "pf_uc pf" and ?cx = "contextFor s w"
  let ?name = "relativeRecordName ?u (ch_ResolvedFQDN ch) apex"
  obtain ri s2 w2 where z: "resolveZoneID ?u s ?cx api (SecretRef_String ref) apex w1 = (ri, s2, w2)"
    by (cases "resolveZoneID ?u s ?cx api (SecretRef_String ref) apex w1")
  from resolveZoneID_log [OF z] obtain ls where ls: "exchange_log w1 w2 ls" "ls = [] \<or> attempts (list_rq request) ls"
    "\<And>i. ri = Inr i \<Longrightarrow> (if ls = [] then fst (Lookup (SecretRef_String ref) apex w1 (s_zones s)) = Some i
       else answered_ok (final_answer ls) \<and> (\<exists>zones z. fst (hc_ListZones api ?cx w1) = Inr zones \<and> z \<in> set zones \<and>
         zone_Name z = apex \<and> zone_ID z = i))"
    "\<And>e. ri = Inl e \<Longrightarrow> fst (Lookup (SecretRef_String ref) apex w1 (s_zones s)) = None \<and> (errors_Is e ErrNotFound \<longrightarrow> ls \<noteq> [] \<and>
       (status_of (final_answer ls) = 404 \<or> answered_ok (final_answer ls) \<and>
         (\<exists>zones. fst (hc_ListZones api ?cx w1) = Inr zones \<and> apex \<notin> zone_Name ` set zones)))"
    by blast
  show ?thesis
  proof (cases ri)
    case (Inl e)
    with C prep z have "errors_Is e ErrNotFound" "exchange_log w1 w' = exchange_log w1 w2"
      by (auto simp: CleanUp_def Let_def split: if_splits)
    with ls(1,2) ls(4) [OF Inl] show ?thesis
      unfolding removed_record_def by (intro disjI1 exI [of _ ls]) simp
  next
    case (Inr i)
    obtain rd w3 where d: "hc_DeleteRRSet api ?cx i ?name ''TXT'' w2 = (rd, w3)" by force
    note law = delete_law [OF d, folded delete_rq_def]
    have w3: "exchange_log w1 w' = exchange_log w1 w3" and rd: "is_ok rd \<or> (\<exists>e. rd = Inl e \<and> errors_Is e ErrNotFound)"
      using Inr C prep z d by (auto simp: CleanUp_def Let_def defaultRRSetType_def is_ok_def split: sum.splits if_splits)
    obtain ds where ds: "exchange_log w2 w3 ds" "attempts (delete_rq request i ?name) ds"
        "answered_ok (final_answer ds) \<or> status_of (final_answer ds) = 404"
      using rd api_call_ok [OF law] api_call_not_found [of _ _ _ _ _ w3] law by metis
    show ?thesis
      unfolding removed_record_def w3
      using exchange_log_trans [OF ls(1) ds(1)] ls(2) ls(3) [OF Inr] ds(2,3)
      by (intro disjI2 exI [of _ i] exI [of _ ls] exI [of _ ds]) (auto split: if_splits)
  qed
qed

end

section \<open>The production solver\<close>

text \<open>
  The solver as \<open>main\<close> runs it after \<open>Initialize\<close>: tokens come from the Kubernetes API and
  clients from the default factory.
\<close>

definition production :: "'e platform \<Rightarrow> 'e Solver \<Rightarrow> bool" where
  "production pf s \<longleftrightarrow>
     (\<exists>lg. s_clientFactory s = DefaultClientFactory pf (Some lg)) \<and>
     (\<exists>rc. s_secrets s = Some (GetToken (pf_uc pf) \<lparr>kg_api = pf_kube pf, kg_config = rc\<rparr>))"

text \<open>A request of a client made for the token \<open>tok\<close>.\<close>

definition bearer :: "string \<Rightarrow> http_request \<Rightarrow> bool" where
  "bearer tok rq \<longleftrightarrow> map_of (rq_header rq) ''Authorization'' = Some (''Bearer '' @ tok)"

lemma bearer_make_request [simp]: "bearer tok (make_request c m p b tok)"
  by (simp add: bearer_def make_request_def)

text \<open>What a call did when its challenge was routed: it read the Secret of the owning credential,
  and only that one, and sent only requests carrying the token found there.\<close>

definition acted_for :: "'e platform \<Rightarrow> 'e Solver \<Rightarrow> ctx \<Rightarrow> SecretRef \<Rightarrow> 'e world \<Rightarrow> 'e world \<Rightarrow> bool" where
  "acted_for pf s cx ref w w' \<longleftrightarrow>
     secrets_read (trace w') = secrets_read (trace w) @ [(sr_Namespace ref, sr_Name ref)] \<and>
     (case the (s_secrets s) cx ref w of
        (Inl e, w1) \<Rightarrow> http_sent (trace w') = http_sent (trace w)
      | (Inr tok, w1) \<Rightarrow> \<exists>rs. http_sent (trace w') = http_sent (trace w) @ rs \<and> list_all (bearer tok) rs) \<and>
     now w \<le> now w' \<and>
     (kube_honours_ctx (pf_kube pf) \<and> honours_ctx (pf_http pf) \<longrightarrow> by_deadline cx w (now w'))"

lemma production_prepare:
  assumes "production pf s" and "routed pf ch cr ref apex"
  obtains (NoToken) e w1 where "prepare pf s cx ch w = (Inl e, w1)" and "the (s_secrets s) cx ref w = (Inl e, w1)"
      and "acted_for pf s cx ref w w1"
  | (Ready) lg tok w1 where "s_clientFactory s = DefaultClientFactory pf (Some lg)"
      and "the (s_secrets s) cx ref w = (Inr tok, w1)" and "tok \<noteq> []"
      and "prepare pf s cx ch w = (Inr (cr, ref,
        as_HCloudClient (pf_lib pf) (default_client (pf_http pf) (pf_pick pf) lg tok), apex), w1)"
      and "acted_for pf s cx ref w w1"
proof -
  obtain lg rc where lg: "s_clientFactory s = DefaultClientFactory pf (Some lg)"
    and rc: "s_secrets s = Some (GetToken (pf_uc pf) \<lparr>kg_api = pf_kube pf, kg_config = rc\<rparr>)"
    using assms(1) by (auto simp: production_def)
  obtain rt w1 where g: "GetToken (pf_uc pf) \<lparr>kg_api = pf_kube pf, kg_config = rc\<rparr> cx ref w = (rt, w1)"
    by force
  have "acted_for pf s cx ref w w1"
    using kube.get_frame [OF g] kube.get_mono [OF g] GetToken_deadline [OF _ g] rc g
    by (auto simp: acted_for_def split: sum.split)
  note acted = this
  show ?thesis
  proof (cases rt)
    case (Inl e)
    with acted g rc show ?thesis by (intro NoToken) (auto simp: prepare_routed [OF assms(2)])
  next
    case (Inr tok)
    with g have "tok \<noteq> []" using kube.token_nonempty by metis
    with Inr acted g rc lg show ?thesis
      by (intro Ready) (auto simp: prepare_routed [OF assms(2)] DefaultClientFactory_eq)
  qed
qed

lemma production_token_log:
  assumes "production pf s" and "the (s_secrets s) cx ref w = (r, w1)"
  shows "exchange_log w1 = exchange_log w"
proof -
  obtain rc where "s_secrets s = Some (GetToken (pf_uc pf) \<lparr>kg_api = pf_kube pf, kg_config = rc\<rparr>)"
    using assms(1) by (auto simp: production_def)
  with assms(2) have "GetToken (pf_uc pf) \<lparr>kg_api = pf_kube pf, kg_config = rc\<rparr> cx ref w = (r, w1)" by simp
  from kube.get_frame(5) [OF this] show ?thesis by (simp add: exchange_log_def fun_eq_iff)
qed

lemma GetToken_error_plain:
  assumes "GetToken u g cx ref w = (Inl e, w')"
  shows "\<not> errors_Is e t"
  using assms
  by (auto simp only: GetToken_def Let_def errors_Is.simps not_False_eq_True prod.inject sum.inject sum.distinct
      split: prod.splits sum.splits option.splits if_splits)

lemma production_token_error:
  assumes "production pf s" and "the (s_secrets s) cx ref w = (Inl e, w1)"
  shows "\<not> errors_Is e t"
proof -
  obtain rc where "s_secrets s = Some (GetToken (pf_uc pf) \<lparr>kg_api = pf_kube pf, kg_config = rc\<rparr>)"
    using assms(1) by (auto simp: production_def)
  with assms(2) have "GetToken (pf_uc pf) \<lparr>kg_api = pf_kube pf, kg_config = rc\<rparr> cx ref w = (Inl e, w1)" by simp
  then show ?thesis by (rule GetToken_error_plain)
qed

lemma acted_for_calls:
  assumes "acted_for pf s cx ref w w1" and "the (s_secrets s) cx ref w = (Inr tok, w1)"
    and "calls (bearer tok) (honours_ctx (pf_http pf)) cx w1 w'"
  shows "acted_for pf s cx ref w w'"
  using assms by (fastforce simp: acted_for_def calls_def intro: by_deadline_trans)

lemma calls_mono: "calls P timely cx w w' \<Longrightarrow> (\<And>rq. P rq \<Longrightarrow> Q rq) \<Longrightarrow> calls Q timely cx w w'"
  by (auto simp: calls_def list_all_iff)

lemma production_sends: "production_api.sends lib http pick lg tok rq \<Longrightarrow> bearer tok rq"
  by (auto simp: production_api.sends_def)

lemma Present_acts:
  assumes "production pf s" and "routed pf ch cr ref apex" and "Present pf s (Some ch) w = (r, s', w')"
  shows "acted_for pf s (contextFor s w) ref w w'"
proof (rule production_prepare [OF assms(1,2), of "contextFor s w" w], goal_cases NoToken Ready)
  case (NoToken e w1)
  with assms(3) show ?thesis by (simp add: Present_def Let_def)
next
  case (Ready lg tok w1)
  from production_api.Present_calls [OF Ready(4) assms(3)]
  have "calls (bearer tok) (honours_ctx (pf_http pf)) (contextFor s w) w1 w'"
    by (rule calls_mono) (rule production_sends)
  with Ready acted_for_calls show ?thesis by blast
qed

lemma CleanUp_acts:
  assumes "production pf s" and "routed pf ch cr ref apex" and "CleanUp pf s (Some ch) w = (r, s', w')"
  shows "acted_for pf s (contextFor s w) ref w w'"
proof (rule production_prepare [OF assms(1,2), of "contextFor s w" w], goal_cases NoToken Ready)
  case (NoToken e w1)
  with assms(3) show ?thesis by (simp add: CleanUp_def Let_def)
next
  case (Ready lg tok w1)
  have "calls (bearer tok) (honours_ctx (pf_http pf)) (contextFor s w) w1 w'"
    by (rule calls_mono [OF production_api.CleanUp_calls [OF Ready(4) assms(3)]]) (rule production_sends)
  with Ready acted_for_calls show ?thesis by blast
qed

section \<open>Failures\<close>

lemma errors_Is_wrapError [simp]: "errors_Is (wrapError u stage n apex cause) t = errors_Is cause t"
  by (simp add: wrapError_def)

lemma resolveZoneID_error_forgets:
  assumes "resolveZoneID u s cx client key apex w = (Inl e, s', w')"
  shows "zc_store (s_zones s') (cache_key key apex) = None"
  using assms
  by (auto simp: resolveZoneID_def Let_def dest: Lookup_miss_forgets split: prod.splits option.splits sum.splits)

lemma resolveZoneID_ok_caches:
  assumes "resolveZoneID u s cx client key apex w = (Inr i, s', w')"
  shows "zc_store (s_zones s') (cache_key key apex) \<noteq> None"
  using assms
  by (auto simp: resolveZoneID_def Let_def Lookup_def Store_def split: prod.splits option.splits sum.splits if_splits)

text \<open>Without an entry, the next resolution is a listing.\<close>

lemma resolveZoneID_lists:
  assumes "zc_store (s_zones s) (cache_key key apex) = None"
  shows "snd (snd (resolveZoneID u s cx client key apex w)) = snd (hc_ListZones client cx w)"
  using assms by (simp add: resolveZoneID_def Lookup_def Let_def split: prod.split sum.split option.split)

text \<open>A failure of \<open>Present\<close> past its preparation names the stage, the credential and the zone; a
  404 leaves no cached id behind, unless it answers the replacement of an existing record set.\<close>

lemma Present_failure:
  assumes prep: "prepare pf s (contextFor s w) ch w = (Inr (cr, ref, client, apex), w1)"
    and P: "Present pf s (Some ch) w = (Some e, s', w')"
  shows "\<exists>stage cause. e = wrapError (pf_uc pf) stage (cred_Name cr) apex cause \<and>
    stage \<in> {''resolve zone'', ''create RRSet'', ''set existing RRSet records (conflict path)''} \<and>
    (errors_Is cause ErrNotFound \<longrightarrow>
       (zc_store (s_zones s') (cache_key (SecretRef_String ref) apex) = None \<longleftrightarrow>
        stage \<noteq> ''set existing RRSet records (conflict path)''))"
proof -
  let ?z = "resolveZoneID (pf_uc pf) s (contextFor s w) client (SecretRef_String ref) apex w1"
  obtain ri s2 w2 where z: "?z = (ri, s2, w2)" by (cases ?z)
  have inval: "zc_store (Invalidate r a c) (cache_key r a) = None" for r a and c :: "'a zoneCache"
    by (simp add: Invalidate_def)
  show ?thesis
  proof (cases ri)
    case (Inl e0)
    with P prep z resolveZoneID_error_forgets [of _ s] show ?thesis
      by (intro exI [of _ "''resolve zone''"] exI [of _ e0]) (auto simp: Present_def Let_def)
  next
    case (Inr i)
    then obtain ec w3 where c: "hc_CreateRRSet client (contextFor s w) i (create_request (pf_uc pf) s2
        (relativeRecordName (pf_uc pf) (ch_ResolvedFQDN ch) apex) (ch_Key ch)) w2 = (Inl ec, w3)"
      using P prep z by (auto simp: Present_def Let_def split: prod.splits sum.splits)
    show ?thesis
    proof (cases "errors_Is ec ErrConflict")
      case True
      with Inr P prep z c resolveZoneID_ok_caches [OF z [unfolded Inr]] show ?thesis
        by (auto simp: Present_def Let_def reconcileExisting_def split: prod.splits sum.splits)
    next
      case False
      with Inr P prep z c inval show ?thesis
        by (intro exI [of _ "''create RRSet''"] exI [of _ ec]) (auto simp: Present_def Let_def split: if_splits)
    qed
  qed
qed

lemma CleanUp_failure:
  assumes prep: "prepare pf s (contextFor s w) ch w = (Inr (cr, ref, client, apex), w1)"
    and C: "CleanUp pf s (Some ch) w = (Some e, s', w')"
  shows "\<exists>stage cause. e = wrapError (pf_uc pf) stage (cred_Name cr) apex cause \<and>
    stage \<in> {''resolve zone'', ''delete RRSet''} \<and> \<not> errors_Is cause ErrNotFound"
  using assms by (auto simp: CleanUp_def Let_def split: prod.splits sum.splits if_splits)

end
