(* ===== verification/Rrset_Service.thy ===== *)
theory Rrset_Service
  imports Solver_Correct
begin

text \<open>
  What the solver achieves on the other side of the wire. The locale \<open>rrset_service\<close> states the
  contract of a DNS service reached through an \<open>HCloudClient\<close>: which records it holds, how the
  four endpoints change them, and what a result tells about them when requests or responses may
  be lost and are retried. Inside the locale \<open>Present\<close> and \<open>CleanUp\<close> are shown to implement an
  assignment to, and the deletion of, one record set.
\<close>

section \<open>The contract\<close>

text \<open>A request the contract covers: ASCII text, no labels, a TTL that is an \<open>int\<close>.\<close>

definition ascii_records :: "Record list \<Rightarrow> bool" where
  "ascii_records rs \<longleftrightarrow> list_all (\<lambda>r. ascii (rec_Value r) \<and> ascii (rec_Comment r)) rs"

definition sendable :: "CreateRRSetRequest \<Rightarrow> bool" where
  "sendable q \<longleftrightarrow> ascii (crq_Name q) \<and> ascii (crq_Type q) \<and> ascii_records (crq_Records q) \<and>
     crq_Labels q = [] \<and> (\<forall>t. crq_TTL q = Some t \<longrightarrow> in_int64 t)"

text \<open>
  \<open>zones\<close> maps the names of the zones to their ids, \<open>recs\<close> the record sets, each at its
  \<open>slot\<close>, to their records; \<open>ok\<close> holds while the service accepts the client's token. Between
  the states before and after a call, \<open>Same\<close> says that nothing but the records may differ.
\<close>

locale rrset_service =
  fixes api :: "'e HCloudClient"
    and ok :: "'e \<Rightarrow> bool"
    and zones :: "'e \<Rightarrow> string \<rightharpoonup> int64"
    and slot :: "int64 \<Rightarrow> string \<Rightarrow> string \<Rightarrow> 'k"
    and recs :: "'e \<Rightarrow> 'k \<rightharpoonup> Record list"
  assumes list_service: "ok (ext w) \<Longrightarrow> hc_ListZones api cx w = (r1, w') \<Longrightarrow>
      ok (ext w') \<and> zones (ext w') = zones (ext w) \<and> recs (ext w') = recs (ext w) \<and>
      (\<forall>zs n. r1 = Inr zs \<longrightarrow> map_option zone_ID (find (\<lambda>z. zone_Name z = n) zs) = zones (ext w) n) \<and>
      (\<forall>e. r1 = Inl e \<longrightarrow> \<not> errors_Is e ErrNotFound)"
    and create_service: "ok (ext w) \<Longrightarrow> sendable rq \<Longrightarrow> hc_CreateRRSet api cx i rq w = (r2, w') \<Longrightarrow>
      k = slot i (crq_Name rq) (crq_Type rq) \<Longrightarrow>
      ok (ext w') \<and> zones (ext w') = zones (ext w) \<and>
      recs (ext w') \<in> {recs (ext w), (recs (ext w))(k \<mapsto> crq_Records rq)} \<and>
      (is_ok r2 \<longrightarrow> recs (ext w') = (recs (ext w))(k \<mapsto> crq_Records rq)) \<and>
      (\<forall>e. r2 = Inl e \<longrightarrow> errors_Is e ErrConflict \<longrightarrow> k \<in> dom (recs (ext w')))"
    and set_service: "ok (ext w) \<Longrightarrow> ascii_records (srq_Records srq) \<Longrightarrow>
      hc_SetRRSetRecords api cx i n t srq w = (r3, w') \<Longrightarrow>
      ok (ext w') \<and> zones (ext w') = zones (ext w) \<and>
      recs (ext w') \<in> {recs (ext w), (recs (ext w))(slot i n t \<mapsto> srq_Records srq)} \<and>
      (is_ok r3 \<longrightarrow> recs (ext w') = (recs (ext w))(slot i n t \<mapsto> srq_Records srq))"
    and delete_service: "ok (ext w) \<Longrightarrow> hc_DeleteRRSet api cx i n t w = (r4, w') \<Longrightarrow>
      ok (ext w') \<and> zones (ext w') = zones (ext w) \<and>
      recs (ext w') \<in> {recs (ext w), (recs (ext w))(slot i n t := None)} \<and>
      (is_ok r4 \<or> (\<exists>e. r4 = Inl e \<and> errors_Is e ErrNotFound) \<longrightarrow>
         recs (ext w') = (recs (ext w))(slot i n t := None))"

section \<open>The cache\<close>

text \<open>Every cached id is the id of its zone.\<close>

definition coherent :: "(string \<rightharpoonup> int64) \<Rightarrow> 'e zoneCache \<Rightarrow> bool" where
  "coherent Z zc \<longleftrightarrow>
     (\<forall>ref apex e. zc_store zc (cache_key ref apex) = Some e \<longrightarrow> Z apex = Some (ze_id e))"

lemma coherent_Lookup:
  assumes "coherent Z zc" and "Lookup ref apex w zc = (r, zc')"
  shows "coherent Z zc'" and "r = Some i \<Longrightarrow> Z apex = Some i"
  using assms by (auto simp: coherent_def Lookup_def split: option.splits if_splits)

lemma coherent_Store: "coherent Z zc \<Longrightarrow> Z apex = Some i \<Longrightarrow> coherent Z (Store ref apex i w zc)"
  by (auto simp: coherent_def Store_def cache_key_inj)

lemma coherent_Invalidate: "coherent Z zc \<Longrightarrow> coherent Z (Invalidate ref apex zc)"
  by (auto simp: coherent_def Invalidate_def)

lemma coherent_new [simp]: "coherent Z (newZoneCache d f)"
  by (simp add: coherent_def newZoneCache_def)

section \<open>The solver over the contract\<close>

text \<open>The challenge, the record name and the settings are such that the request is covered.\<close>

definition writable :: "unicode \<Rightarrow> 'e Solver \<Rightarrow> ChallengeRequest \<Rightarrow> string \<Rightarrow> bool" where
  "writable u s ch apex \<longleftrightarrow> in_int64 (s_rrsetTTL s) \<and> ascii (quoteTXT u (ch_Key ch)) \<and>
     ascii (relativeRecordName u (ch_ResolvedFQDN ch) apex)"

definition challenge_records :: "unicode \<Rightarrow> ChallengeRequest \<Rightarrow> Record list" where
  "challenge_records u ch = [\<lparr>rec_Value = quoteTXT u (ch_Key ch), rec_Comment = []\<rparr>]"

lemma writable_request:
  assumes "writable u s ch apex" and "s_rrsetTTL s2 = s_rrsetTTL s"
  shows "sendable (create_request u s2 (relativeRecordName u (ch_ResolvedFQDN ch) apex) (ch_Key ch))"
    and "ascii_records (challenge_records u ch)"
  using assms by (simp_all add: writable_def sendable_def create_request_def ascii_records_def challenge_records_def
      defaultRRSetType_def ascii_def)

lemma resolveZoneID_cases:
  assumes "resolveZoneID u s cx client key apex w = (r, s', w')"
    and "Lookup key apex w (s_zones s) = (hit, zc)" and "hc_ListZones client cx w = (rl, w1)"
  obtains (hit) i where "hit = Some i" "r = Inr i" "s' = s\<lparr>s_zones := zc\<rparr>" "w' = w"
    | (err) e where "hit = None" "rl = Inl e" "r = Inl e" "s' = s\<lparr>s_zones := zc\<rparr>" "w' = w1"
    | (found) zs zn where "hit = None" "rl = Inr zs" "find (\<lambda>z. zone_Name z = apex) zs = Some zn"
        "r = Inr (zone_ID zn)" "s' = s\<lparr>s_zones := Store key apex (zone_ID zn) w1 zc\<rparr>" "w' = w1"
    | (absent) zs where "hit = None" "rl = Inr zs" "find (\<lambda>z. zone_Name z = apex) zs = None"
        "r = Inl (not_found_error u apex)" "s' = s\<lparr>s_zones := zc\<rparr>" "w' = w1"
proof (cases hit)
  case None
  show ?thesis
  proof (cases rl)
    case (Inl e)
    with None assms show ?thesis by (intro err) (auto simp: resolveZoneID_def)
  next
    case (Inr zs)
    show ?thesis
    proof (cases "find (\<lambda>z. zone_Name z = apex) zs")
      case None
      with Inr \<open>hit = None\<close> assms show ?thesis by (intro absent) (auto simp: resolveZoneID_def)
    next
      case (Some zn)
      with Inr \<open>hit = None\<close> assms show ?thesis by (intro found) (auto simp: resolveZoneID_def)
    qed
  qed
next
  case (Some i)
  with assms show ?thesis by (intro hit) (auto simp: resolveZoneID_def)
qed

context rrset_service
begin

lemma resolve_service:
  assumes "ok (ext w)" and "coherent (zones (ext w)) (s_zones s)"
    and "resolveZoneID u s cx api key apex w = (r, s', w')"
  shows "ok (ext w')" and "zones (ext w') = zones (ext w)" and "recs (ext w') = recs (ext w)"
    and "coherent (zones (ext w)) (s_zones s')" and "s_rrsetTTL s' = s_rrsetTTL s"
    and "\<And>i. r = Inr i \<Longrightarrow> zones (ext w) apex = Some i"
    and "\<And>e. r = Inl e \<Longrightarrow> errors_Is e ErrNotFound \<Longrightarrow> zones (ext w) apex = None"
proof -
  obtain hit zc where l: "Lookup key apex w (s_zones s) = (hit, zc)" by force
  note lk = coherent_Lookup [OF assms(2) l]
  obtain rl w1 where z: "hc_ListZones api cx w = (rl, w1)" by force
  have ls: "ok (ext w1)" "zones (ext w1) = zones (ext w)" "recs (ext w1) = recs (ext w)"
    and listed: "rl = Inr zs \<Longrightarrow> map_option zone_ID (find (\<lambda>z. zone_Name z = n) zs) = zones (ext w) n"
    and failed: "rl = Inl e \<Longrightarrow> \<not> errors_Is e ErrNotFound" for zs n e
    using list_service [OF assms(1) z] by blast+
  note outcome = resolveZoneID_cases [OF assms(3) l z, case_names hit err found absent]
  show "ok (ext w')" "zones (ext w') = zones (ext w)" "recs (ext w') = recs (ext w)" "s_rrsetTTL s' = s_rrsetTTL s"
    by (cases rule: outcome; use assms(1) ls in simp)+
  show "coherent (zones (ext w)) (s_zones s')"
  proof (cases rule: outcome)
    case (found zs zn)
    with listed [of zs apex] lk(1) show ?thesis by (auto intro: coherent_Store)
  qed (use lk(1) in simp_all)
  show "zones (ext w) apex = Some i" if "r = Inr i" for i
  proof (cases rule: outcome)
    case (found zs zn)
    with listed [of zs apex] that show ?thesis by auto
  qed (use that lk(2) in simp_all)
  show "zones (ext w) apex = None" if "r = Inl e" "errors_Is e ErrNotFound" for e
  proof (cases rule: outcome)
    case (absent zs)
    with listed [of zs apex] show ?thesis by auto
  qed (use that failed in auto)
qed

text \<open>
  \<open>Present\<close> assigns to the one record set of the challenge: on success it holds exactly the
  quoted key, on failure it does or nothing has changed; no other record set changes, whatever
  is lost on the way.
\<close>

lemma present_service:
  assumes prep: "prepare pf s (contextFor s w) ch w = (Inr (cr, ref, api, apex), w1)"
    and P: "Present pf s (Some ch) w = (r, s', w')"
    and ok: "ok (ext w1)" and coh: "coherent (zones (ext w1)) (s_zones s)" and wr: "writable (pf_uc pf) s ch apex"
    and k: "k = (\<lambda>i. slot i (relativeRecordName (pf_uc pf) (ch_ResolvedFQDN ch) apex) ''TXT'')"
    and R: "R = recs (ext w1)" and X: "X = challenge_records (pf_uc pf) ch"
  shows "ok (ext w') \<and> zones (ext w') = zones (ext w1) \<and> coherent (zones (ext w1)) (s_zones s') \<and>
    (recs (ext w') = R \<and> r \<noteq> None \<or> (\<exists>i. zones (ext w1) apex = Some i \<and> recs (ext w') = R(k i \<mapsto> X)))"
proof -
  let ?u = "pf_uc pf" and ?cx = "contextFor s w"
  let ?name = "relativeRecordName ?u (ch_ResolvedFQDN ch) apex"
  obtain ri s2 w2 where z: "resolveZoneID ?u s ?cx api (SecretRef_String ref) apex w1 = (ri, s2, w2)"
    by (cases "resolveZoneID ?u s ?cx api (SecretRef_String ref) apex w1")
  note rs = resolve_service [OF ok coh z]
  show ?thesis
  proof (cases ri)
    case (Inl e)
    with P prep z have "r \<noteq> None" "s' = s2" "w' = w2" by (auto simp: Present_def Let_def)
    with rs R show ?thesis by simp
  next
    case (Inr i)
    let ?rq = "create_request ?u s2 ?name (ch_Key ch)"
    obtain rc w3 where c: "hc_CreateRRSet api ?cx i ?rq w2 = (rc, w3)" by force
    note wr2 = writable_request [OF wr rs(5)]
    have ki: "k i = slot i (crq_Name ?rq) (crq_Type ?rq)" and Xi: "crq_Records ?rq = X"
      by (simp_all add: k X create_request_def defaultRRSetType_def challenge_records_def)
    note cs = create_service [OF rs(1) wr2(1) c ki, unfolded Xi rs(2) rs(3) R [symmetric]]
    show ?thesis
    proof (cases "\<exists>e. rc = Inl e \<and> errors_Is e ErrConflict")
      case True
      then obtain e where e: "rc = Inl e" "errors_Is e ErrConflict" by auto
      let ?srq = "\<lparr>srq_Records = X\<rparr>"
      obtain rs3 w4 where st: "hc_SetRRSetRecords api ?cx i ?name ''TXT'' ?srq w3 = (rs3, w4)" by force
      have "ascii_records (srq_Records ?srq)" using wr2(2) X by simp
      from set_service [OF _ this st] cs
      have ss: "ok (ext w4)" "zones (ext w4) = zones (ext w1)"
          "recs (ext w4) \<in> {recs (ext w3), (recs (ext w3))(k i \<mapsto> X)}"
          "is_ok rs3 \<longrightarrow> recs (ext w4) = (recs (ext w3))(k i \<mapsto> X)"
        by (simp_all add: k)
      have fin: "s' = s2" "ext w' = ext w4" "r = None \<longleftrightarrow> is_ok rs3"
        using Inr e P prep z c st
        by (auto simp: Present_def Let_def reconcileExisting_def defaultRRSetType_def challenge_records_def X
            split: sum.splits)
      from cs ss rs(4) rs(6) [OF Inr] fin show ?thesis by auto
    next
      case False
      then have fin: "ext w' = ext w3" "r = None \<longleftrightarrow> is_ok rc"
          "s' = s2 \<or> s' = s2\<lparr>s_zones := Invalidate (SecretRef_String ref) apex (s_zones s2)\<rparr>"
        using Inr P prep z c by (auto simp: Present_def Let_def split: sum.splits if_splits)
      then have "coherent (zones (ext w1)) (s_zones s')" using rs(4) by (auto intro: coherent_Invalidate)
      with cs rs(6) [OF Inr] fin show ?thesis by auto
    qed
  qed
qed

text \<open>\<open>CleanUp\<close> deletes that record set, or finds that its zone does not exist.\<close>

lemma cleanup_service:
  assumes prep: "prepare pf s (contextFor s w) ch w = (Inr (cr, ref, api, apex), w1)"
    and C: "CleanUp pf s (Some ch) w = (r, s', w')"
    and ok: "ok (ext w1)" and coh: "coherent (zones (ext w1)) (s_zones s)"
    and k: "k = (\<lambda>i. slot i (relativeRecordName (pf_uc pf) (ch_ResolvedFQDN ch) apex) ''TXT'')"
    and R: "R = recs (ext w1)"
  shows "ok (ext w') \<and> zones (ext w') = zones (ext w1) \<and> coherent (zones (ext w1)) (s_zones s') \<and>
    (recs (ext w') = R \<and> (r \<noteq> None \<or> zones (ext w1) apex = None) \<or>
     (\<exists>i. zones (ext w1) apex = Some i \<and> recs (ext w') = R(k i := None)))"
proof -
  let ?u = "pf_uc pf" and ?cx = "contextFor s w"
  let ?name = "relativeRecordName ?u (ch_ResolvedFQDN ch) apex"
  obtain ri s2 w2 where z: "resolveZoneID ?u s ?cx api (SecretRef_String ref) apex w1 = (ri, s2, w2)"
    by (cases "resolveZoneID ?u s ?cx api (SecretRef_String ref) apex w1")
  note rs = resolve_service [OF ok coh z]
  show ?thesis
  proof (cases ri)
    case (Inl e)
    with C prep z have "r = None \<longrightarrow> errors_Is e ErrNotFound" "s' = s2" "ext w' = ext w2"
      by (auto simp: CleanUp_def Let_def split: if_splits)
    with rs R Inl show ?thesis by auto
  next
    case (Inr i)
    obtain rd w3 where d: "hc_DeleteRRSet api ?cx i ?name ''TXT'' w2 = (rd, w3)" by force
    note ds = delete_service [OF rs(1) d, unfolded rs(2) rs(3) R [symmetric]]
    have "s' = s2" "ext w' = ext w3" "r = None \<longleftrightarrow> is_ok rd \<or> (\<exists>e. rd = Inl e \<and> errors_Is e ErrNotFound)"
      using Inr C prep z d by (auto simp: CleanUp_def Let_def defaultRRSetType_def split: sum.splits if_splits)
    with ds rs(4) rs(6) [OF Inr] show ?thesis by (auto simp: k)
  qed
qed

end

end
