(* ===== verification/Net_Client.thy ===== *)
theory Net_Client
  imports Mock_Correct Rrset_Service
begin

text \<open>
  The client of package \<open>hcloud\<close> talking to the test server over the lossy network fulfils the
  contract of a DNS service: every request may reach the server any number of times, as retries
  follow lost responses, and a result that rests on an answer reflects the state the server is in.
\<close>

section \<open>Attempts\<close>

text \<open>What the client makes of an answer.\<close>

definition reading :: "golib \<Rightarrow> 'a decoder option \<Rightarrow> 'a \<Rightarrow> http_response \<Rightarrow> 'a option" where
  "reading lib out zero resp = (case out of
     None \<Rightarrow> Some zero
   | Some decode \<Rightarrow>
       if rs_Body resp = [] then Some zero
       else (case json_Unmarshal lib decode zero (rs_Body resp) of Inl _ \<Rightarrow> None | Inr v \<Rightarrow> Some v))"

definition answered :: "golib \<Rightarrow> 'a decoder option \<Rightarrow> 'a \<Rightarrow> http_response \<Rightarrow> 'a result \<Rightarrow> bool" where
  "answered lib out zero resp r \<longleftrightarrow>
     (if 200 \<le> rs_StatusCode resp \<and> rs_StatusCode resp < 300
      then (case reading lib out zero resp of Some v \<Rightarrow> r = Inr v | None \<Rightarrow> \<exists>p e. r = Inl (EWrap p (EExt e) []))
      else (\<exists>a. r = Inl (EAPI a) \<and> StatusCode a = rs_StatusCode resp))"

definition unanswered :: "'a result \<Rightarrow> bool" where
  "unanswered r \<longleftrightarrow> (\<exists>x. r = Inl (ECtx x)) \<or> (\<exists>a. r = Inl (EAPI a) \<and> StatusCode a = 0)"

section \<open>The server's side\<close>

text \<open>What is assumed of the libraries: \<open>url.Parse\<close> accepts the endpoint URLs, the zero time is
  read back, and \<open>range\<close> visits every entry of a map once.\<close>

definition endpoint_urls_ok :: "golib \<Rightarrow> string \<Rightarrow> bool" where
  "endpoint_urls_ok lib base \<longleftrightarrow> url_ParseError lib (base @ ''/v1/zones'') = None \<and>
     (\<forall>i. url_ParseError lib (base @ zone_path i) = None) \<and>
     (\<forall>i n t. url_ParseError lib (base @ rrset_path i n t) = None \<and>
        url_ParseError lib (base @ rrset_path i n t @ ''/actions/set_records'') = None)"

definition visits_all :: "('a list \<Rightarrow> 'a list) \<Rightarrow> bool" where
  "visits_all order \<longleftrightarrow> (\<forall>zs. distinct zs \<longrightarrow> distinct (order zs) \<and> set (order zs) = set zs)"

text \<open>The server accepts the token, has not reported a failure, and its zones are a proper map.\<close>

definition accepts :: "string \<Rightarrow> mockHCloudServer \<Rightarrow> bool" where
  "accepts tok m \<longleftrightarrow> mk_rejectAuthWith m = 0 \<and> (mk_expected m = [] \<or> mk_expected m = tok) \<and> \<not> mk_failed m \<and>
     distinct (map fst (mk_zones m)) \<and> list_all (\<lambda>p. ascii (fst p)) (mk_zones m)"

definition mock_recs :: "mockHCloudServer \<Rightarrow> int64 \<rightharpoonup> Record list" where
  "mock_recs m i = map_option rr_Records (mk_rrsets m i)"

definition noted :: "string \<Rightarrow> string \<Rightarrow> string \<Rightarrow> string \<Rightarrow> mockHCloudServer \<Rightarrow> mockHCloudServer" where
  "noted meth path body auth m = m\<lparr>mk_requests := mk_requests m @
     [\<lparr>rec_method = meth, rec_path = path, rec_body = body, rec_auth = auth\<rparr>]\<rparr>"

lemma noted_simps [simp]:
  "accepts tok (noted meth path body auth m) = accepts tok m"
  "mk_zones (noted meth path body auth m) = mk_zones m"
  "mk_rrsets (noted meth path body auth m) = mk_rrsets m"
  "mock_recs (noted meth path body auth m) = mock_recs m"
  by (simp_all add: noted_def accepts_def mock_recs_def fun_eq_iff)

lemma accepts_rrsets [simp]: "accepts tok (m\<lparr>mk_rrsets := R\<rparr>) = accepts tok m"
  by (simp add: accepts_def)

lemma find_listed:
  "map_option zone_ID (find (\<lambda>z. zone_Name z = n) (map listed_zone zs)) = map_of zs n"
  by (induction zs) (auto simp: listed_zone_def)

lemma find_visited:
  assumes "visits_all order" and "distinct (map fst zs)"
  shows "map_option zone_ID (find (\<lambda>z. zone_Name z = n) (map listed_zone (order zs))) = map_of zs n"
proof -
  have d: "distinct zs" using assms(2) by (simp add: distinct_map)
  then have o: "distinct (order zs)" "set (order zs) = set zs" using assms(1) by (auto simp: visits_all_def)
  moreover have "inj_on fst (set zs)" using assms(2) by (simp add: distinct_map)
  ultimately have "distinct (map fst (order zs))" by (simp add: distinct_map)
  then have "map_of (order zs) = map_of zs"
    using o(2) assms(2) by (simp add: map_of_inject_set)
  then show ?thesis by (simp add: find_listed)
qed

lemma ascii_records_iff: "ascii_records rs \<longleftrightarrow> list_all record_ascii rs"
  by (simp add: ascii_records_def record_ascii_def list_all_iff)

locale net_client = client_env c tok for c :: "network Client" and tok +
  fixes lib :: golib and order :: "(string \<times> int64) list \<Rightarrow> (string \<times> int64) list"
  assumes over_net: "cl_httpClient c = net_http lib order (cl_baseURL c)"
    and retries: "0 \<le> cl_maxRetries c"
    and urls: "endpoint_urls_ok lib (cl_baseURL c)"
    and zero: "parses_zero_time lib"
    and visits: "visits_all order"
begin

definition serve :: "string \<Rightarrow> string \<Rightarrow> string option \<Rightarrow> mockHCloudServer \<Rightarrow> http_response option \<times> mockHCloudServer" where
  "serve meth path body m = serve_request lib order (cl_baseURL c) (make_request c meth path body tok) m"

lemma net_call:
  assumes "call_out (net_http lib order (cl_baseURL c) rx (make_request c meth path body tok)) w = (res, w')"
  shows "(\<exists>e. res = Inl e) \<and> net_server (ext w') \<in> {net_server (ext w), snd (serve meth path body (net_server (ext w)))} \<or>
    (\<exists>resp. res = Inr resp \<and> serve meth path body (net_server (ext w)) = (Some resp, net_server (ext w')))"
  using assms
  by (cases "serve meth path body (net_server (ext w))")
    (auto simp: call_out_def net_http_def serve_def Let_def split: option.splits prod.splits if_splits)

lemma doOnce_net:
  assumes "url_ParseError lib (cl_baseURL c @ path) = None"
    and "doOnce lib c cx meth path body out zero w = (r, w')"
  shows "unanswered r \<and> net_server (ext w') \<in> {net_server (ext w), snd (serve meth path body (net_server (ext w)))} \<or>
    (\<exists>resp. serve meth path body (net_server (ext w)) = (Some resp, net_server (ext w')) \<and> answered lib out zero resp r)"
proof -
  let ?rc = "WithTimeout cx (cl_requestTimeout c) (now w)"
  let ?rq = "make_request c meth path body tok"
  let ?w2 = "emit (HttpSent ?rq) (LogAttrs (cl_logger c) LevelDebug ''hcloud: request''
                          [AStr ''method'' meth, AStr ''url'' (cl_baseURL c @ path),
                           AStr ''authorization'' (''Bearer '' @ redactedToken)] w)"
  obtain res w3 where out: "call_out (net_http lib order (cl_baseURL c) ?rc ?rq) ?w2 = (res, w3)"
    by (cases "call_out (net_http lib order (cl_baseURL c) ?rc ?rq) ?w2")
  have "ext ?w2 = ext w" by simp
  note nc = net_call [OF out, unfolded this]
  show ?thesis
  proof (cases res)
    case (Inl e)
    with assms out have "unanswered r" "ext w' = ext w3"
      by (auto simp: doOnce_def over_net static_token StaticToken_def Let_def unanswered_def)
    with nc Inl show ?thesis by auto
  next
    case (Inr resp)
    with assms out have "answered lib out zero resp r" "ext w' = ext w3"
      by (auto simp: doOnce_def over_net static_token StaticToken_def Let_def answered_def reading_def
          split: option.splits sum.splits if_splits)
    with nc Inr show ?thesis by auto
  qed
qed

text \<open>A property of the server the request preserves survives any number of attempts; a result
  that rests on an answer is the answer to the last attempt.\<close>

lemma do_loop_net:
  assumes url: "url_ParseError lib (cl_baseURL c @ path) = None"
    and "do_loop lib c cx meth path body out zero attempt lastErr w = (r, w')"
    and "attempt \<le> cl_maxRetries c" and "P (net_server (ext w))"
    and pres: "\<And>m. P m \<Longrightarrow> P (snd (serve meth path body m))"
  shows "P (net_server (ext w')) \<and> (unanswered r \<or>
    (\<exists>m resp. P m \<and> serve meth path body m = (Some resp, net_server (ext w')) \<and> answered lib out zero resp r))"
  using assms(2-4)
proof (induction "nat (cl_maxRetries c - attempt)" arbitrary: attempt lastErr w rule: less_induct)
  case less
  obtain b w1 where b: "before_attempt c cx meth path attempt lastErr w = (b, w1)"
    by (cases "before_attempt c cx meth path attempt lastErr w")
  have same: "ext w1 = ext w"
    using b clock.sleep_frame by (fastforce simp: before_attempt_def Let_def split: if_splits)
  show ?case
  proof (cases b)
    case (Some e)
    then have "r = Inl e" "w' = w1" "\<exists>x. e = ECtx x"
      using less.prems(1,2) b before_attempt_effect(7) [OF b] by (auto simp: do_loop.simps)
    with less.prems(3) same show ?thesis by (auto simp: unanswered_def)
  next
    case None
    obtain r2 w2 where d: "doOnce lib c cx meth path body out zero w1 = (r2, w2)"
      by (cases "doOnce lib c cx meth path body out zero w1")
    have one: "P (net_server (ext w2)) \<and> (unanswered r2 \<or>
        (\<exists>m resp. P m \<and> serve meth path body m = (Some resp, net_server (ext w2)) \<and> answered lib out zero resp r2))"
      using doOnce_net [OF url d] less.prems(3) pres same by (metis insertE singletonD snd_conv)
    show ?thesis
    proof (cases "(\<exists>e. r2 = Inl e \<and> isRetryable e) \<and> attempt < cl_maxRetries c")
      case True
      then obtain e where e: "r2 = Inl e" "isRetryable e" "attempt < cl_maxRetries c" by auto
      with less.prems b None d
      have "do_loop lib c cx meth path body out zero (attempt + 1) (Some e) w2 = (r, w')"
        by (simp add: do_loop.simps [of _ _ _ _ _ _ _ _ attempt])
      from less.hyps [OF _ this] e one show ?thesis by simp
    next
      case False
      have "do_loop lib c cx meth path body out zero (cl_maxRetries c + 1) (Some e) v = (Inl e, v)" for e v
        by (simp add: do_loop.simps)
      with False less.prems b None d have "r = r2" "w' = w2"
        by (auto simp: do_loop.simps [of _ _ _ _ _ _ _ _ attempt] split: sum.splits if_splits)
      with one show ?thesis by simp
    qed
  qed
qed

lemma client_do_net:
  assumes "url_ParseError lib (cl_baseURL c @ path) = None"
    and "client_do lib c cx meth path body out zero w = (r, w')"
    and "P (net_server (ext w))" and "\<And>m. P m \<Longrightarrow> P (snd (serve meth path (map_option json_print body) m))"
  shows "P (net_server (ext w')) \<and> (unanswered r \<or>
    (\<exists>m resp. P m \<and> serve meth path (map_option json_print body) m = (Some resp, net_server (ext w')) \<and>
       answered lib out zero resp r))"
  using do_loop_net [OF assms(1) assms(2) [unfolded client_do_def] retries] assms(3,4) by blast

lemma serve_accepted:
  assumes "accepts tok m" and "PathUnescape path = Some p"
  shows "serve meth path body m = route_request lib (order (mk_zones m)) meth p (case body of None \<Rightarrow> [] | Some b \<Rightarrow> b)
    (noted meth p (case body of None \<Rightarrow> [] | Some b \<Rightarrow> b) (''Bearer '' @ tok) m)"
proof -
  have "header_Get (rq_header (make_request c meth path body tok)) ''Authorization'' = ''Bearer '' @ tok"
    by (simp add: header_Get_def make_request_def)
  then show ?thesis
    using assms by (auto simp: serve_def serve_request_def Handler_def Let_def make_request_def accepts_def noted_def)
qed

lemma PathUnescape_zones: "PathUnescape ''/v1/zones'' = Some ''/v1/zones''"
  by simp

lemma serve_list:
  "accepts tok m \<Longrightarrow> serve ''GET'' ''/v1/zones'' None m =
     (Some (serveListZones (order (mk_zones m))), noted ''GET'' ''/v1/zones'' [] (''Bearer '' @ tok) m)"
  by (simp only: serve_accepted [OF _ PathUnescape_zones] route_list option.case)

lemma serve_create:
  assumes "accepts tok m" and "sendable q"
  shows "serve ''POST'' (zone_path i) (Some (json_print (marshal_CreateRRSetRequest q))) m =
    map_prod Some id (serveCreate i q (noted ''POST'' (zone_path i) (json_print (marshal_CreateRRSetRequest q))
      (''Bearer '' @ tok) m))"
proof -
  have "json_Unmarshal lib (dec_CreateRRSetRequest lib) zero_CreateRRSetRequest
      (json_print (marshal_CreateRRSetRequest q)) = Inr q"
    using assms(2) by (intro Unmarshal_Create)
      (simp_all add: sendable_def create_ascii_def ascii_records_iff labels_sorted_def)
  from route_create [OF this] show ?thesis
    by (simp only: serve_accepted [OF assms(1) PathUnescape_zone_path] option.case)
qed

lemma serve_set:
  assumes "accepts tok m" and "ascii_records (srq_Records q)"
  shows "\<exists>p b. serve ''POST'' (rrset_path i n t @ ''/actions/set_records'')
      (Some (json_print (marshal_SetRRSetRecordsRequest q))) m =
    map_prod Some id (serveSetRecords i q (noted ''POST'' p b (''Bearer '' @ tok) m))"
proof -
  have "json_Unmarshal lib (dec_SetRRSetRecordsRequest lib) \<lparr>srq_Records = []\<rparr>
      (json_print (marshal_SetRRSetRecordsRequest q)) = Inr q"
    using assms(2) by (intro Unmarshal_Set) (simp add: ascii_records_iff)
  from route_set [OF this]
    PathUnescape_rrset_path [of "''/actions/set_records''" i n t] show ?thesis
    by (auto simp: serve_accepted [OF assms(1)])
qed

lemma serve_delete:
  assumes "accepts tok m"
  shows "\<exists>p. serve ''DELETE'' (rrset_path i n t) None m =
    map_prod Some id (serveDelete i (noted ''DELETE'' p [] (''Bearer '' @ tok) m))"
  using PathUnescape_rrset_path [of "[]" i n t] by (auto simp: serve_accepted [OF assms] route_delete)

text \<open>The state of the server but for the request log.\<close>

definition state_is :: "mockHCloudServer \<Rightarrow> (int64 \<rightharpoonup> Record list) set \<Rightarrow> mockHCloudServer \<Rightarrow> bool" where
  "state_is m0 RS m \<longleftrightarrow> accepts tok m \<and> mk_zones m = mk_zones m0 \<and> mock_recs m \<in> RS"

lemma state_is_start: "accepts tok m \<Longrightarrow> mock_recs m \<in> RS \<Longrightarrow> state_is m RS m"
  by (simp add: state_is_def)

lemma unanswered_error: "unanswered r \<Longrightarrow> \<not> is_ok r \<and> (r = Inl e \<longrightarrow> \<not> errors_Is e ErrConflict \<and> \<not> errors_Is e ErrNotFound)"
  by (auto simp: unanswered_def APIError_Is_def)

lemma list_law:
  assumes "accepts tok (net_server (ext w))" and "ListZones lib c cx w = (r, w')"
  shows "state_is (net_server (ext w)) {mock_recs (net_server (ext w))} (net_server (ext w'))"
    and "r = Inr zs \<Longrightarrow> map_option zone_ID (find (\<lambda>z. zone_Name z = n) zs) = map_of (mk_zones (net_server (ext w))) n"
    and "r = Inl e \<Longrightarrow> \<not> errors_Is e ErrNotFound"
proof -
  let ?m0 = "net_server (ext w)" and ?out = "Some (dec_listZonesResponse lib)"
  let ?P = "state_is ?m0 {mock_recs ?m0}"
  obtain r0 where d: "client_do lib c cx ''GET'' ''/v1/zones'' None ?out zero_listZonesResponse w = (r0, w')"
    and r: "r = (case r0 of Inl e \<Rightarrow> Inl e | Inr o' \<Rightarrow> Inr (lz_Zones o'))"
    using assms(2) by (auto simp: ListZones_def split: prod.splits sum.splits)
  have "?P m \<Longrightarrow> ?P (snd (serve ''GET'' ''/v1/zones'' (map_option json_print None) m))" for m
    by (simp add: state_is_def serve_list)
  note net = client_do_net [OF _ d, of ?P, OF _ state_is_start this]
  then have P: "?P (net_server (ext w'))" and a: "unanswered r0 \<or> (\<exists>m resp. ?P m \<and>
      serve ''GET'' ''/v1/zones'' None m = (Some resp, net_server (ext w')) \<and>
      answered lib ?out zero_listZonesResponse resp r0)"
    using urls assms(1) by (simp_all add: endpoint_urls_ok_def)
  show "?P (net_server (ext w'))" by (fact P)
  have ans: "unanswered r0 \<or> r0 = Inr (zero_listZonesResponse\<lparr>lz_Zones := map listed_zone (order (mk_zones ?m0))\<rparr>)"
  proof -
    have "list_all (\<lambda>p. ascii (fst p)) (order (mk_zones ?m0))"
      using assms(1) visits by (auto simp: accepts_def visits_all_def distinct_map list_all_iff)
    note za = zones_answer [OF zero this]
    have "rs_StatusCode (serveListZones zs) = 200" "rs_Body (serveListZones zs) \<noteq> []" for zs
      by (simp_all add: serveListZones_def writeJSON_def)
    with a za show ?thesis
      by (auto simp: state_is_def serve_list answered_def reading_def)
  qed
  then show "map_option zone_ID (find (\<lambda>z. zone_Name z = n) zs) = map_of (mk_zones ?m0) n" if "r = Inr zs"
    using that r find_visited [OF visits, of "mk_zones ?m0" n] assms(1)
    by (auto simp: unanswered_def accepts_def)
  show "\<not> errors_Is e ErrNotFound" if "r = Inl e"
    using ans that r unanswered_error [of r0 e] by (auto split: sum.splits)
qed

lemma mock_recs_simps [simp]:
  "mock_recs (m\<lparr>mk_rrsets := (mk_rrsets m)(i \<mapsto> x)\<rparr>) = (mock_recs m)(i \<mapsto> rr_Records x)"
  "mock_recs (m\<lparr>mk_rrsets := (mk_rrsets m)(i := None)\<rparr>) = (mock_recs m)(i := None)"
  by (auto simp: mock_recs_def fun_eq_iff)

lemma serveCreate_effect:
  "serveCreate i q m = (resp, m') \<Longrightarrow>
    mk_zones m' = mk_zones m \<and> accepts tok m' = accepts tok m \<and>
    (if i \<in> dom (mock_recs m) then mock_recs m' = mock_recs m \<and> rs_StatusCode resp = 409
     else mock_recs m' = (mock_recs m)(i \<mapsto> crq_Records q) \<and>
       resp = writeJSON 201 (JObj [(''rrset'', marshal_RRSet (mock_rrset i q))]))"
  by (auto simp: serveCreate_def writeError_def writeJSON_def mock_rrset_def mock_recs_def split: option.splits)

lemma serveSetRecords_effect:
  "serveSetRecords i q m = (resp, m') \<Longrightarrow>
    mk_zones m' = mk_zones m \<and> accepts tok m' = accepts tok m \<and>
    (if i \<in> dom (mock_recs m) then mock_recs m' = (mock_recs m)(i \<mapsto> srq_Records q)
     else mock_recs m' = mock_recs m \<and> rs_StatusCode resp = 404)"
  by (auto simp: serveSetRecords_def writeError_def writeJSON_def mock_recs_def split: option.splits)

lemma serveDelete_effect:
  "serveDelete i m = (resp, m') \<Longrightarrow>
    mk_zones m' = mk_zones m \<and> accepts tok m' = accepts tok m \<and> mock_recs m' = (mock_recs m)(i := None)"
  by (auto simp: serveDelete_def mock_recs_def fun_eq_iff split: option.splits)

lemma create_served:
  assumes "accepts tok m" and "sendable q"
    and "serve ''POST'' (zone_path i) (Some (json_print (marshal_CreateRRSetRequest q))) m = (ro, m')"
  shows "\<exists>resp. ro = Some resp \<and> mk_zones m' = mk_zones m \<and> accepts tok m' \<and>
    (if i \<in> dom (mock_recs m) then mock_recs m' = mock_recs m \<and> rs_StatusCode resp = 409
     else mock_recs m' = (mock_recs m)(i \<mapsto> crq_Records q) \<and>
       resp = writeJSON 201 (JObj [(''rrset'', marshal_RRSet (mock_rrset i q))]))"
proof -
  let ?m1 = "noted ''POST'' (zone_path i) (json_print (marshal_CreateRRSetRequest q)) (''Bearer '' @ tok) m"
  obtain resp where "serveCreate i q ?m1 = (resp, m')" and "ro = Some resp"
    using assms(3) by (cases "serveCreate i q ?m1") (auto simp: serve_create [OF assms(1,2)])
  with serveCreate_effect [OF this(1)] assms(1) show ?thesis by simp
qed

lemma create_law:
  assumes "accepts tok (net_server (ext w))" and "sendable q" and "CreateRRSet lib c cx i q w = (r, w')"
    and "R = mock_recs (net_server (ext w))"
  shows "state_is (net_server (ext w)) {R, R(i \<mapsto> crq_Records q)} (net_server (ext w'))"
    and "is_ok r \<Longrightarrow> mock_recs (net_server (ext w')) = R(i \<mapsto> crq_Records q)"
    and "r = Inl e \<Longrightarrow> errors_Is e ErrConflict \<Longrightarrow> i \<in> dom (mock_recs (net_server (ext w')))"
proof -
  let ?m0 = "net_server (ext w)" and ?body = "Some (json_print (marshal_CreateRRSetRequest q))"
  let ?P = "state_is ?m0 {R, R(i \<mapsto> crq_Records q)}"
  have step: "?P (snd (serve ''POST'' (zone_path i) ?body m))" if "?P m" for m
  proof -
    obtain ro m' where sv: "serve ''POST'' (zone_path i) ?body m = (ro, m')" by force
    have "accepts tok m" using that by (simp add: state_is_def)
    from create_served [OF this assms(2) sv] that sv show ?thesis
      by (auto simp: state_is_def split: if_splits)
  qed
  have net: "?P (net_server (ext w')) \<and> (unanswered r \<or> (\<exists>m resp. ?P m \<and>
      serve ''POST'' (zone_path i) ?body m = (Some resp, net_server (ext w')) \<and>
      answered lib (Some (dec_rrsetEnvelope lib)) zero_RRSet resp r))"
    using client_do_net [OF _ assms(3) [unfolded CreateRRSet_def], of ?P] urls assms(1,4) step
    by (simp add: endpoint_urls_ok_def state_is_start)
  then show "?P (net_server (ext w'))" by blast
  have ans: "unanswered r \<or> (\<exists>m resp. ?P m \<and> answered lib (Some (dec_rrsetEnvelope lib)) zero_RRSet resp r \<and>
      (if i \<in> dom (mock_recs m) then mock_recs (net_server (ext w')) = mock_recs m \<and> rs_StatusCode resp = 409
       else mock_recs (net_server (ext w')) = (mock_recs m)(i \<mapsto> crq_Records q)))"
  proof -
    have "if i \<in> dom (mock_recs m) then mock_recs m' = mock_recs m \<and> rs_StatusCode resp = 409
       else mock_recs m' = (mock_recs m)(i \<mapsto> crq_Records q)"
      if "?P m" "serve ''POST'' (zone_path i) ?body m = (Some resp, m')" for m resp m'
    proof -
      have "accepts tok m" using that by (simp add: state_is_def)
      from create_served [OF this assms(2) that(2)] show ?thesis by (auto split: if_splits)
    qed
    with net show ?thesis by blast
  qed
  show "mock_recs (net_server (ext w')) = R(i \<mapsto> crq_Records q)" if "is_ok r"
    using ans that unanswered_error [of r] by (auto simp: state_is_def answered_def split: if_splits)
  show "i \<in> dom (mock_recs (net_server (ext w')))" if "r = Inl e" "errors_Is e ErrConflict"
    using ans that unanswered_error [of r e]
    by (auto simp: state_is_def answered_def split: if_splits) (metis fun_upd_same)
qed

lemma set_law:
  assumes "accepts tok (net_server (ext w))" and "ascii_records (srq_Records q)"
    and "SetRRSetRecords lib c cx i n t q w = (r, w')" and "R = mock_recs (net_server (ext w))"
  shows "state_is (net_server (ext w)) {R, R(i \<mapsto> srq_Records q)} (net_server (ext w'))"
    and "is_ok r \<Longrightarrow> mock_recs (net_server (ext w')) = R(i \<mapsto> srq_Records q)"
proof -
  let ?m0 = "net_server (ext w)" and ?body = "Some (json_print (marshal_SetRRSetRecordsRequest q))"
  let ?path = "rrset_path i n t @ ''/actions/set_records''"
  let ?P = "state_is ?m0 {R, R(i \<mapsto> srq_Records q)}"
  have served: "mk_zones m' = mk_zones m \<and> accepts tok m' \<and>
      (if i \<in> dom (mock_recs m) then mock_recs m' = (mock_recs m)(i \<mapsto> srq_Records q)
       else mock_recs m' = mock_recs m \<and> (\<forall>resp. ro = Some resp \<longrightarrow> rs_StatusCode resp = 404))"
    if acc: "accepts tok m" and sv: "serve ''POST'' ?path ?body m = (ro, m')" for m ro m'
  proof -
    obtain p b where "serve ''POST'' ?path ?body m =
        map_prod Some id (serveSetRecords i q (noted ''POST'' p b (''Bearer '' @ tok) m))"
      using serve_set [OF acc assms(2)] by blast
    then obtain resp where "serveSetRecords i q (noted ''POST'' p b (''Bearer '' @ tok) m) = (resp, m')" "ro = Some resp"
      using sv by (cases "serveSetRecords i q (noted ''POST'' p b (''Bearer '' @ tok) m)") auto
    with serveSetRecords_effect [OF this(1)] acc show ?thesis by simp
  qed
  have step: "?P (snd (serve ''POST'' ?path ?body m))" if "?P m" for m
  proof -
    obtain ro m' where sv: "serve ''POST'' ?path ?body m = (ro, m')" by force
    have "accepts tok m" using that by (simp add: state_is_def)
    from served [OF this sv] that sv show ?thesis by (auto simp: state_is_def split: if_splits)
  qed
  have net: "?P (net_server (ext w')) \<and> (unanswered r \<or> (\<exists>m resp. ?P m \<and>
      serve ''POST'' ?path ?body m = (Some resp, net_server (ext w')) \<and>
      answered lib (Some (dec_actionEnvelope lib)) zero_Action resp r))"
    using client_do_net [OF _ assms(3) [unfolded SetRRSetRecords_def], of ?P] urls assms(1,4) step
    by (simp add: endpoint_urls_ok_def state_is_start)
  then show "?P (net_server (ext w'))" by blast
  assume okr: "is_ok r"
  with net unanswered_error [of r] obtain m resp where m: "?P m"
    "serve ''POST'' ?path ?body m = (Some resp, net_server (ext w'))"
    "answered lib (Some (dec_actionEnvelope lib)) zero_Action resp r" by blast
  have "accepts tok m" using m(1) by (simp add: state_is_def)
  from served [OF this m(2)] m(1,3) okr show "mock_recs (net_server (ext w')) = R(i \<mapsto> srq_Records q)"
    by (auto simp: state_is_def answered_def split: if_splits)
qed

lemma delete_law:
  assumes "accepts tok (net_server (ext w))" and "DeleteRRSet lib c cx i n t w = (r, w')"
    and "R = mock_recs (net_server (ext w))"
  shows "state_is (net_server (ext w)) {R, R(i := None)} (net_server (ext w'))"
    and "is_ok r \<or> (\<exists>e. r = Inl e \<and> errors_Is e ErrNotFound) \<Longrightarrow> mock_recs (net_server (ext w')) = R(i := None)"
proof -
  let ?m0 = "net_server (ext w)" and ?path = "rrset_path i n t"
  let ?P = "state_is ?m0 {R, R(i := None)}"
  have served: "mk_zones m' = mk_zones m \<and> accepts tok m' \<and> mock_recs m' = (mock_recs m)(i := None)"
    if acc: "accepts tok m" and sv: "serve ''DELETE'' ?path None m = (ro, m')" for m ro m'
  proof -
    obtain p where "serve ''DELETE'' ?path None m =
        map_prod Some id (serveDelete i (noted ''DELETE'' p [] (''Bearer '' @ tok) m))"
      using serve_delete [OF acc] by blast
    then obtain resp where "serveDelete i (noted ''DELETE'' p [] (''Bearer '' @ tok) m) = (resp, m')"
      using sv by (cases "serveDelete i (noted ''DELETE'' p [] (''Bearer '' @ tok) m)") auto
    with serveDelete_effect [OF this] acc show ?thesis by simp
  qed
  have step: "?P (snd (serve ''DELETE'' ?path None m))" if "?P m" for m
  proof -
    obtain ro m' where sv: "serve ''DELETE'' ?path None m = (ro, m')" by force
    have "accepts tok m" using that by (simp add: state_is_def)
    from served [OF this sv] that sv show ?thesis by (auto simp: state_is_def)
  qed
  have net: "?P (net_server (ext w')) \<and> (unanswered r \<or> (\<exists>m resp. ?P m \<and>
      serve ''DELETE'' ?path None m = (Some resp, net_server (ext w')) \<and> answered lib None () resp r))"
    using client_do_net [OF _ assms(2) [unfolded DeleteRRSet_def], of ?P] urls assms(1,3) step
    by (simp add: endpoint_urls_ok_def state_is_start)
  then show "?P (net_server (ext w'))" by blast
  assume "is_ok r \<or> (\<exists>e. r = Inl e \<and> errors_Is e ErrNotFound)"
  with net unanswered_error [of r] obtain m resp where m: "?P m"
    "serve ''DELETE'' ?path None m = (Some resp, net_server (ext w'))" by blast
  have "accepts tok m" using m(1) by (simp add: state_is_def)
  from served [OF this m(2)] m(1) show "mock_recs (net_server (ext w')) = R(i := None)"
    by (auto simp: state_is_def)
qed

end

section \<open>The contract is fulfilled\<close>

sublocale net_client \<subseteq> service: rrset_service "as_HCloudClient lib c" "\<lambda>x. accepts tok (net_server x)"
  "\<lambda>x. map_of (mk_zones (net_server x))" "\<lambda>i n t. i" "\<lambda>x. mock_recs (net_server x)"
proof (unfold_locales, goal_cases)
  case (1 w cx r1 w')
  then have "accepts tok (net_server (ext w))" "ListZones lib c cx w = (r1, w')" by (simp_all add: as_HCloudClient_def)
  from list_law [OF this] show ?case unfolding state_is_def by simp
next
  case (2 w rq cx i r2 w' k)
  then have "accepts tok (net_server (ext w))" "CreateRRSet lib c cx i rq w = (r2, w')" by (simp_all add: as_HCloudClient_def)
  from create_law [OF this(1) \<open>sendable rq\<close> this(2) refl] \<open>k = i\<close> show ?case unfolding state_is_def by simp
next
  case (3 w srq cx i n t r3 w')
  then have "accepts tok (net_server (ext w))" "SetRRSetRecords lib c cx i n t srq w = (r3, w')"
    by (simp_all add: as_HCloudClient_def)
  from set_law [OF this(1) 3(2) this(2) refl] show ?case unfolding state_is_def by simp
next
  case (4 w cx i n t r4 w')
  then have "accepts tok (net_server (ext w))" "DeleteRRSet lib c cx i n t w = (r4, w')" by (simp_all add: as_HCloudClient_def)
  from delete_law [OF this refl] show ?case unfolding state_is_def by simp
qed

context net_client
begin

lemmas net_present = service.present_service
lemmas net_cleanup = service.cleanup_service

end

text \<open>The production client, and the client the tests build (\<open>wireFactory\<close>), over this network.\<close>

definition wireClient :: "golib \<Rightarrow> ((string \<times> int64) list \<Rightarrow> (string \<times> int64) list) \<Rightarrow> network transport \<Rightarrow> (time \<Rightarrow> bool)
    \<Rightarrow> string \<Rightarrow> string \<Rightarrow> network Client result" where
  "wireClient lib order defaultHTTP pick url token =
     client_New defaultHTTP pick (Some (StaticToken token))
       [WithBaseURL url, WithHTTPClient (Some (net_http lib order url)),
        WithBackoff (1 * millisecond) (5 * millisecond), WithMaxRetries 2]"

lemma wireClient_net:
  assumes "wireClient lib order http pick url tok = Inr c" and "url \<noteq> []" and "last url \<noteq> CHR ''/''"
    and "endpoint_urls_ok lib url" and "parses_zero_time lib" and "visits_all order"
  shows "net_client c tok lib order"
proof -
  have "client_env c tok"
    by (rule client_New_ok(1) [OF assms(1) [unfolded wireClient_def]]) (simp add: client_opt.intros)
  moreover have "TrimRight1 url (CHR ''/'') = url"
    using assms(2,3) by (cases url rule: rev_cases) (simp_all add: TrimRight1_def)
  then have "cl_baseURL c = url" "cl_httpClient c = net_http lib order url" "cl_maxRetries c = 2"
    using assms(1,2)
    by (auto simp: wireClient_def client_New_def WithBaseURL_def WithHTTPClient_def WithBackoff_def WithMaxRetries_def
        Let_def)
  ultimately show ?thesis using assms(4-6) by (simp add: net_client_def net_client_axioms_def)
qed

lemma default_client_net:
  assumes "endpoint_urls_ok lib DefaultBaseURL" and "parses_zero_time lib" and "visits_all order"
  shows "net_client (default_client (net_http lib order DefaultBaseURL) pick lg tok) tok lib order"
  using assms production.client_env_axioms [of "net_http lib order DefaultBaseURL" pick lg tok]
  by (simp add: net_client_def net_client_axioms_def) (simp add: default_client_def client_default_defs)

lemma sample_lib_net [simp]: "endpoint_urls_ok sample_lib base" "parses_zero_time sample_lib" "visits_all rev" "visits_all (\<lambda>zs. zs)"
  by (simp_all add: endpoint_urls_ok_def parses_zero_time_def sample_lib_def visits_all_def)

interpretation production_net: net_client
  "default_client (net_http sample_lib rev DefaultBaseURL) pick lg tok" tok sample_lib rev for pick lg tok
  by (rule default_client_net) simp_all

end
