(* ===== verification/Lifecycle.thy ===== *)
theory Lifecycle
  imports Solver_Correct
begin

text \<open>
  The life of a solver: construction with options, \<open>Initialize\<close>, then any sequence of
  \<open>Present\<close> and \<open>CleanUp\<close> calls while time passes and the outside world changes. The step
  relation \<open>lifecycle\<close> describes the reachable states, and an invariant holds in all of them.
\<close>

section \<open>The cache inside the solver\<close>

definition cache_ok :: "time \<Rightarrow> 'e zoneCache \<Rightarrow> bool" where
  "cache_ok t zc \<longleftrightarrow> 0 < sint (zc_ttl zc) \<and> zc_now zc = now \<and>
     (\<forall>k e. zc_store zc k = Some e \<longrightarrow> ze_expiresAt e \<le> t + sint (zc_ttl zc))"

lemma cache_ok_mono: "cache_ok t zc \<Longrightarrow> t \<le> t' \<Longrightarrow> cache_ok t' zc"
  by (force simp: cache_ok_def)

lemma cache_ok_Lookup: "cache_ok t zc \<Longrightarrow> Lookup ref z w zc = (r, zc') \<Longrightarrow> cache_ok t zc'"
  by (auto simp: cache_ok_def Lookup_def split: option.splits if_splits)

lemma cache_ok_Store: "cache_ok (now w) zc \<Longrightarrow> cache_ok (now w) (Store ref z i w zc)"
  by (auto simp: cache_ok_def Store_def)

lemma cache_ok_Invalidate: "cache_ok t zc \<Longrightarrow> cache_ok t (Invalidate ref z zc)"
  by (auto simp: cache_ok_def Invalidate_def)

lemmas cache_ok_intros = cache_ok_Lookup cache_ok_Store cache_ok_Invalidate

lemma cache_ok_new: "cache_ok t (newZoneCache d (Some now))"
  using newZoneCache_ttl [of d "Some now"] by (simp add: cache_ok_def newZoneCache_def)

text \<open>The solver \<open>s'\<close> is \<open>s\<close> up to its cache, which is in order at the instant of \<open>w'\<close>.\<close>

definition only_cache :: "'e Solver \<Rightarrow> 'e Solver \<Rightarrow> 'e world \<Rightarrow> bool" where
  "only_cache s s' w' \<longleftrightarrow> (\<exists>zc. s' = s\<lparr>s_zones := zc\<rparr> \<and> cache_ok (now w') zc)"

lemma only_cache_refl: "cache_ok (now w) (s_zones s) \<Longrightarrow> now w \<le> now w' \<Longrightarrow> only_cache s s w'"
  unfolding only_cache_def by (rule exI [of _ "s_zones s"]) (auto intro: cache_ok_mono)

lemma only_cache_later: "only_cache s s' w \<Longrightarrow> now w \<le> now w' \<Longrightarrow> only_cache s s' w'"
  by (auto simp: only_cache_def intro: cache_ok_mono)

lemma only_cache_Invalidate:
  "only_cache s s' w \<Longrightarrow> only_cache s (s'\<lparr>s_zones := Invalidate ref z (s_zones s')\<rparr>) w"
  by (auto simp: only_cache_def intro: cache_ok_Invalidate)

context zone_client
begin

lemma resolveZoneID_cache:
  assumes "resolveZoneID u s cx api key apex w = (r, s', w')" and "cache_ok (now w) (s_zones s)"
  shows "only_cache s s' w'"
proof -
  obtain hit zc where l: "Lookup key apex w (s_zones s) = (hit, zc)" by force
  obtain rl w1 where z: "hc_ListZones api cx w = (rl, w1)" by force
  have "cache_ok (now w) zc" by (rule cache_ok_Lookup [OF assms(2) l])
  moreover have "now w \<le> now w1" using list_calls [OF z] by (simp add: calls_def)
  ultimately have ok: "cache_ok (now w) zc" "cache_ok (now w1) zc" by (auto intro: cache_ok_mono)
  show ?thesis
    using assms(1) l z ok
    by (auto simp: resolveZoneID_def only_cache_def Let_def intro!: cache_ok_Store exI
        split: option.splits sum.splits)
qed

lemma Present_cache:
  assumes prep: "prepare pf s (contextFor s w) ch w = (Inr (cr, ref, api, apex), w1)"
    and P: "Present pf s (Some ch) w = (r, s', w')" and ok: "cache_ok (now w1) (s_zones s)"
  shows "only_cache s s' w'"
proof -
  let ?z = "resolveZoneID (pf_uc pf) s (contextFor s w) api (SecretRef_String ref) apex w1"
  obtain ri s2 w2 where z: "?z = (ri, s2, w2)" by (cases ?z)
  note s2 = resolveZoneID_cache [OF z ok]
  have "s' = s2 \<and> w' = w2 \<or> now w2 \<le> now w' \<and>
      (s' = s2 \<or> s' = s2\<lparr>s_zones := Invalidate (SecretRef_String ref) apex (s_zones s2)\<rparr>)"
    using P prep z create_calls set_calls
    by (fastforce simp: Present_def reconcileExisting_def Let_def calls_def
        split: sum.splits prod.splits if_splits)
  with s2 show ?thesis
    by (auto intro: only_cache_later only_cache_Invalidate)
qed

lemma CleanUp_cache:
  assumes prep: "prepare pf s (contextFor s w) ch w = (Inr (cr, ref, api, apex), w1)"
    and C: "CleanUp pf s (Some ch) w = (r, s', w')" and ok: "cache_ok (now w1) (s_zones s)"
  shows "only_cache s s' w'"
proof -
  let ?z = "resolveZoneID (pf_uc pf) s (contextFor s w) api (SecretRef_String ref) apex w1"
  obtain ri s2 w2 where z: "?z = (ri, s2, w2)" by (cases ?z)
  note s2 = resolveZoneID_cache [OF z ok]
  have "s' = s2 \<and> now w2 \<le> now w'"
    using C prep z delete_calls
    by (fastforce simp: CleanUp_def Let_def calls_def split: sum.splits prod.splits if_splits)
  with s2 show ?thesis
    by (auto intro: only_cache_later)
qed

end

section \<open>Options\<close>

text \<open>The options an operator can use; the remaining ones replace the clock, the client factory
  or the secret getter in tests.\<close>

inductive solver_opt :: "'e solver_option \<Rightarrow> bool" where
  "solver_opt (solver_WithLogger lg)"
| "solver_opt (WithZoneCacheTTL d)"
| "solver_opt (WithRRSetTTL n)"
| "solver_opt (WithRequestBudget d)"

definition settings_ok :: "'e Solver \<Rightarrow> bool" where
  "settings_ok s \<longleftrightarrow> 0 < s_rrsetTTL s \<and> 0 < sint (s_requestBudget s)"

text \<open>A solver under construction.\<close>

definition built_ok :: "'e Solver \<Rightarrow> bool" where
  "built_ok s \<longleftrightarrow> settings_ok s \<and> (\<forall>t. cache_ok t (s_zones s)) \<and> s_now s = now \<and>
     s_secrets s = None \<and> \<not> s_clientFactorySet s"

lemmas solver_option_defs = solver_WithLogger_def WithZoneCacheTTL_def WithRRSetTTL_def WithRequestBudget_def
  WithClientFactory_def WithSecretGetter_def solver_WithClock_def

lemma solver_opt_built: "solver_opt opt \<Longrightarrow> built_ok s \<Longrightarrow> built_ok (opt s)"
  by (induction rule: solver_opt.induct)
    (auto simp: solver_option_defs built_ok_def settings_ok_def cache_ok_new split: option.splits)

lemma solver_opts_built:
  "built_ok s \<Longrightarrow> \<forall>opt \<in> set opts. solver_opt opt \<Longrightarrow> built_ok (foldl (\<lambda>s opt. opt s) s opts)"
proof (induction opts arbitrary: s)
  case (Cons opt opts)
  then have "built_ok (opt s)" using solver_opt_built by force
  with Cons show ?case by simp
qed simp

lemma solver_New_built:
  assumes "\<forall>opt \<in> set opts. solver_opt opt"
  shows "built_ok (solver_New pf opts)"
    and "\<exists>lg. s_clientFactory (solver_New pf opts) = DefaultClientFactory pf (Some lg)"
proof -
  let ?s0 = "\<lparr>s_logger = slog_Default, s_clientFactory = DefaultClientFactory pf (Some slog_Default),
      s_secrets = None, s_zones = newZoneCache defaultZoneCacheTTL (Some now), s_now = now,
      s_rrsetTTL = defaultRRSetTTL, s_clientFactorySet = False,
      s_requestBudget = defaultRequestBudget, s_kubeConfig = None\<rparr>"
  have "built_ok ?s0"
    by (simp add: built_ok_def settings_ok_def cache_ok_new defaultRRSetTTL_def defaultRequestBudget_def second_def)
  from solver_opts_built [OF this assms]
  show "built_ok (solver_New pf opts)"
    and "\<exists>lg. s_clientFactory (solver_New pf opts) = DefaultClientFactory pf (Some lg)"
    by (auto simp: solver_New_def Let_def built_ok_def settings_ok_def)
qed

section \<open>Reachable states\<close>

definition solver_inv :: "'e platform \<Rightarrow> 'e Solver \<Rightarrow> 'e world \<Rightarrow> bool" where
  "solver_inv pf s w \<longleftrightarrow> production pf s \<and> settings_ok s \<and> cache_ok (now w) (s_zones s)"

inductive lifecycle :: "'e platform \<Rightarrow> 'e Solver \<Rightarrow> 'e world \<Rightarrow> bool" for pf where
  start: "\<forall>opt \<in> set opts. solver_opt opt \<Longrightarrow>
    Initialize pf (solver_New pf opts) (Some rc) = (None, s) \<Longrightarrow> lifecycle pf s w"
| present: "lifecycle pf s w \<Longrightarrow> Present pf s req w = (r, s', w') \<Longrightarrow> lifecycle pf s' w'"
| cleanup: "lifecycle pf s w \<Longrightarrow> CleanUp pf s req w = (r, s', w') \<Longrightarrow> lifecycle pf s' w'"
| again: "lifecycle pf s w \<Longrightarrow> Initialize pf s kc = (r, s') \<Longrightarrow> lifecycle pf s' w"
| outside: "lifecycle pf s w \<Longrightarrow> now w \<le> now w' \<Longrightarrow> lifecycle pf s w'"

lemma production_settings_cache [simp]:
  "production pf (s\<lparr>s_zones := zc\<rparr>) = production pf s"
  "settings_ok (s\<lparr>s_zones := zc\<rparr>) = settings_ok s"
  "production pf (s\<lparr>s_kubeConfig := kc\<rparr>) = production pf s"
  "settings_ok (s\<lparr>s_kubeConfig := kc\<rparr>) = settings_ok s"
  by (simp_all add: production_def settings_ok_def)

lemma Present_only_cache:
  assumes "solver_inv pf s w" and "Present pf s req w = (r, s', w')"
  shows "only_cache s s' w'"
proof (cases "\<exists>ch cr ref apex. req = Some ch \<and> routed pf ch cr ref apex")
  case False
  then have "s' = s \<and> w' = w"
    using assms(2) not_routed_prepare [of pf _ s "contextFor s w" w]
    by (cases req) (fastforce simp: Present_def Let_def)+
  with assms(1) show ?thesis by (auto simp: solver_inv_def only_cache_refl)
next
  case True
  then obtain ch cr ref apex where ch: "req = Some ch" and routed: "routed pf ch cr ref apex" by auto
  have prod: "production pf s" and ok: "cache_ok (now w) (s_zones s)"
    using assms(1) by (auto simp: solver_inv_def)
  show ?thesis
  proof (rule production_prepare [OF prod routed, of "contextFor s w" w], goal_cases NoToken Ready)
    case (NoToken e w1)
    then show ?case using assms(2) ok ch
      by (auto simp: Present_def Let_def acted_for_def intro: only_cache_refl)
  next
    case (Ready lg tok w1)
    then have "cache_ok (now w1) (s_zones s)"
      using ok by (auto simp: acted_for_def intro: cache_ok_mono)
    from production_api.Present_cache [OF Ready(4) assms(2) [unfolded ch] this] show ?case .
  qed
qed

lemma CleanUp_only_cache:
  assumes "solver_inv pf s w" and "CleanUp pf s req w = (r, s', w')"
  shows "only_cache s s' w'"
proof (cases "\<exists>ch cr ref apex. req = Some ch \<and> routed pf ch cr ref apex")
  case False
  then have "s' = s \<and> w' = w"
    using assms(2) not_routed_prepare [of pf _ s "contextFor s w" w]
    by (cases req) (fastforce simp: CleanUp_def Let_def)+
  with assms(1) show ?thesis by (auto simp: solver_inv_def only_cache_refl)
next
  case True
  then obtain ch cr ref apex where ch: "req = Some ch" and routed: "routed pf ch cr ref apex" by auto
  have prod: "production pf s" and ok: "cache_ok (now w) (s_zones s)"
    using assms(1) by (auto simp: solver_inv_def)
  show ?thesis
  proof (rule production_prepare [OF prod routed, of "contextFor s w" w], goal_cases NoToken Ready)
    case (NoToken e w1)
    then show ?case using assms(2) ok ch
      by (auto simp: CleanUp_def Let_def acted_for_def intro: only_cache_refl)
  next
    case (Ready lg tok w1)
    then have "cache_ok (now w1) (s_zones s)"
      using ok by (auto simp: acted_for_def intro: cache_ok_mono)
    from production_api.CleanUp_cache [OF Ready(4) assms(2) [unfolded ch] this] show ?case .
  qed
qed

lemma Initialize_inv:
  assumes "solver_inv pf s w" and "Initialize pf s kc = (r, s')"
  shows "solver_inv pf s' w"
  using assms by (auto simp: Initialize_def solver_inv_def production_def settings_ok_def Let_def split: option.splits)

lemma lifecycle_inv: "lifecycle pf s w \<Longrightarrow> solver_inv pf s w"
proof (induction rule: lifecycle.induct)
  case (start opts rc s w)
  then show ?case
    using solver_New_built [OF start(1), of pf]
    by (auto simp: Initialize_def solver_inv_def production_def settings_ok_def built_ok_def Let_def
        newKubeSecretGetter_def split: option.splits sum.splits)
next
  case (present s w req r s' w')
  from Present_only_cache [OF present(3,2)] present(3) show ?case
    by (auto simp: only_cache_def solver_inv_def)
next
  case (cleanup s w req r s' w')
  from CleanUp_only_cache [OF cleanup(3,2)] cleanup(3) show ?case
    by (auto simp: only_cache_def solver_inv_def)
next
  case (again s w kc r s')
  then show ?case by (auto intro: Initialize_inv)
next
  case (outside s w w')
  then show ?case by (auto simp: solver_inv_def intro: cache_ok_mono)
qed

end
