(* ===== verification/Sample_Deployment.thy ===== *)
theory Sample_Deployment
  imports Lifecycle
begin

text \<open>
  A concrete deployment for the witnesses of the properties: the sample configuration of
  \<open>Config_Correct\<close> in a challenge, a Kubernetes API that answers every read at once, and the
  solver \<open>main\<close> builds, over any HTTP transport.
\<close>

section \<open>Platform, solver, challenge\<close>

definition sample_kube :: "'e kube_api" where
  "sample_kube rc cx ns n t x = (Inr [''token'' \<mapsto> '' s3cret ''], 0, x)"

definition sample_platform :: "'e transport \<Rightarrow> 'e platform" where
  "sample_platform http = \<lparr>pf_lib = sample_lib, pf_dsks = sample_dsks, pf_http = http,
     pf_pick = (\<lambda>_. True), pf_kube = sample_kube, pf_NewForConfig = (\<lambda>_. None)\<rparr>"

definition sample_solver :: "'e transport \<Rightarrow> 'e Solver" where
  "sample_solver http = (solver_New (sample_platform http) [])
     \<lparr>s_secrets := Some (GetToken sample_unicode \<lparr>kg_api = sample_kube, kg_config = ''kubeconfig''\<rparr>),
      s_kubeConfig := Some ''kubeconfig''\<rparr>"

definition sample_challenge :: ChallengeRequest where
  "sample_challenge = \<lparr>ch_ResolvedFQDN = ''_acme-challenge.www.example.com.'', ch_Key = ''k'',
     ch_ResourceNamespace = ''ns'', ch_Config = Some sample_bytes\<rparr>"

lemma sample_init:
  "Initialize (sample_platform http) (solver_New (sample_platform http) []) (Some ''kubeconfig'') = (None, sample_solver http)"
  by (simp add: Initialize_def sample_solver_def solver_New_def newKubeSecretGetter_def sample_platform_def sample_lib_def)

lemma sample_lifecycle: "lifecycle (sample_platform http) (sample_solver http) w"
  by (rule lifecycle.start [OF _ sample_init]) simp

lemma sample_rrsetTTL: "in_int64 (s_rrsetTTL (sample_solver http))"
  by (simp add: sample_solver_def solver_New_def defaultRRSetTTL_def in_int64_def)

lemma sample_routed:
  "routed (sample_platform http) sample_challenge (hd (Credentials sample_conf)) sample_ref ''example.com''"
proof -
  have "Resolve sample_unicode (Some sample_conf) ''_acme-challenge.www.example.com.'' =
      Inr (hd (Credentials sample_conf), ''example.com'')"
    by code_simp
  then show ?thesis
    unfolding routed_def
    by (intro exI [of _ sample_conf] exI [of _ "[''a'' \<mapsto> sample_ref]"])
      (simp add: sample_platform_def sample_challenge_def sample_parse sample_lib_def [THEN arg_cong, of lib_unicode]
        sample_conf_def)
qed

lemma sample_token:
  "GetToken sample_unicode \<lparr>kg_api = sample_kube, kg_config = ''kubeconfig''\<rparr> cx sample_ref w =
     (Inr ''s3cret'', emit (SecretRead ''ns'' ''tok'') w)"
proof -
  have "TrimSpace '' s3cret '' = ''s3cret''" by code_simp
  then show ?thesis by (simp add: GetToken_def call_out_def sample_kube_def sample_ref_def)
qed

lemma sample_prepare:
  "prepare (sample_platform http) (sample_solver http) cx sample_challenge w =
     (Inr (hd (Credentials sample_conf), sample_ref,
           as_HCloudClient sample_lib (default_client http (\<lambda>_. True) slog_Default ''s3cret''), ''example.com''),
      emit (SecretRead ''ns'' ''tok'') w)"
  unfolding prepare_routed [OF sample_routed]
  by (simp add: sample_solver_def solver_New_def sample_token DefaultClientFactory_eq Let_def)
    (simp add: sample_platform_def)

end
