(* ===== verification/Concurrency.thy ===== *)
theory Concurrency
  imports Sample_Deployment Rrset_Service
begin

text \<open>
  Concurrent calls. The webhook server runs \<open>Present\<close> and \<open>CleanUp\<close> in goroutines of their own
  on one solver; they share the zone cache, whose operations hold its mutex, and the world
  outside. Here each call is a thread whose steps are the atomic actions of the code: the
  preparation, one operation of the cache, one call of the API client. Run alone, a thread does
  what the call does; threads interleave in any order, new calls arrive at any time, and time
  passes and the world outside changes between steps.
\<close>

section \<open>Calls\<close>

datatype solver_call = CallPresent ChallengeRequest | CallCleanUp ChallengeRequest

primrec challenge_of :: "solver_call \<Rightarrow> ChallengeRequest" where
  "challenge_of (CallPresent ch) = ch"
| "challenge_of (CallCleanUp ch) = ch"

primrec run_call :: "'e platform \<Rightarrow> solver_call \<Rightarrow> 'e Solver \<Rightarrow> 'e world \<Rightarrow> goerr option \<times> 'e Solver \<times> 'e world" where
  "run_call pf (CallPresent ch) s w = Present pf s (Some ch) w"
| "run_call pf (CallCleanUp ch) s w = CleanUp pf s (Some ch) w"

section \<open>Threads\<close>

text \<open>What a thread knows after its preparation.\<close>

record 'e job =
  jb_ctx :: ctx
  jb_cred :: Credential
  jb_ref :: SecretRef
  jb_client :: "'e HCloudClient"
  jb_apex :: string

datatype 'e phase =
    Starting
  | Looking "'e job"
  | Listing "'e job"
  | Storing "'e job" int64
  | Acting "'e job" int64
  | Replacing "'e job" int64
  | Forgetting "'e job" goerr
  | Finished "goerr option"

type_synonym 'e thread = "solver_call \<times> 'e phase"

type_synonym 'e outcome = "'e phase \<times> 'e Solver \<times> 'e world"

text \<open>\<open>Present\<close> and \<open>CleanUp\<close> after a failed resolution of the zone id.\<close>

definition resolve_failed :: "'e platform \<Rightarrow> solver_call \<Rightarrow> 'e job \<Rightarrow> goerr \<Rightarrow> 'e Solver \<Rightarrow> 'e world \<Rightarrow> 'e outcome" where
  "resolve_failed pf c j err s w = (case c of
     CallPresent ch \<Rightarrow>
       (Finished (Some (wrapError (pf_uc pf) ''resolve zone'' (cred_Name (jb_cred j)) (jb_apex j) err)), s, w)
   | CallCleanUp ch \<Rightarrow>
       if errors_Is err ErrNotFound then
         (Finished None, s, LogAttrs (s_logger s) LevelInfo ''solver: cleanup no-op (zone not found)''
            [AStr ''credential'' (cred_Name (jb_cred j)), AStr ''zone'' (jb_apex j)] w)
       else (Finished (Some (wrapError (pf_uc pf) ''resolve zone'' (cred_Name (jb_cred j)) (jb_apex j) err)), s, w))"

definition present_act :: "'e platform \<Rightarrow> ChallengeRequest \<Rightarrow> 'e job \<Rightarrow> int64 \<Rightarrow> 'e Solver \<Rightarrow> 'e world \<Rightarrow> 'e outcome" where
  "present_act pf ch j zoneID s w =
     (let u = pf_uc pf; recordName = relativeRecordName u (ch_ResolvedFQDN ch) (jb_apex j) in
      case hc_CreateRRSet (jb_client j) (jb_ctx j) zoneID (create_request u s recordName (ch_Key ch)) w of
        (Inr rrset, w1) \<Rightarrow>
          (Finished None, s, LogAttrs (s_logger s) LevelInfo ''solver: presented challenge''
             [AStr ''credential'' (cred_Name (jb_cred j)), AStr ''zone'' (jb_apex j),
              AStr ''record_name'' recordName, AInt ''zone_id'' (sint zoneID),
              AStr ''rrset_id'' (rr_ID rrset)] w1)
      | (Inl err, w1) \<Rightarrow>
          if errors_Is err ErrConflict then (Replacing j zoneID, s, w1)
          else
            let failure = wrapError u ''create RRSet'' (cred_Name (jb_cred j)) (jb_apex j) err in
            if errors_Is err ErrNotFound then (Forgetting j failure, s, w1)
            else (Finished (Some failure), s, w1))"

definition cleanup_act :: "'e platform \<Rightarrow> ChallengeRequest \<Rightarrow> 'e job \<Rightarrow> int64 \<Rightarrow> 'e Solver \<Rightarrow> 'e world \<Rightarrow> 'e outcome" where
  "cleanup_act pf ch j zoneID s w =
     (let u = pf_uc pf; recordName = relativeRecordName u (ch_ResolvedFQDN ch) (jb_apex j) in
      case hc_DeleteRRSet (jb_client j) (jb_ctx j) zoneID recordName defaultRRSetType w of
        (Inr _, w1) \<Rightarrow>
          (Finished None, s, LogAttrs (s_logger s) LevelInfo ''solver: cleaned up challenge''
             [AStr ''credential'' (cred_Name (jb_cred j)), AStr ''zone'' (jb_apex j),
              AStr ''record_name'' recordName, AInt ''zone_id'' (sint zoneID)] w1)
      | (Inl err, w1) \<Rightarrow>
          if errors_Is err ErrNotFound then
            (Finished None, s, LogAttrs (s_logger s) LevelInfo ''solver: cleanup no-op (RRSet already gone)''
               [AStr ''credential'' (cred_Name (jb_cred j)), AStr ''zone'' (jb_apex j),
                AStr ''record_name'' recordName] w1)
          else (Finished (Some (wrapError u ''delete RRSet'' (cred_Name (jb_cred j)) (jb_apex j) err)), s, w1))"

fun thread_step :: "'e platform \<Rightarrow> solver_call \<Rightarrow> 'e phase \<Rightarrow> 'e Solver \<Rightarrow> 'e world \<Rightarrow> 'e outcome" where
  "thread_step pf c Starting s w =
     (case prepare pf s (contextFor s w) (challenge_of c) w of
        (Inl err, w1) \<Rightarrow> (Finished (Some err), s, w1)
      | (Inr (cred, secretRef, client, zoneApex), w1) \<Rightarrow>
          (Looking \<lparr>jb_ctx = contextFor s w, jb_cred = cred, jb_ref = secretRef, jb_client = client,
                    jb_apex = zoneApex\<rparr>, s, w1))"
| "thread_step pf c (Looking j) s w =
     (case Lookup (SecretRef_String (jb_ref j)) (jb_apex j) w (s_zones s) of
        (Some i, zc) \<Rightarrow> (Acting j i, s\<lparr>s_zones := zc\<rparr>, w)
      | (None, zc) \<Rightarrow> (Listing j, s\<lparr>s_zones := zc\<rparr>, w))"
| "thread_step pf c (Listing j) s w =
     (case hc_ListZones (jb_client j) (jb_ctx j) w of
        (Inl err, w1) \<Rightarrow> resolve_failed pf c j err s w1
      | (Inr zones, w1) \<Rightarrow>
          (case find (\<lambda>z. zone_Name z = jb_apex j) zones of
             Some z \<Rightarrow> (Storing j (zone_ID z), s, w1)
           | None \<Rightarrow> resolve_failed pf c j (not_found_error (pf_uc pf) (jb_apex j)) s w1))"
| "thread_step pf c (Storing j i) s w =
     (Acting j i, s\<lparr>s_zones := Store (SecretRef_String (jb_ref j)) (jb_apex j) i w (s_zones s)\<rparr>, w)"
| "thread_step pf c (Acting j i) s w =
     (case c of CallPresent ch \<Rightarrow> present_act pf ch j i s w | CallCleanUp ch \<Rightarrow> cleanup_act pf ch j i s w)"
| "thread_step pf c (Replacing j i) s w =
     (case reconcileExisting (pf_uc pf) s (jb_ctx j) (jb_client j) (cred_Name (jb_cred j)) (jb_apex j)
             (relativeRecordName (pf_uc pf) (ch_ResolvedFQDN (challenge_of c)) (jb_apex j)) i (ch_Key (challenge_of c)) w of
        (r, w1) \<Rightarrow> (Finished r, s, w1))"
| "thread_step pf c (Forgetting j failure) s w =
     (Finished (Some failure),
      s\<lparr>s_zones := Invalidate (SecretRef_String (jb_ref j)) (jb_apex j) (s_zones s)\<rparr>, w)"
| "thread_step pf c (Finished r) s w = (Finished r, s, w)"

section \<open>A thread alone\<close>

primrec run_thread :: "nat \<Rightarrow> 'e platform \<Rightarrow> solver_call \<Rightarrow> 'e outcome \<Rightarrow> 'e outcome" where
  "run_thread 0 pf c x = x"
| "run_thread (Suc n) pf c x = (case x of (p, s, w) \<Rightarrow> run_thread n pf c (thread_step pf c p s w))"

lemma run_thread_Finished [simp]: "run_thread n pf c (Finished r, s, w) = (Finished r, s, w)"
  by (induction n) simp_all

lemma run_thread_resolve:
  assumes "resolveZoneID (pf_uc pf) s (jb_ctx j) (jb_client j) (SecretRef_String (jb_ref j)) (jb_apex j) w = (ri, s2, w2)"
  shows "\<exists>n \<le> 3. \<forall>m. run_thread (n + m) pf c (Looking j, s, w) =
    run_thread m pf c (case ri of Inr i \<Rightarrow> (Acting j i, s2, w2) | Inl err \<Rightarrow> resolve_failed pf c j err s2 w2)"
proof -
  obtain hit zc where l: "Lookup (SecretRef_String (jb_ref j)) (jb_apex j) w (s_zones s) = (hit, zc)" by force
  obtain rl w1 where z: "hc_ListZones (jb_client j) (jb_ctx j) w = (rl, w1)" by force
  show ?thesis
  proof (cases rule: resolveZoneID_cases [OF assms l z, case_names hit err found absent])
    case (hit i)
    with l show ?thesis by (intro exI [of _ 1]) simp
  next
    case (err e)
    with l z show ?thesis by (intro exI [of _ 2]) simp
  next
    case (found zs zn)
    with l z show ?thesis by (intro exI [of _ 3]) (simp add: eval_nat_numeral)
  next
    case (absent zs)
    with l z show ?thesis by (intro exI [of _ 2]) simp
  qed
qed

section \<open>Interleavings\<close>

text \<open>
  The threads of a solver, from a start state: new calls arrive, any thread takes a step, or the
  world outside changes as \<open>Outside\<close> allows.
\<close>

inductive interleaved ::
  "'e platform \<Rightarrow> ('e world \<Rightarrow> 'e world \<Rightarrow> bool) \<Rightarrow> 'e Solver \<Rightarrow> 'e world \<Rightarrow>
   'e thread list \<Rightarrow> 'e Solver \<Rightarrow> 'e world \<Rightarrow> bool"
  for pf Outside s0 w0 where
  start: "interleaved pf Outside s0 w0 [] s0 w0"
| arrive: "interleaved pf Outside s0 w0 ts s w \<Longrightarrow> interleaved pf Outside s0 w0 (ts @ [(c, Starting)]) s w"
| step: "interleaved pf Outside s0 w0 ts s w \<Longrightarrow> i < length ts \<Longrightarrow> ts ! i = (c, p) \<Longrightarrow>
    thread_step pf c p s w = (p', s', w') \<Longrightarrow> interleaved pf Outside s0 w0 (ts[i := (c, p')]) s' w'"
| outside: "interleaved pf Outside s0 w0 ts s w \<Longrightarrow> Outside w w' \<Longrightarrow> interleaved pf Outside s0 w0 ts s w'"

primrec phase_job :: "'e phase \<Rightarrow> 'e job option" where
  "phase_job Starting = None"
| "phase_job (Looking j) = Some j"
| "phase_job (Listing j) = Some j"
| "phase_job (Storing j i) = Some j"
| "phase_job (Acting j i) = Some j"
| "phase_job (Replacing j i) = Some j"
| "phase_job (Forgetting j e) = Some j"
| "phase_job (Finished r) = None"

lemma resolve_failed_job: "resolve_failed pf c j e s w = (p', s', w') \<Longrightarrow> phase_job p' = None \<and> s' = s"
  by (auto simp: resolve_failed_def split: solver_call.splits if_splits)

lemma thread_step_job:
  assumes "thread_step pf c p s w = (p', s', w')" and "p \<noteq> Starting"
  shows "phase_job p' = None \<or> phase_job p' = phase_job p"
  using assms
  by (cases p) (auto simp: present_act_def cleanup_act_def Let_def
      split: prod.splits option.splits sum.splits solver_call.splits if_splits dest!: resolve_failed_job)

context zone_client
begin

lemma thread_step_calls:
  assumes "thread_step pf c p s w = (p', s', w')" and "phase_job p = Some j" and "jb_client j = api"
  shows "calls sends timely (jb_ctx j) w w'"
proof -
  have rf: "resolve_failed pf c j e s v = (p', s', w') \<Longrightarrow> calls sends timely cx w v \<Longrightarrow> calls sends timely cx w w'" for e v cx
    by (auto simp: resolve_failed_def calls_LogAttrs split: solver_call.splits if_splits)
  show ?thesis
  proof (cases p)
    case (Acting k i)
    with assms show ?thesis
      by (auto simp: present_act_def cleanup_act_def Let_def
          split: solver_call.splits prod.splits sum.splits if_splits intro: create_calls delete_calls calls_LogAttrs)
  next
    case (Listing k)
    with assms rf list_calls show ?thesis
      by (fastforce split: prod.splits sum.splits option.splits)
  next
    case (Replacing k i)
    with assms show ?thesis by (auto split: prod.splits intro: reconcileExisting_calls)
  qed (use assms calls_refl in \<open>auto split: prod.splits option.splits\<close>)
qed

end

lemma thread_step_cache:
  assumes "thread_step pf c p s w = (p', s', w')" and "p \<noteq> Starting" and "cache_ok (now w) (s_zones s)" and "now w \<le> now w'"
  shows "only_cache s s' w'"
proof -
  have "\<exists>zc. s' = s\<lparr>s_zones := zc\<rparr> \<and> cache_ok (now w) zc"
  proof (cases p)
    case (Looking j)
    with assms(1,3) cache_ok_Lookup show ?thesis by (force split: prod.splits option.splits)
  next
    case (Storing j i)
    with assms(1,3) show ?thesis
      by (intro exI [of _ "Store (SecretRef_String (jb_ref j)) (jb_apex j) i w (s_zones s)"]) (auto intro: cache_ok_Store)
  next
    case (Forgetting j e)
    with assms(1,3) show ?thesis
      by (intro exI [of _ "Invalidate (SecretRef_String (jb_ref j)) (jb_apex j) (s_zones s)"])
        (auto intro: cache_ok_Invalidate)
  next
    case (Listing j)
    with assms(1,3) resolve_failed_job show ?thesis
      by (intro exI [of _ "s_zones s"]) (fastforce split: prod.splits option.splits sum.splits)
  next
    case (Acting j i)
    with assms(1,3) show ?thesis
      by (intro exI [of _ "s_zones s"]) (auto simp: present_act_def cleanup_act_def Let_def
          split: prod.splits sum.splits solver_call.splits if_splits)
  next
    case (Replacing j i)
    with assms(1,3) show ?thesis by (intro exI [of _ "s_zones s"]) (auto split: prod.splits)
  next
    case (Finished r)
    with assms(1,3) show ?thesis by (intro exI [of _ "s_zones s"]) auto
  qed (use assms(2) in simp)
  with assms(4) show ?thesis by (auto simp: only_cache_def intro: cache_ok_mono)
qed

section \<open>The invariant\<close>

text \<open>
  \<open>R\<close> are the moments, a solver and a world each, at which the call has prepared itself. The job was
  made for the challenge of the call: its client carries the token that the reading of the Secret at
  such a moment returned, the Secret being that of the credential owning the zone.
\<close>

type_synonym 'e moments = "('e Solver \<times> 'e world) set"

definition own_client :: "'e platform \<Rightarrow> 'e moments \<Rightarrow> solver_call \<Rightarrow> string \<Rightarrow> 'e job \<Rightarrow> bool" where
  "own_client pf R c tok j \<longleftrightarrow> routed pf (challenge_of c) (jb_cred j) (jb_ref j) (jb_apex j) \<and>
     (\<exists>lg. jb_client j = as_HCloudClient (pf_lib pf) (default_client (pf_http pf) (pf_pick pf) lg tok)) \<and>
     (\<exists>s w w'. (s, w) \<in> R \<and> the (s_secrets s) (contextFor s w) (jb_ref j) w = (Inr tok, w'))"

definition thread_ok :: "'e platform \<Rightarrow> 'e moments \<Rightarrow> 'e thread \<Rightarrow> bool" where
  "thread_ok pf R t \<longleftrightarrow> (case t of (c, p) \<Rightarrow> \<forall>j. phase_job p = Some j \<longrightarrow> (\<exists>tok. own_client pf R c tok j))"

definition moments_after :: "'e phase \<Rightarrow> 'e Solver \<Rightarrow> 'e world \<Rightarrow> 'e moments \<Rightarrow> 'e moments" where
  "moments_after p s w R = (if p = Starting then insert (s, w) R else R)"

lemma own_client_mono: "own_client pf R c tok j \<Longrightarrow> R \<subseteq> R' \<Longrightarrow> own_client pf R' c tok j"
  unfolding own_client_def by blast

lemma thread_ok_mono: "thread_ok pf R t \<Longrightarrow> R \<subseteq> R' \<Longrightarrow> thread_ok pf R' t"
  by (cases t) (simp add: thread_ok_def, blast intro: own_client_mono)

text \<open>What one step does to the outside, by the phase it is in.\<close>

definition isolated :: "'e platform \<Rightarrow> 'e moments \<Rightarrow> solver_call \<Rightarrow> 'e phase \<Rightarrow> 'e world \<Rightarrow> 'e world \<Rightarrow> bool" where
  "isolated pf R c p w w' \<longleftrightarrow> (case phase_job p of
     None \<Rightarrow> http_sent (trace w') = http_sent (trace w) \<and>
       (secrets_read (trace w') = secrets_read (trace w) \<or>
        (\<exists>cr ref apex. routed pf (challenge_of c) cr ref apex \<and>
           secrets_read (trace w') = secrets_read (trace w) @ [(sr_Namespace ref, sr_Name ref)]))
   | Some j \<Rightarrow> secrets_read (trace w') = secrets_read (trace w) \<and>
       (\<exists>tok rs. own_client pf R c tok j \<and> http_sent (trace w') = http_sent (trace w) @ rs \<and> list_all (bearer tok) rs))"

lemma starting_step:
  assumes inv: "solver_inv pf s w" and st: "thread_step pf c Starting s w = (p', s', w')"
  shows "s' = s" and "now w \<le> now w'" and "thread_ok pf (insert (s, w) R) (c, p')" and "isolated pf R c Starting w w'"
proof -
  have all: "s' = s \<and> now w \<le> now w' \<and> thread_ok pf (insert (s, w) R) (c, p') \<and> isolated pf R c Starting w w'"
  proof (cases "\<exists>cr ref apex. routed pf (challenge_of c) cr ref apex")
    case False
    from not_routed_prepare [OF this, of s "contextFor s w" w] st show ?thesis
      by (auto simp: thread_ok_def isolated_def)
  next
    case True
    then obtain cr ref apex where r: "routed pf (challenge_of c) cr ref apex" by auto
    have prod: "production pf s" using inv by (simp add: solver_inv_def)
    then obtain rc where rc: "the (s_secrets s) = GetToken (pf_uc pf) \<lparr>kg_api = pf_kube pf, kg_config = rc\<rparr>"
      by (auto simp: production_def)
    show ?thesis
    proof (rule production_prepare [OF prod r, of "contextFor s w" w], goal_cases NoToken Ready)
      case (NoToken e w1)
      with st r show ?case by (auto simp: thread_ok_def isolated_def acted_for_def)
    next
      case (Ready lg tok w1)
      then have "http_sent (trace w1) = http_sent (trace w)"
        using kube.get_frame(2) [of _ _ "contextFor s w" ref w "Inr tok" w1] rc by simp
      note sent = this
      have "own_client pf (insert (s, w) R) c tok \<lparr>jb_ctx = contextFor s w, jb_cred = cr, jb_ref = ref,
          jb_client = as_HCloudClient (pf_lib pf) (default_client (pf_http pf) (pf_pick pf) lg tok), jb_apex = apex\<rparr>"
        unfolding own_client_def using r Ready(2) by auto
      with Ready st r sent show ?case
        by (auto simp: thread_ok_def isolated_def acted_for_def)
    qed
  qed
  then show "s' = s" and "now w \<le> now w'" and "thread_ok pf (insert (s, w) R) (c, p')" and "isolated pf R c Starting w w'"
    by simp_all
qed

lemma working_step:
  assumes inv: "solver_inv pf s w" and ok: "thread_ok pf R (c, p)" and st: "thread_step pf c p s w = (p', s', w')"
    and p: "p \<noteq> Starting"
  shows "only_cache s s' w'" and "thread_ok pf R (c, p')" and "isolated pf R c p w w'"
proof -
  have eff: "isolated pf R c p w w' \<and> now w \<le> now w'"
  proof (cases "phase_job p")
    case None
    with p obtain r where "p = Finished r" by (cases p) auto
    with st show ?thesis by (auto simp: isolated_def)
  next
    case (Some j)
    then obtain tok where own: "own_client pf R c tok j"
      using ok by (auto simp: thread_ok_def)
    then obtain lg where cl: "jb_client j = as_HCloudClient (pf_lib pf) (default_client (pf_http pf) (pf_pick pf) lg tok)"
      unfolding own_client_def by blast
    have "calls (bearer tok) (honours_ctx (pf_http pf)) (jb_ctx j) w w'"
      using production_api.thread_step_calls [OF st Some cl] production_sends calls_mono by blast
    with Some own show ?thesis by (auto simp: isolated_def calls_def)
  qed
  then show "isolated pf R c p w w'" by simp
  show "only_cache s s' w'"
    using thread_step_cache [OF st p] inv eff by (simp add: solver_inv_def)
  show "thread_ok pf R (c, p')"
    using thread_step_job [OF st p] ok by (auto simp: thread_ok_def)
qed

lemma step_inv:
  assumes "solver_inv pf s w" and "thread_ok pf R (c, p)" and "thread_step pf c p s w = (p', s', w')"
  shows "solver_inv pf s' w'" and "thread_ok pf (moments_after p s w R) (c, p')" and "isolated pf R c p w w'"
proof -
  have "solver_inv pf s' w' \<and> thread_ok pf (moments_after p s w R) (c, p') \<and> isolated pf R c p w w'"
  proof (cases "p = Starting")
    case True
    from starting_step [OF assms(1) assms(3) [unfolded True]] assms(1) True show ?thesis
      by (auto simp: solver_inv_def moments_after_def intro: cache_ok_mono)
  next
    case False
    from working_step [OF assms False] assms(1) False show ?thesis
      by (auto simp: only_cache_def solver_inv_def moments_after_def)
  qed
  then show "solver_inv pf s' w'" and "thread_ok pf (moments_after p s w R) (c, p')" and "isolated pf R c p w w'" by simp_all
qed

lemma interleaved_inv:
  assumes "interleaved pf Outside s0 w0 ts s w" and "solver_inv pf s0 w0" and "\<forall>v v'. Outside v v' \<longrightarrow> now v \<le> now v'"
  shows "solver_inv pf s w \<and> list_all (thread_ok pf UNIV) ts"
  using assms
proof (induction rule: interleaved.induct)
  case start
  then show ?case by simp
next
  case (arrive ts s w c)
  then show ?case by (simp add: thread_ok_def)
next
  case (step ts s w i c p p' s' w')
  then have "solver_inv pf s w" "list_all (thread_ok pf UNIV) ts" by simp_all
  moreover have "thread_ok pf UNIV (c, p)" using calculation(2) step.hyps(2,3) by (metis list_all_length)
  ultimately have "solver_inv pf s' w'" "thread_ok pf (moments_after p s w UNIV) (c, p')"
    using step_inv(1,2) [OF _ _ step.hyps(4)] by blast+
  with thread_ok_mono [OF this(2) subset_UNIV] \<open>list_all (thread_ok pf UNIV) ts\<close> show ?case
    by (auto simp: list_all_iff dest!: set_update_subset_insert [THEN subsetD])
next
  case (outside ts s w w')
  then show ?case by (auto simp: solver_inv_def intro: cache_ok_mono)
qed

section \<open>A thread alone is the call\<close>

text \<open>
  A thread that runs alone does exactly what the call does: after six steps it has finished with
  the result of \<open>Present\<close> or \<open>CleanUp\<close>, the same solver and the same world. The steps are thus
  a faithful division of the two operations into atomic actions.
\<close>

lemma thread_alone:
  "run_thread 6 pf c (Starting, s, w) = (case run_call pf c s w of (r, s', w') \<Rightarrow> (Finished r, s', w'))"
proof -
  let ?ch = "challenge_of c" and ?cx = "contextFor s w" and ?u = "pf_uc pf"
  obtain rp w1 where p: "prepare pf s ?cx ?ch w = (rp, w1)" by force
  show ?thesis
  proof (cases rp)
    case (Inl err)
    with p show ?thesis by (cases c) (simp_all add: eval_nat_numeral Present_def CleanUp_def Let_def)
  next
    case (Inr x)
    obtain cr ref client apex where x: "x = (cr, ref, client, apex)" by (cases x)
    let ?j = "\<lparr>jb_ctx = ?cx, jb_cred = cr, jb_ref = ref, jb_client = client, jb_apex = apex\<rparr>"
    obtain ri s2 w2 where z: "resolveZoneID ?u s ?cx client (SecretRef_String ref) apex w1 = (ri, s2, w2)"
      by (cases "resolveZoneID ?u s ?cx client (SecretRef_String ref) apex w1")
    obtain n where n: "n \<le> 3" and run: "\<And>m. run_thread (n + m) pf c (Looking ?j, s, w1) =
        run_thread m pf c (case ri of Inr i \<Rightarrow> (Acting ?j i, s2, w2) | Inl err \<Rightarrow> resolve_failed pf c ?j err s2 w2)"
      using run_thread_resolve [of pf s ?j w1 ri s2 w2 c] z by auto
    have "run_thread 6 pf c (Starting, s, w) = run_thread (n + Suc (Suc (3 - n))) pf c (Looking ?j, s, w1)"
      using p Inr x n by (simp add: eval_nat_numeral)
    also have "\<dots> = run_thread (Suc (Suc (3 - n))) pf c (case ri of Inr i \<Rightarrow> (Acting ?j i, s2, w2) | Inl err \<Rightarrow> resolve_failed pf c ?j err s2 w2)"
      by (rule run)
    also have "\<dots> = (case run_call pf c s w of (r, s', w') \<Rightarrow> (Finished r, s', w'))"
      using p Inr x z
      by (cases c)
        (auto simp: Present_def CleanUp_def Let_def resolve_failed_def present_act_def cleanup_act_def
          split: sum.splits prod.splits if_splits)
    finally show ?thesis .
  qed
qed

lemma interleaved_run_thread:
  assumes "interleaved pf Outside s0 w0 ts s w" and "i < length ts" and "ts ! i = (c, p)"
    and "run_thread n pf c (p, s, w) = (p', s', w')"
  shows "interleaved pf Outside s0 w0 (ts[i := (c, p')]) s' w'"
  using assms
proof (induction n arbitrary: p ts s w)
  case 0
  then have "ts[i := (c, p')] = ts" by (simp add: list_update_same_conv)
  with 0 show ?case by simp
next
  case (Suc n)
  obtain p1 s1 w1 where st: "thread_step pf c p s w = (p1, s1, w1)" by (cases "thread_step pf c p s w")
  with Suc.IH [OF interleaved.step [OF Suc.prems(1-3) st]] Suc.prems(2,4) show ?case by simp
qed

end
