(* ===== verification/End_To_End.thy ===== *)
theory End_To_End
  imports Net_Client Concurrency
begin

text \<open>
  End to end: the production solver, its client, the lossy network and the test server together
  implement assignments to record sets. The abstract specification is a map from zone ids to
  records; each call assigns to or deletes one entry, and a failed call did that or nothing.
\<close>

section \<open>The abstract specification\<close>

type_synonym dns = "int64 \<rightharpoonup> Record list"

text \<open>One call wants the record set of the zone named \<open>apex\<close> to have the value \<open>v\<close> (none: be
  absent); \<open>fin\<close> tells whether it reported success.\<close>

definition dns_step :: "(string \<rightharpoonup> int64) \<Rightarrow> string \<times> Record list option \<Rightarrow> bool \<Rightarrow> dns \<Rightarrow> dns \<Rightarrow> bool" where
  "dns_step Z c fin D D' \<longleftrightarrow> (case c of (apex, v) \<Rightarrow>
     (case Z apex of
        None \<Rightarrow> D' = D \<and> (fin \<longrightarrow> v = None)
      | Some i \<Rightarrow> D' = D(i := v) \<or> (D' = D \<and> \<not> fin)))"

definition dns_assign :: "(string \<rightharpoonup> int64) \<Rightarrow> string \<times> Record list option \<Rightarrow> dns \<Rightarrow> dns" where
  "dns_assign Z c D = (case c of (apex, v) \<Rightarrow> (case Z apex of None \<Rightarrow> D | Some i \<Rightarrow> D(i := v)))"

lemma dns_step_success: "dns_step Z c True D D' \<Longrightarrow> D' = dns_assign Z c D"
  by (auto simp: dns_step_def dns_assign_def split: option.splits prod.splits)

inductive dns_run :: "(string \<rightharpoonup> int64) \<Rightarrow> (string \<times> Record list option) list \<Rightarrow> bool list \<Rightarrow> dns \<Rightarrow> dns \<Rightarrow> bool"
  for Z where
  stop: "dns_run Z [] [] D D"
| call: "dns_step Z c fin D D' \<Longrightarrow> dns_run Z cs fins D' D'' \<Longrightarrow> dns_run Z (c # cs) (fin # fins) D D''"

lemma dns_run_success: "dns_run Z cs fins D D' \<Longrightarrow> list_all id fins \<Longrightarrow> D' = foldl (\<lambda>D c. dns_assign Z c D) D cs"
  by (induction rule: dns_run.induct) (auto dest: dns_step_success)

section \<open>ASCII challenges\<close>

lemma ascii_append [simp]: "ascii (xs @ ys) \<longleftrightarrow> ascii xs \<and> ascii ys"
  by (simp add: ascii_def)

lemma ascii_hex: "ascii (hex k n)"
proof (induction k arbitrary: n)
  case (Suc k)
  have "byte (hexdigit d) < 128" if "d < 16" for d
    using that by (simp add: hexdigit_def of_char_of)
  with Suc show ?case by simp
qed simp

lemma ascii_quote_body: "ascii s \<Longrightarrow> ascii (quote_body u 34 s)"
proof (induction s)
  case (Cons c s)
  then have "byte c < 128" by simp
  moreover from this have "ascii (escape_rune u 34 (byte c))"
    by (auto simp: escape_rune_def EncodeRune_def ascii_hex backslash_def of_char_of)
  ultimately show ?case using Cons by (simp add: RuneError_def)
qed simp

lemma ascii_quoteTXT: "ascii key \<Longrightarrow> ascii (quoteTXT u key)"
  by (simp add: quoteTXT_def Quote_def ascii_quote_body)

lemma ascii_relativeRecordName:
  assumes "ascii f" and "ascii apex" and "map ascii_lower apex = apex"
  shows "ascii (relativeRecordName u f apex)"
proof -
  have "ascii (challenge_name f)"
    using ascii_map_lower [OF ascii_TrimSuffix [OF assms(1)]] by (simp add: challenge_name_def)
  then have "ascii (TrimSuffix (challenge_name f) p)" for p by (rule ascii_TrimSuffix)
  then show ?thesis by (simp add: relativeRecordName_ascii [OF assms] defaultChallengeLabel_def)
qed

definition ascii_challenge :: "ChallengeRequest \<Rightarrow> bool" where
  "ascii_challenge ch \<longleftrightarrow> ascii (ch_ResolvedFQDN ch) \<and> ascii (ch_Key ch)"

lemma ascii_writable:
  assumes "routed pf ch cr ref apex" and "ascii_challenge ch" and "in_int64 (s_rrsetTTL s)"
  shows "writable (pf_uc pf) s ch apex"
proof -
  obtain conf where conf: "ValidateConfig (pf_uc pf) (Some conf) = None"
      "Resolve (pf_uc pf) (Some conf) (ch_ResolvedFQDN ch) = Inr (cr, apex)"
    using routed_valid(3) [OF assms(1)] by blast
  from routes.apex_lower [OF this] have "ascii apex" "map ascii_lower apex = apex" by simp_all
  with assms(2,3) show ?thesis
    by (simp add: writable_def ascii_challenge_def ascii_quoteTXT ascii_relativeRecordName)
qed

section \<open>One call\<close>

text \<open>The platform is linked with the network to the test server, and the Kubernetes API
  hands out the token \<open>tok\<close> for a reference without touching the DNS service.\<close>

definition deployed :: "network platform \<Rightarrow> ((string \<times> int64) list \<Rightarrow> (string \<times> int64) list) \<Rightarrow> bool" where
  "deployed pf order \<longleftrightarrow> pf_http pf = net_http (pf_lib pf) order DefaultBaseURL \<and>
     endpoint_urls_ok (pf_lib pf) DefaultBaseURL \<and> parses_zero_time (pf_lib pf) \<and> visits_all order"

definition hands_out :: "network platform \<Rightarrow> string \<Rightarrow> SecretRef \<Rightarrow> bool" where
  "hands_out pf tok ref \<longleftrightarrow> tok \<noteq> [] \<and> (\<forall>rc cx t x. \<exists>m dt raw.
     pf_kube pf rc cx (sr_Namespace ref) (sr_Name ref) t x = (Inr m, dt, x) \<and>
     m (sr_Key ref) = Some raw \<and> TrimSpace raw = tok)"

text \<open>A read of a Secret takes at most \<open>d\<close> nanoseconds.\<close>

definition kube_within :: "'e platform \<Rightarrow> nat \<Rightarrow> bool" where
  "kube_within pf d \<longleftrightarrow> (\<forall>rc cx ns n t x. fst (snd (pf_kube pf rc cx ns n t x)) \<le> d)"

lemma deployed_client:
  "deployed pf order \<Longrightarrow> net_client (default_client (pf_http pf) (pf_pick pf) lg tok) tok (pf_lib pf) order"
  by (simp add: deployed_def default_client_net)

lemma deployed_prepare:
  assumes "production pf s" and "routed pf ch cr ref apex" and "hands_out pf tok ref"
  obtains lg w1 where "prepare pf s cx ch w = (Inr (cr, ref,
      as_HCloudClient (pf_lib pf) (default_client (pf_http pf) (pf_pick pf) lg tok), apex), w1)"
    and "ext w1 = ext w" and "\<And>d. kube_within pf d \<Longrightarrow> now w1 \<le> now w + int d"
proof -
  obtain lg rc where lg: "s_clientFactory s = DefaultClientFactory pf (Some lg)"
    and rc: "s_secrets s = Some (GetToken (pf_uc pf) \<lparr>kg_api = pf_kube pf, kg_config = rc\<rparr>)"
    using assms(1) by (auto simp: production_def)
  obtain m dt where m: "pf_kube pf rc cx (sr_Namespace ref) (sr_Name ref) (now w) (ext w) = (Inr m, dt, ext w)"
    and key: "\<exists>raw. m (sr_Key ref) = Some raw \<and> TrimSpace raw = tok"
    using assms(3) unfolding hands_out_def by blast
  have late: "dt \<le> d" if "kube_within pf d" for d
    using that m unfolding kube_within_def by (metis fst_conv snd_conv)
  show ?thesis
    by (rule that [of lg "emit (SecretRead (sr_Namespace ref) (sr_Name ref)) w\<lparr>now := now w + int dt\<rparr>"])
      (use assms(3) lg rc m key late in \<open>auto simp: prepare_routed [OF assms(2)] GetToken_def call_out_def
        DefaultClientFactory_eq hands_out_def emit_def\<close>)
qed

text \<open>The state of the whole system: a production solver with a coherent cache, a server that
  accepts the token and has the zones \<open>Z\<close>.\<close>

definition system_ok :: "network platform \<Rightarrow> string \<Rightarrow> (string \<rightharpoonup> int64) \<Rightarrow> network Solver \<Rightarrow> network world \<Rightarrow> bool" where
  "system_ok pf tok Z s w \<longleftrightarrow> solver_inv pf s w \<and> in_int64 (s_rrsetTTL s) \<and> coherent Z (s_zones s) \<and>
     accepts tok (net_server (ext w)) \<and> map_of (mk_zones (net_server (ext w))) = Z"

definition dns_of :: "network world \<Rightarrow> dns" where
  "dns_of w = mock_recs (net_server (ext w))"

lemma only_cache_settings:
  "only_cache s s' w' \<Longrightarrow> solver_inv pf s w \<Longrightarrow> solver_inv pf s' w' \<and> s_rrsetTTL s' = s_rrsetTTL s"
  by (auto simp: only_cache_def solver_inv_def)

lemma present_end_to_end:
  assumes dep: "deployed pf order" "hands_out pf tok ref" and sys: "system_ok pf tok Z s w"
    and ch: "routed pf ch cr ref apex" "ascii_challenge ch"
    and P: "Present pf s (Some ch) w = (r, s', w')"
  shows "system_ok pf tok Z s' w' \<and>
    dns_step Z (apex, Some (challenge_records (pf_uc pf) ch)) (r = None) (dns_of w) (dns_of w')"
proof -
  have inv: "solver_inv pf s w" and ttl: "in_int64 (s_rrsetTTL s)" and acc: "accepts tok (net_server (ext w))"
    and coh: "coherent Z (s_zones s)" and Z: "map_of (mk_zones (net_server (ext w))) = Z"
    using sys by (auto simp: system_ok_def)
  then have prod: "production pf s" by (simp add: solver_inv_def)
  obtain lg w1 where prep: "prepare pf s (contextFor s w) ch w = (Inr (cr, ref,
      as_HCloudClient (pf_lib pf) (default_client (pf_http pf) (pf_pick pf) lg tok), apex), w1)" and w1: "ext w1 = ext w"
    by (rule deployed_prepare [OF prod ch(1) dep(2)])
  note eff = net_client.net_present [OF deployed_client [OF dep(1), of lg tok] prep P _ _
      ascii_writable [OF ch ttl] refl refl refl]
  from Present_only_cache [OF inv P] inv have "solver_inv pf s' w'" "s_rrsetTTL s' = s_rrsetTTL s"
    using only_cache_settings by blast+
  with eff acc coh Z ttl w1 show ?thesis
    by (auto simp: system_ok_def dns_step_def dns_of_def split: option.splits)
qed

lemma cleanup_end_to_end:
  assumes dep: "deployed pf order" "hands_out pf tok ref" and sys: "system_ok pf tok Z s w"
    and ch: "routed pf ch cr ref apex"
    and C: "CleanUp pf s (Some ch) w = (r, s', w')"
  shows "system_ok pf tok Z s' w' \<and> dns_step Z (apex, None) (r = None) (dns_of w) (dns_of w')"
proof -
  have inv: "solver_inv pf s w" and ttl: "in_int64 (s_rrsetTTL s)" and acc: "accepts tok (net_server (ext w))"
    and coh: "coherent Z (s_zones s)" and Z: "map_of (mk_zones (net_server (ext w))) = Z"
    using sys by (auto simp: system_ok_def)
  then have prod: "production pf s" by (simp add: solver_inv_def)
  obtain lg w1 where prep: "prepare pf s (contextFor s w) ch w = (Inr (cr, ref,
      as_HCloudClient (pf_lib pf) (default_client (pf_http pf) (pf_pick pf) lg tok), apex), w1)" and w1: "ext w1 = ext w"
    by (rule deployed_prepare [OF prod ch dep(2)])
  note eff = net_client.net_cleanup [OF deployed_client [OF dep(1), of lg tok] prep C _ _ refl refl]
  from CleanUp_only_cache [OF inv C] inv have "solver_inv pf s' w'" "s_rrsetTTL s' = s_rrsetTTL s"
    using only_cache_settings by blast+
  with eff acc coh Z ttl w1 show ?thesis
    by (auto simp: system_ok_def dns_step_def dns_of_def split: option.splits)
qed

section \<open>Sequences of calls\<close>

fun run_calls :: "'e platform \<Rightarrow> solver_call list \<Rightarrow> 'e Solver \<Rightarrow> 'e world \<Rightarrow> goerr option list \<times> 'e Solver \<times> 'e world" where
  "run_calls pf [] s w = ([], s, w)"
| "run_calls pf (c # cs) s w =
     (case run_call pf c s w of (r, s1, w1) \<Rightarrow>
        (case run_calls pf cs s1 w1 of (rs, s2, w2) \<Rightarrow> (r # rs, s2, w2)))"

text \<open>The apex the routing layer picks for a challenge, and what a call wants.\<close>

definition challenge_apex :: "'e platform \<Rightarrow> ChallengeRequest \<Rightarrow> string" where
  "challenge_apex pf ch =
     (case parseConfig (pf_lib pf) (pf_dsks pf) (ch_Config ch) (ch_ResourceNamespace ch) of
        Inr (conf, _) \<Rightarrow>
          (case Resolve (pf_uc pf) (Some conf) (ch_ResolvedFQDN ch) of Inr (_, apex) \<Rightarrow> apex | Inl _ \<Rightarrow> [])
      | Inl _ \<Rightarrow> [])"

primrec wanted :: "'e platform \<Rightarrow> solver_call \<Rightarrow> string \<times> Record list option" where
  "wanted pf (CallPresent ch) = (challenge_apex pf ch, Some (challenge_records (pf_uc pf) ch))"
| "wanted pf (CallCleanUp ch) = (challenge_apex pf ch, None)"

definition proper_challenge :: "network platform \<Rightarrow> string \<Rightarrow> ChallengeRequest \<Rightarrow> bool" where
  "proper_challenge pf tok ch \<longleftrightarrow>
     ascii_challenge ch \<and> (\<exists>cr ref apex. routed pf ch cr ref apex \<and> hands_out pf tok ref)"

lemma challenge_apex_routed: "routed pf ch cr ref apex \<Longrightarrow> challenge_apex pf ch = apex"
  by (auto simp: routed_def challenge_apex_def)

lemma run_call_end_to_end:
  assumes "deployed pf order" and "system_ok pf tok Z s w"
    and "proper_challenge pf tok (challenge_of c)" and "run_call pf c s w = (r, s', w')"
  shows "system_ok pf tok Z s' w' \<and> dns_step Z (wanted pf c) (r = None) (dns_of w) (dns_of w')"
proof -
  obtain cr ref apex where ch: "routed pf (challenge_of c) cr ref apex" "ascii_challenge (challenge_of c)"
      "hands_out pf tok ref"
    using assms(3) by (auto simp: proper_challenge_def)
  show ?thesis
  proof (cases c)
    case (CallPresent ch')
    with present_end_to_end [OF assms(1) ch(3) assms(2), of ch' cr apex] ch assms(4) show ?thesis
      by (simp add: challenge_apex_routed)
  next
    case (CallCleanUp ch')
    with cleanup_end_to_end [OF assms(1) ch(3) assms(2), of ch' cr apex] ch assms(4) show ?thesis
      by (simp add: challenge_apex_routed)
  qed
qed

lemma run_calls_end_to_end:
  assumes "deployed pf order" and "system_ok pf tok Z s w"
    and "list_all (\<lambda>c. proper_challenge pf tok (challenge_of c)) cs" and "run_calls pf cs s w = (rs, s', w')"
  shows "system_ok pf tok Z s' w' \<and> dns_run Z (map (wanted pf) cs) (map (\<lambda>r. r = None) rs) (dns_of w) (dns_of w')"
  using assms(2-4)
proof (induction cs arbitrary: s w rs)
  case Nil
  then show ?case by (auto intro: dns_run.stop)
next
  case (Cons c cs)
  obtain r s1 w1 where c: "run_call pf c s w = (r, s1, w1)" by (cases "run_call pf c s w")
  obtain rs2 where cs: "run_calls pf cs s1 w1 = (rs2, s', w')" and rs: "rs = r # rs2"
    using Cons.prems(3) c by (auto split: prod.splits)
  from run_call_end_to_end [OF assms(1) Cons.prems(1) _ c] Cons.prems(2)
  have step: "system_ok pf tok Z s1 w1" "dns_step Z (wanted pf c) (r = None) (dns_of w) (dns_of w1)" by simp_all
  from Cons.IH [OF step(1) _ cs] Cons.prems(2) step(2) rs show ?case by (auto intro: dns_run.call)
qed

lemma solver_New_coherent:
  assumes "\<forall>opt \<in> set opts. solver_opt opt"
  shows "coherent Z (s_zones (solver_New pf opts))"
proof -
  have opt: "coherent Z (s_zones (opt s))" if "solver_opt opt" "coherent Z (s_zones s)" for opt and s :: "'a Solver"
    using that by (induction rule: solver_opt.induct) (auto simp: solver_option_defs split: option.splits)
  have "coherent Z (s_zones (foldl (\<lambda>s opt. opt s) s0 opts))" if "coherent Z (s_zones s0)" for s0 :: "'a Solver"
    using that assms opt by (intro foldl_invariant [of "\<lambda>s. coherent Z (s_zones s)"]) auto
  then show ?thesis by (simp add: solver_New_def Let_def)
qed

lemma fresh_system_ok:
  assumes "\<forall>opt \<in> set opts. solver_opt opt" and "Initialize pf (solver_New pf opts) (Some rc) = (None, s)"
    and "in_int64 (s_rrsetTTL s)" and "accepts tok (net_server (ext w))"
  shows "system_ok pf tok (map_of (mk_zones (net_server (ext w)))) s w"
proof -
  have "s_zones s = s_zones (solver_New pf opts)"
    using assms(2) by (auto simp: Initialize_def Let_def split: option.splits sum.splits)
  with solver_New_coherent [OF assms(1)] show ?thesis
    using assms(3,4) lifecycle_inv [OF lifecycle.start [OF assms(1,2)]] by (simp add: system_ok_def)
qed

section \<open>A sample network\<close>

text \<open>A server with one zone behind a network that loses the first response, then a request, then
  another response.\<close>

abbreviation sample_net_http :: "network transport" where
  "sample_net_http \<equiv> net_http sample_lib rev DefaultBaseURL"

definition sample_net_world :: "network world" where
  "sample_net_world = \<lparr>now = 0, trace = [],
     ext = \<lparr>net_server = newMockHCloudServer ''s3cret'' [(''example.com'', 7)],
       net_link = [(LoseResponse, 1000000), (LoseRequest, 0), (LoseResponse, 2000000)]\<rparr>\<rparr>"

lemma sample_deployed: "deployed (sample_platform sample_net_http) rev"
  unfolding deployed_def by (simp add: sample_platform_def)

lemma sample_accepts: "accepts ''s3cret'' (net_server (ext sample_net_world))"
  by (simp add: sample_net_world_def newMockHCloudServer_def accepts_def)

lemma sample_hands_out: "hands_out (sample_platform http) ''s3cret'' sample_ref"
proof -
  have "TrimSpace '' s3cret '' = ''s3cret''" by code_simp
  then show ?thesis by (simp add: hands_out_def sample_platform_def sample_kube_def sample_ref_def)
qed

lemma sample_proper: "proper_challenge (sample_platform http) ''s3cret'' sample_challenge"
  using sample_routed sample_hands_out unfolding proper_challenge_def
  by (auto simp: ascii_challenge_def sample_challenge_def)

section \<open>Properties\<close>

text \<open>
  C2: end to end, the solver implements assignments to DNS. Whatever sequence of \<open>Present\<close> and
  \<open>CleanUp\<close> calls runs on a freshly initialised solver against the test server, over a network
  that may delay and lose requests and responses, the records on the server evolve as the
  abstract specification allows: each successful call assigned exactly the quoted key to, or
  removed, the record set of its zone, each failed call did that or nothing, and nothing else
  ever changed. If every call succeeded, the records are the result of the assignments in order,
  and the server never saw an unexpected request.
\<close>

theorem calls_assign_records:
  assumes "deployed pf order"
    and "\<forall>opt \<in> set opts. solver_opt opt" and "Initialize pf (solver_New pf opts) (Some rc) = (None, s)"
    and "in_int64 (s_rrsetTTL s)" and "accepts tok (net_server (ext w))"
    and "Z = map_of (mk_zones (net_server (ext w)))"
    and "list_all (\<lambda>c. proper_challenge pf tok (challenge_of c)) cs" and "run_calls pf cs s w = (rs, s', w')"
  shows "dns_run Z (map (wanted pf) cs) (map (\<lambda>r. r = None) rs)
      (mock_recs (net_server (ext w))) (mock_recs (net_server (ext w'))) \<and>
    (list_all (\<lambda>r. r = None) rs \<longrightarrow>
      mock_recs (net_server (ext w')) = foldl (\<lambda>D c. dns_assign Z (wanted pf c) D) (mock_recs (net_server (ext w))) cs) \<and>
    \<not> mk_failed (net_server (ext w'))"
proof -
  have "system_ok pf tok Z s w" using fresh_system_ok [OF assms(2-5)] assms(6) by simp
  note run = run_calls_end_to_end [OF assms(1) this assms(7,8)]
  have "list_all id (map (\<lambda>r. r = None) rs)" if "list_all (\<lambda>r. r = None) rs"
    using that by (simp add: list.pred_map o_def)
  with run dns_run_success [of Z "map (wanted pf) cs" "map (\<lambda>r. r = None) rs" "dns_of w" "dns_of w'"] show ?thesis
    by (auto simp: dns_of_def system_ok_def accepts_def foldl_map)
qed

theorem calls_assign_records_witness:
  "let (rs, s', w') = run_calls (sample_platform sample_net_http) [CallPresent sample_challenge, CallCleanUp sample_challenge]
       (sample_solver sample_net_http) sample_net_world
   in \<not> mk_failed (net_server (ext w')) \<and>
     dns_run [''example.com'' \<mapsto> 7]
       [(''example.com'', Some (challenge_records sample_unicode sample_challenge)), (''example.com'', None)]
       (map (\<lambda>r. r = None) rs) Map.empty (mock_recs (net_server (ext w')))"
proof -
  let ?pf = "sample_platform sample_net_http"
  let ?cs = "[CallPresent sample_challenge, CallCleanUp sample_challenge]"
  obtain rs s' w' where run: "run_calls ?pf ?cs (sample_solver sample_net_http) sample_net_world = (rs, s', w')"
    by (cases "run_calls ?pf ?cs (sample_solver sample_net_http) sample_net_world")
  have "mock_recs (net_server (ext sample_net_world)) = Map.empty"
    by (simp add: sample_net_world_def newMockHCloudServer_def mock_recs_def fun_eq_iff)
  moreover have "map_of (mk_zones (net_server (ext sample_net_world))) = [''example.com'' \<mapsto> 7]"
    by (simp add: sample_net_world_def newMockHCloudServer_def)
  moreover have "challenge_apex ?pf sample_challenge = ''example.com''"
    by (rule challenge_apex_routed [OF sample_routed])
  moreover have "pf_uc ?pf = sample_unicode" by (simp add: sample_platform_def sample_lib_def)
  ultimately show ?thesis
    unfolding run Let_def prod.case
    using calls_assign_records [OF sample_deployed _ sample_init sample_rrsetTTL sample_accepts refl _ run] by (simp add: sample_proper)
qed

end
