(* ===== verification/Net_Liveness.thy ===== *)
theory Net_Liveness
  imports End_To_End
begin

text \<open>
  The solver makes progress: as long as the network loses no more messages than the client
  retries and the delays leave time within the request budget, every call is answered, and
  \<open>Present\<close> and \<open>CleanUp\<close> succeed.
\<close>

section \<open>A service that answers\<close>

text \<open>\<open>ready n cx w\<close>: under the context \<open>cx\<close>, \<open>n\<close> further calls will be answered.\<close>

locale live_service = rrset_service api ok zones slot recs
  for api :: "'e HCloudClient" and ok zones slot recs +
  fixes ready :: "nat \<Rightarrow> ctx \<Rightarrow> 'e world \<Rightarrow> bool"
  assumes list_live: "ok (ext w) \<Longrightarrow> ready (Suc n) cx w \<Longrightarrow> hc_ListZones api cx w = (r1, w') \<Longrightarrow>
      ready n cx w' \<and> is_ok r1"
    and create_live: "ok (ext w) \<Longrightarrow> ready (Suc n) cx w \<Longrightarrow> sendable rq \<Longrightarrow> hc_CreateRRSet api cx i rq w = (r2, w') \<Longrightarrow>
      ready n cx w' \<and> (is_ok r2 \<or> (\<exists>e. r2 = Inl e \<and> errors_Is e ErrConflict))"
    and set_live: "ok (ext w) \<Longrightarrow> ready (Suc n) cx w \<Longrightarrow> ascii_records (srq_Records srq) \<Longrightarrow>
      slot i nm t \<in> dom (recs (ext w)) \<Longrightarrow> hc_SetRRSetRecords api cx i nm t srq w = (r3, w') \<Longrightarrow>
      ready n cx w' \<and> is_ok r3"
    and delete_live: "ok (ext w) \<Longrightarrow> ready (Suc n) cx w \<Longrightarrow> hc_DeleteRRSet api cx i nm t w = (r4, w') \<Longrightarrow>
      ready n cx w' \<and> (is_ok r4 \<or> (\<exists>e. r4 = Inl e \<and> errors_Is e ErrNotFound))"
    and ready_less: "ready (Suc n) cx w \<Longrightarrow> ready n cx w"
begin

lemma resolve_live:
  assumes "ok (ext w)" and "ready (Suc n) cx w" and "coherent (zones (ext w)) (s_zones s)"
    and "resolveZoneID u s cx api key apex w = (r, s', w')"
  shows "ready n cx w'" and "\<exists>i. zones (ext w) apex = Some i \<Longrightarrow> is_ok r"
    and "r = Inl e \<Longrightarrow> errors_Is e ErrNotFound"
proof -
  obtain hit zc where l: "Lookup key apex w (s_zones s) = (hit, zc)" by force
  obtain rl w1 where z: "hc_ListZones api cx w = (rl, w1)" by force
  note outcome = resolveZoneID_cases [OF assms(4) l z, case_names hit err found absent]
  note live = list_live [OF assms(1,2) z] ready_less [OF assms(2)]
  note rs = resolve_service [OF assms(1,3,4)]
  show "ready n cx w'"
    by (cases rule: outcome) (use live in auto)
  have nf: "errors_Is (not_found_error u apex) ErrNotFound"
    by (simp add: not_found_error_def APIError_Is_def)
  show err: "errors_Is e ErrNotFound" if "r = Inl e" for e
    by (cases rule: outcome) (use that live nf in auto)
  show "is_ok r" if "\<exists>i. zones (ext w) apex = Some i"
  proof (cases r)
    case (Inl e)
    with rs(7) [OF Inl err [OF Inl]] that show ?thesis by simp
  qed simp
qed

lemma present_live:
  assumes prep: "prepare pf s (contextFor s w) ch w = (Inr (cr, ref, api, apex), w1)"
    and ok: "ok (ext w1)" and coh: "coherent (zones (ext w1)) (s_zones s)" and wr: "writable (pf_uc pf) s ch apex"
    and ready: "ready 3 (contextFor s w) w1" and zone: "zones (ext w1) apex = Some i"
  shows "fst (Present pf s (Some ch) w) = None"
proof -
  let ?u = "pf_uc pf" and ?cx = "contextFor s w"
  let ?name = "relativeRecordName ?u (ch_ResolvedFQDN ch) apex"
  obtain ri s2 w2 where z: "resolveZoneID ?u s ?cx api (SecretRef_String ref) apex w1 = (ri, s2, w2)"
    by (cases "resolveZoneID ?u s ?cx api (SecretRef_String ref) apex w1")
  have "ready (Suc 2) ?cx w1" using ready by (simp add: eval_nat_numeral)
  note rs = resolve_service [OF ok coh z] and rl = resolve_live [OF ok this coh z]
  obtain j where j: "ri = Inr j" using rl(2) zone by (auto simp: is_ok_iff)
  let ?rq = "create_request ?u s2 ?name (ch_Key ch)"
  obtain rc w3 where c: "hc_CreateRRSet api ?cx j ?rq w2 = (rc, w3)" by force
  note wr2 = writable_request [OF wr rs(5)]
  have "ready (Suc 1) ?cx w2" using rl(1) by (simp add: eval_nat_numeral)
  note cl = create_live [OF rs(1) this wr2(1) c] and cs = create_service [OF rs(1) wr2(1) c refl]
  show ?thesis
  proof (cases rc)
    case (Inr rr)
    with prep z j c show ?thesis by (simp add: Present_def Let_def)
  next
    case (Inl e)
    with cl have e: "errors_Is e ErrConflict" by simp
    let ?srq = "\<lparr>srq_Records = challenge_records ?u ch\<rparr>"
    obtain rs3 w4 where st: "hc_SetRRSetRecords api ?cx j ?name ''TXT'' ?srq w3 = (rs3, w4)" by force
    have "slot j ?name ''TXT'' \<in> dom (recs (ext w3))"
      using cs Inl e by (simp add: create_request_def defaultRRSetType_def)
    then have "is_ok rs3"
      using set_live [of w3 0 ?cx ?srq j ?name "''TXT''" rs3 w4] cl cs wr2(2) st by (simp add: eval_nat_numeral)
    with prep z j c Inl e st show ?thesis
      by (auto simp: Present_def Let_def reconcileExisting_def defaultRRSetType_def challenge_records_def is_ok_iff)
  qed
qed

lemma cleanup_live:
  assumes prep: "prepare pf s (contextFor s w) ch w = (Inr (cr, ref, api, apex), w1)"
    and ok: "ok (ext w1)" and coh: "coherent (zones (ext w1)) (s_zones s)"
    and ready: "ready 2 (contextFor s w) w1"
  shows "fst (CleanUp pf s (Some ch) w) = None"
proof -
  let ?u = "pf_uc pf" and ?cx = "contextFor s w"
  let ?name = "relativeRecordName ?u (ch_ResolvedFQDN ch) apex"
  obtain ri s2 w2 where z: "resolveZoneID ?u s ?cx api (SecretRef_String ref) apex w1 = (ri, s2, w2)"
    by (cases "resolveZoneID ?u s ?cx api (SecretRef_String ref) apex w1")
  have "ready (Suc 1) ?cx w1" using ready by (simp add: eval_nat_numeral)
  note rs = resolve_service [OF ok coh z] and rl = resolve_live [OF ok this coh z]
  show ?thesis
  proof (cases ri)
    case (Inl e)
    with rl(3) prep z show ?thesis by (simp add: CleanUp_def Let_def)
  next
    case (Inr i)
    obtain rd w3 where d: "hc_DeleteRRSet api ?cx i ?name ''TXT'' w2 = (rd, w3)" by force
    have "ready (Suc 0) ?cx w2" using rl(1) by simp
    from delete_live [OF rs(1) this d] Inr prep z d show ?thesis
      by (auto simp: CleanUp_def Let_def defaultRRSetType_def is_ok_iff)
  qed
qed

end

section \<open>The client over the network\<close>

text \<open>The pause before an attempt without a \<open>Retry-After\<close>, and the pauses before an attempt and
  the next \<open>k\<close> ones together.\<close>

definition pause :: "'e Client \<Rightarrow> int \<Rightarrow> int" where
  "pause c j = (if 0 < j then min (sint (cl_initialBackoff c) * 2 ^ nat (j - 1)) (sint (cl_maxBackoff c)) else 0)"

primrec pauses :: "'e Client \<Rightarrow> int \<Rightarrow> nat \<Rightarrow> int" where
  "pauses c j 0 = pause c j"
| "pauses c j (Suc k) = pause c j + pauses c (j + 1) k"

definition delays :: "(link_fault \<times> nat) list \<Rightarrow> int" where
  "delays fs = sum_list (map (\<lambda>p. int (snd p)) fs)"

lemma delays_simps [simp]: "delays [] = 0" "delays (p # fs) = int (snd p) + delays fs"
  by (simp_all add: delays_def)

lemma delays_nonneg: "0 \<le> delays fs"
  by (induction fs) auto

locale net_live = net_client c tok lib order for c tok lib order +
  assumes sane: "sane_backoff c" and timeout: "0 < sint (cl_requestTimeout c)"
begin

lemma pause_nonneg: "0 \<le> pause c j"
  using sane by (simp add: pause_def sane_backoff_def)

lemma pauses_nonneg: "0 \<le> pauses c j k"
  by (induction k arbitrary: j) (auto simp: pause_nonneg add_nonneg_nonneg)

lemma pauses_first: "pause c j \<le> pauses c j k"
  by (cases k) (auto simp: pauses_nonneg)

lemma before_attempt_live:
  assumes "before_attempt c cx meth path attempt lastErr w = (b, w1)"
    and "retry_after lastErr = 0" and "ctx_done cx = Some (t0, e0)" and "now w + pause c attempt < t0"
  shows "b = None" and "now w1 = now w + pause c attempt" and "ext w1 = ext w"
proof -
  let ?d = "backoffDelay c attempt lastErr"
  let ?w1 = "emit (SleepFor ?d) (LogAttrs (cl_logger c) LevelDebug ''hcloud: retrying request''
       [AStr ''method'' meth, AStr ''path'' path, AInt ''attempt'' attempt, ADur ''delay'' ?d] w)"
  have d: "sint ?d = pause c attempt" if "0 < attempt"
    using that assms(2) by (simp add: backoffDelay_exact [OF sane] pause_def)
  consider (idle) "\<not> 0 < attempt" "b = None" "w1 = w"
    | (sleep) "0 < attempt" "clock_Sleep (cl_clock c) cx ?d ?w1 = (b, w1)"
    using assms(1) by (auto simp: before_attempt_def Let_def split: if_splits)
  then have all: "b = None \<and> now w1 = now w + pause c attempt \<and> ext w1 = ext w"
  proof cases
    case sleep
    have "ctx_Err cx (now ?w1 + max 0 (sint ?d)) = None"
      using assms(3,4) d sleep(1) pause_nonneg [of attempt] by (simp add: ctx_Err_def)
    from clock.sleep_undisturbed [OF sleep(2) this] sleep(2)
    show ?thesis using clock.sleep_full clock.sleep_frame d sleep(1) pause_nonneg [of attempt] by fastforce
  qed (simp add: pause_def)
  then show "b = None" and "now w1 = now w + pause c attempt" and "ext w1 = ext w" by simp_all
qed

lemma net_call_live:
  assumes "next_link (ext w) = (f, d)" and "ctx_Err rx (now w) = None" and "ctx_Err rx (now w + int d) = None"
    and "serve meth path body (net_server (ext w)) = (Some resp, m')"
  shows "\<exists>v. call_out (net_http lib order (cl_baseURL c) rx (make_request c meth path body tok)) w =
      ((if f = Deliver then Inr resp else Inl ''EOF''), v) \<and>
    now v = now w + int d \<and> net_link (ext v) = tl (net_link (ext w)) \<and>
    net_server (ext v) = (if f = LoseRequest then net_server (ext w) else m')"
  using assms by (simp add: call_out_def net_http_def serve_def Let_def)

lemma doOnce_live:
  assumes url: "url_ParseError lib (cl_baseURL c @ path) = None"
    and d: "doOnce lib c cx meth path body out zero w = (r, w')"
    and link: "next_link (ext w) = (f, dt)" and "ctx_done cx = Some (t0, e0)" and "now w + int dt < t0"
    and "int dt < sint (cl_requestTimeout c)"
    and sv: "serve meth path body (net_server (ext w)) = (Some resp, m')"
  shows "now w' = now w + int dt" and "net_link (ext w') = tl (net_link (ext w))"
    and "if f = Deliver then answered lib out zero resp r \<and> net_server (ext w') = m'
      else (\<exists>a. r = Inl (EAPI a) \<and> StatusCode a = 0 \<and> RetryAfter a = 0) \<and>
        net_server (ext w') \<in> {net_server (ext w), m'}"
proof -
  let ?rc = "WithTimeout cx (cl_requestTimeout c) (now w)"
  let ?rq = "make_request c meth path body tok"
  let ?w2 = "emit (HttpSent ?rq) (LogAttrs (cl_logger c) LevelDebug ''hcloud: request''
                          [AStr ''method'' meth, AStr ''url'' (cl_baseURL c @ path),
                           AStr ''authorization'' (''Bearer '' @ redactedToken)] w)"
  have "ctx_Err ?rc (now ?w2) = None" "ctx_Err ?rc (now ?w2 + int dt) = None"
    using assms(4-6) timeout by (auto simp: ctx_Err_def WithTimeout_def)
  then obtain v where out: "call_out (net_http lib order (cl_baseURL c) ?rc ?rq) ?w2 =
      ((if f = Deliver then Inr resp else Inl ''EOF''), v)"
    and v: "now v = now w + int dt" "net_link (ext v) = tl (net_link (ext w))"
      "net_server (ext v) = (if f = LoseRequest then net_server (ext w) else m')"
    using net_call_live [of ?w2 f dt ?rc meth path body resp m'] link sv by auto
  have fin: "now w' = now v \<and> ext w' = ext v \<and> (if f = Deliver then answered lib out zero resp r
      else (\<exists>a. r = Inl (EAPI a) \<and> StatusCode a = 0 \<and> RetryAfter a = 0))"
    using d url out
    by (auto simp: doOnce_def over_net static_token StaticToken_def Let_def answered_def reading_def
        split: option.splits sum.splits if_splits)
  with v show "now w' = now w + int dt" and "net_link (ext w') = tl (net_link (ext w))"
    and "if f = Deliver then answered lib out zero resp r \<and> net_server (ext w') = m'
      else (\<exists>a. r = Inl (EAPI a) \<and> StatusCode a = 0 \<and> RetryAfter a = 0) \<and>
        net_server (ext w') \<in> {net_server (ext w), m'}"
    by auto
qed

definition final :: "http_response \<Rightarrow> bool" where
  "final resp \<longleftrightarrow> rs_StatusCode resp \<noteq> 0 \<and> rs_StatusCode resp \<noteq> 429 \<and>
     \<not> (500 \<le> rs_StatusCode resp \<and> rs_StatusCode resp < 600)"

lemma answered_final: "answered lib out zero resp r \<Longrightarrow> final resp \<Longrightarrow> r = Inl e \<Longrightarrow> \<not> isRetryable e"
  by (auto simp: answered_def final_def isRetryable_def split: if_splits option.splits)

text \<open>The client has time: the context outlasts the pauses of all retries and the delays.\<close>

definition in_time :: "ctx \<Rightarrow> int \<Rightarrow> network world \<Rightarrow> bool" where
  "in_time cx p w \<longleftrightarrow> (\<exists>t0 e0. ctx_done cx = Some (t0, e0) \<and> now w + p + delays (net_link (ext w)) < t0) \<and>
     list_all (\<lambda>q. int (snd q) < sint (cl_requestTimeout c)) (net_link (ext w))"

text \<open>After a call the remaining delays leave the time there was, less the pauses.\<close>

definition within :: "int \<Rightarrow> network world \<Rightarrow> network world \<Rightarrow> bool" where
  "within p w w' \<longleftrightarrow> (\<exists>k. net_link (ext w') = drop k (net_link (ext w))) \<and>
     now w' + delays (net_link (ext w')) \<le> now w + p + delays (net_link (ext w))"

lemma do_loop_live:
  assumes url: "url_ParseError lib (cl_baseURL c @ path) = None"
    and serves: "\<And>m. P m \<Longrightarrow> \<exists>resp m'. serve meth path body m = (Some resp, m') \<and> final resp \<and> P m'"
  shows "do_loop lib c cx meth path body out zero attempt lastErr w = (r, w') \<Longrightarrow> net_link (ext w) = fs \<Longrightarrow>
    attempt + int (length fs) \<le> cl_maxRetries c \<Longrightarrow> retry_after lastErr = 0 \<Longrightarrow> 0 \<le> attempt \<Longrightarrow>
    in_time cx (pauses c attempt (length fs)) w \<Longrightarrow> P (net_server (ext w)) \<Longrightarrow>
    within (pauses c attempt (length fs)) w w' \<and> P (net_server (ext w')) \<and>
    (\<exists>m resp. P m \<and> serve meth path body m = (Some resp, net_server (ext w')) \<and> final resp \<and> answered lib out zero resp r)"
proof (induction fs arbitrary: attempt lastErr w)
  case Nil
  obtain b w1 where b: "before_attempt c cx meth path attempt lastErr w = (b, w1)" by force
  obtain r2 w2 where d: "doOnce lib c cx meth path body out zero w1 = (r2, w2)" by force
  obtain t0 e0 where cx: "ctx_done cx = Some (t0, e0)" "now w + pause c attempt < t0"
    using Nil.prems(2,6) by (auto simp: in_time_def)
  note ba = before_attempt_live [OF b Nil.prems(4) cx]
  obtain resp m' where sv: "serve meth path body (net_server (ext w)) = (Some resp, m')" "final resp" "P m'"
    using serves [OF Nil.prems(7)] by blast
  have "next_link (ext w1) = (Deliver, 0)" using Nil.prems(2) ba(3) by (simp add: next_link_def)
  from doOnce_live [OF url d this cx(1)] sv(1) ba cx(2) timeout
  have "now w2 = now w + pause c attempt" "net_link (ext w2) = []" "net_server (ext w2) = m'"
      "answered lib out zero resp r2"
    using Nil.prems(2) by simp_all
  moreover have "r = r2" "w' = w2"
    using Nil.prems(1,3) b d ba(1) answered_final [OF calculation(4) sv(2)]
    by (auto simp: do_loop.simps split: sum.splits if_splits)
  ultimately show ?case using sv Nil.prems(2,7) by (auto simp: within_def)
next
  case (Cons p fs)
  obtain f dt where p: "p = (f, dt)" by force
  obtain b w1 where b: "before_attempt c cx meth path attempt lastErr w = (b, w1)" by force
  obtain r2 w2 where d: "doOnce lib c cx meth path body out zero w1 = (r2, w2)" by force
  let ?k = "Suc (length fs)"
  obtain t0 e0 where cx: "ctx_done cx = Some (t0, e0)" "now w + pauses c attempt ?k + int dt + delays fs < t0"
    and to: "int dt < sint (cl_requestTimeout c)" "list_all (\<lambda>q. int (snd q) < sint (cl_requestTimeout c)) fs"
    using Cons.prems(2,6) p by (auto simp: in_time_def)
  have pp: "pauses c attempt ?k = pause c attempt + pauses c (attempt + 1) (length fs)" "0 \<le> pauses c (attempt + 1) (length fs)"
    "0 \<le> delays fs" by (simp_all add: pauses_nonneg delays_nonneg)
  have early: "now w + pause c attempt < t0" using cx(2) pp by simp
  note ba = before_attempt_live [OF b Cons.prems(4) cx(1) early]
  obtain resp m' where sv: "serve meth path body (net_server (ext w)) = (Some resp, m')" "final resp" "P m'"
    using serves [OF Cons.prems(7)] by blast
  have nl: "next_link (ext w1) = (f, dt)" using Cons.prems(2) ba(3) p by (simp add: next_link_def)
  have "now w1 + int dt < t0" using cx(2) pp ba(2) by simp
  from doOnce_live [OF url d nl cx(1) this to(1)] sv(1) ba
  have o: "now w2 = now w + pause c attempt + int dt" "net_link (ext w2) = fs"
    "if f = Deliver then answered lib out zero resp r2 \<and> net_server (ext w2) = m'
      else (\<exists>a. r2 = Inl (EAPI a) \<and> StatusCode a = 0 \<and> RetryAfter a = 0) \<and> net_server (ext w2) \<in> {net_server (ext w), m'}"
    using Cons.prems(2) by (simp_all split: if_splits)
  have le: "attempt \<le> cl_maxRetries c" using Cons.prems(3) by simp
  show ?case
  proof (cases "f = Deliver")
    case True
    then have ans: "answered lib out zero resp r2" "net_server (ext w2) = m'" using o(3) by simp_all
    have "r = r2" "w' = w2"
      using Cons.prems(1) le b d ba(1) answered_final [OF ans(1) sv(2)]
      by (auto simp: do_loop.simps [of _ _ _ _ _ _ _ _ attempt] split: sum.splits if_splits)
    moreover have "within (pauses c attempt ?k) w w2"
      using o(1,2) Cons.prems(2) p pp by (auto simp: within_def intro: exI [of _ 1])
    ultimately show ?thesis using sv ans Cons.prems(7) by auto
  next
    case False
    then obtain a where a: "r2 = Inl (EAPI a)" "StatusCode a = 0" "RetryAfter a = 0"
      and P2: "P (net_server (ext w2))"
      using o(3) sv(3) Cons.prems(7) by auto
    have "do_loop lib c cx meth path body out zero (attempt + 1) (Some (EAPI a)) w2 = (r, w')"
      using Cons.prems(1) le b d ba(1) a by (simp add: do_loop.simps [of _ _ _ _ _ _ _ _ attempt] isRetryable_def)
    moreover have "in_time cx (pauses c (attempt + 1) (length fs)) w2"
      using cx o(1,2) pp to(2) by (simp add: in_time_def)
    ultimately have ih: "within (pauses c (attempt + 1) (length fs)) w2 w'" "P (net_server (ext w'))"
        "\<exists>m resp. P m \<and> serve meth path body m = (Some resp, net_server (ext w')) \<and> final resp \<and> answered lib out zero resp r"
      using Cons.IH [of "attempt + 1" "Some (EAPI a)" w2] o(2) Cons.prems(3,5) a(3) P2 by (auto simp: retry_after_def)
    obtain k where k: "net_link (ext w') = drop k fs" using ih(1) o(2) by (auto simp: within_def)
    have "within (pauses c attempt ?k) w w'"
      using ih(1) o(1,2) Cons.prems(2) p pp k by (auto simp: within_def intro: exI [of _ "Suc k"])
    with ih(2,3) show ?thesis by simp
  qed
qed

lemma pauses_mono: "k \<le> k' \<Longrightarrow> pauses c j k \<le> pauses c j k'"
proof (induction k arbitrary: j k')
  case 0
  then show ?case by (simp add: pauses_first)
next
  case (Suc k)
  then obtain k'' where "k' = Suc k''" "k \<le> k''" by (cases k') auto
  with Suc.IH show ?case by simp
qed

definition net_ready :: "nat \<Rightarrow> ctx \<Rightarrow> network world \<Rightarrow> bool" where
  "net_ready n cx w \<longleftrightarrow> int (length (net_link (ext w))) \<le> cl_maxRetries c \<and>
     in_time cx (int n * pauses c 0 (nat (cl_maxRetries c))) w"

lemma net_ready_less: "net_ready (Suc n) cx w \<Longrightarrow> net_ready n cx w"
  using pauses_nonneg [of 0 "nat (cl_maxRetries c)"] by (auto simp: net_ready_def in_time_def algebra_simps)

lemma client_do_live:
  assumes url: "url_ParseError lib (cl_baseURL c @ path) = None"
    and d: "client_do lib c cx meth path body out zero w = (r, w')"
    and rd: "net_ready (Suc n) cx w" and P: "P (net_server (ext w))"
    and serves: "\<And>m. P m \<Longrightarrow> \<exists>resp m'. serve meth path (map_option json_print body) m = (Some resp, m') \<and> final resp \<and> P m'"
  shows "net_ready n cx w' \<and> (\<exists>m resp. P m \<and>
    serve meth path (map_option json_print body) m = (Some resp, net_server (ext w')) \<and> answered lib out zero resp r)"
proof -
  let ?fs = "net_link (ext w)" and ?L = "pauses c 0 (nat (cl_maxRetries c))"
  have len: "int (length ?fs) \<le> cl_maxRetries c" and time: "in_time cx (int (Suc n) * ?L) w"
    using rd by (auto simp: net_ready_def)
  have le: "pauses c 0 (length ?fs) \<le> ?L" using len by (intro pauses_mono) linarith
  have "0 \<le> int n * ?L" by (simp add: pauses_nonneg)
  with time le have "in_time cx (pauses c 0 (length ?fs)) w" by (fastforce simp: in_time_def algebra_simps)
  then have live: "within (pauses c 0 (length ?fs)) w w'" "\<exists>m resp. P m \<and>
      serve meth path (map_option json_print body) m = (Some resp, net_server (ext w')) \<and> answered lib out zero resp r"
    using do_loop_live [OF url serves d [unfolded client_do_def] refl _ _ _ _ P] len by (auto simp: retry_after_def)
  then obtain k where k: "net_link (ext w') = drop k ?fs" by (auto simp: within_def)
  have "net_ready n cx w'"
    using live(1) time le len k
    by (fastforce simp: net_ready_def within_def in_time_def algebra_simps list_all_iff dest: in_set_dropD)
  with live(2) show ?thesis by blast
qed

lemma list_live_law:
  assumes "accepts tok (net_server (ext w))" and "net_ready (Suc n) cx w" and "ListZones lib c cx w = (r, w')"
  shows "net_ready n cx w' \<and> is_ok r"
proof -
  let ?out = "Some (dec_listZonesResponse lib)"
  obtain r0 where d: "client_do lib c cx ''GET'' ''/v1/zones'' None ?out zero_listZonesResponse w = (r0, w')"
    and r: "is_ok r = is_ok r0"
    using assms(3) by (auto simp: ListZones_def split: prod.splits sum.splits)
  have st: "rs_StatusCode (serveListZones zs) = 200" "rs_Body (serveListZones zs) \<noteq> []" "final (serveListZones zs)" for zs
    by (simp_all add: serveListZones_def writeJSON_def final_def)
  have "\<exists>resp m'. serve ''GET'' ''/v1/zones'' (map_option json_print None) m = (Some resp, m') \<and> final resp \<and> accepts tok m'"
    if "accepts tok m" for m
    using that st by (simp add: serve_list)
  from client_do_live [OF _ d assms(2), of "accepts tok", OF _ assms(1) this] urls
  obtain m resp where m: "net_ready n cx w'" "accepts tok m"
      "serve ''GET'' ''/v1/zones'' None m = (Some resp, net_server (ext w'))"
      "answered lib ?out zero_listZonesResponse resp r0"
    by (auto simp: endpoint_urls_ok_def)
  have "list_all (\<lambda>p. ascii (fst p)) (order (mk_zones m))"
    using m(2) visits by (auto simp: accepts_def visits_all_def distinct_map list_all_iff)
  from zones_answer [OF zero this] m st r show ?thesis
    by (auto simp: serve_list answered_def reading_def is_ok_iff)
qed

lemma create_live_law:
  assumes "accepts tok (net_server (ext w))" and "net_ready (Suc n) cx w" and "sendable q"
    and "CreateRRSet lib c cx i q w = (r, w')"
  shows "net_ready n cx w' \<and> (is_ok r \<or> (\<exists>e. r = Inl e \<and> errors_Is e ErrConflict))"
proof -
  let ?body = "Some (json_print (marshal_CreateRRSetRequest q))" and ?out = "Some (dec_rrsetEnvelope lib)"
  let ?resp = "writeJSON 201 (JObj [(''rrset'', marshal_RRSet (mock_rrset i q))])"
  have served: "\<exists>resp m'. serve ''POST'' (zone_path i) ?body m = (Some resp, m') \<and> final resp \<and> accepts tok m' \<and>
      (rs_StatusCode resp = 409 \<or> resp = ?resp)" if acc: "accepts tok m" for m
  proof -
    obtain ro m' where sv: "serve ''POST'' (zone_path i) ?body m = (ro, m')" by force
    from create_served [OF acc assms(3) sv] sv show ?thesis
      by (auto simp: final_def writeJSON_def split: if_splits)
  qed
  have "\<exists>resp m'. serve ''POST'' (zone_path i) (map_option json_print (Some (marshal_CreateRRSetRequest q))) m =
      (Some resp, m') \<and> final resp \<and> accepts tok m'" if "accepts tok m" for m
    using served [OF that] unfolding option.map by blast
  from client_do_live [OF _ assms(4) [unfolded CreateRRSet_def] assms(2), of "accepts tok", OF _ assms(1) this] urls
  obtain m resp where m: "net_ready n cx w'" "accepts tok m"
      "serve ''POST'' (zone_path i) ?body m = (Some resp, net_server (ext w'))" "answered lib ?out zero_RRSet resp r"
    by (fastforce simp: endpoint_urls_ok_def)
  have "is_ok (json_Unmarshal lib (dec_rrsetEnvelope lib) zero_RRSet (rs_Body ?resp))"
    using assms(3) by (intro create_answer)
      (simp_all add: sendable_def create_ascii_def ascii_records_iff)
  then obtain v where v: "json_Unmarshal lib (dec_rrsetEnvelope lib) zero_RRSet (rs_Body ?resp) = Inr v"
    by (auto simp: is_ok_iff)
  have "rs_StatusCode ?resp = 201" "rs_Body ?resp \<noteq> []" by (simp_all add: writeJSON_def)
  with served [OF m(2)] m v show ?thesis
    by (auto simp: answered_def reading_def APIError_Is_def)
qed

lemma set_live_law:
  assumes "accepts tok (net_server (ext w))" and "net_ready (Suc n) cx w" and "ascii_records (srq_Records q)"
    and "i \<in> dom (mock_recs (net_server (ext w)))" and "SetRRSetRecords lib c cx i nm t q w = (r, w')"
  shows "net_ready n cx w' \<and> is_ok r"
proof -
  let ?body = "Some (json_print (marshal_SetRRSetRecordsRequest q))" and ?out = "Some (dec_actionEnvelope lib)"
  let ?path = "rrset_path i nm t @ ''/actions/set_records''"
  let ?resp = "writeJSON 201 (JObj [(''action'', JObj [(''command'', JStr ''set_rrset_records''),
          (''id'', JNum (Itoa 1509851)), (''status'', JStr ''running'')])])"
  let ?P = "\<lambda>m. accepts tok m \<and> i \<in> dom (mock_recs m)"
  have served: "\<exists>m'. serve ''POST'' ?path ?body m = (Some ?resp, m') \<and> ?P m'" if P: "?P m" for m
  proof -
    obtain p b where "serve ''POST'' ?path ?body m =
        map_prod Some id (serveSetRecords i q (noted ''POST'' p b (''Bearer '' @ tok) m))"
      using serve_set [OF _ assms(3)] P by blast
    with P show ?thesis
      by (auto simp: serveSetRecords_def mock_recs_def split: option.splits)
  qed
  have st: "rs_StatusCode ?resp = 201" "rs_Body ?resp \<noteq> []" "final ?resp" by (simp_all add: writeJSON_def final_def)
  have "\<exists>resp m'. serve ''POST'' ?path (map_option json_print (Some (marshal_SetRRSetRecordsRequest q))) m =
      (Some resp, m') \<and> final resp \<and> ?P m'" if "?P m" for m
    using served [OF that] st(3) unfolding option.map by blast
  from client_do_live [OF _ assms(5) [unfolded SetRRSetRecords_def] assms(2), of ?P, OF _ conjI [OF assms(1,4)] this] urls
  obtain m resp where m: "net_ready n cx w'" "?P m"
      "serve ''POST'' ?path ?body m = (Some resp, net_server (ext w'))" "answered lib ?out zero_Action resp r"
    by (fastforce simp: endpoint_urls_ok_def)
  obtain v where "json_Unmarshal lib (dec_actionEnvelope lib) zero_Action (rs_Body ?resp) = Inr v"
    using action_answer by (auto simp: is_ok_iff)
  with served [OF m(2)] m st show ?thesis by (auto simp: answered_def reading_def)
qed

lemma delete_live_law:
  assumes "accepts tok (net_server (ext w))" and "net_ready (Suc n) cx w" and "DeleteRRSet lib c cx i nm t w = (r, w')"
  shows "net_ready n cx w' \<and> (is_ok r \<or> (\<exists>e. r = Inl e \<and> errors_Is e ErrNotFound))"
proof -
  let ?path = "rrset_path i nm t"
  have served: "\<exists>resp m'. serve ''DELETE'' ?path None m = (Some resp, m') \<and> rs_StatusCode resp \<in> {204, 404} \<and> accepts tok m'"
    if acc: "accepts tok m" for m
  proof -
    obtain p where "serve ''DELETE'' ?path None m =
        map_prod Some id (serveDelete i (noted ''DELETE'' p [] (''Bearer '' @ tok) m))"
      using serve_delete [OF acc] by blast
    with acc show ?thesis
      by (auto simp: serveDelete_def writeError_def writeJSON_def split: option.splits)
  qed
  have "\<exists>resp m'. serve ''DELETE'' ?path (map_option json_print None) m = (Some resp, m') \<and> final resp \<and> accepts tok m'"
    if "accepts tok m" for m
    using served [OF that] by (fastforce simp: final_def)
  from client_do_live [OF _ assms(3) [unfolded DeleteRRSet_def] assms(2), of "accepts tok", OF _ assms(1) this] urls
  obtain m resp where m: "net_ready n cx w'" "accepts tok m"
      "serve ''DELETE'' ?path None m = (Some resp, net_server (ext w'))" "answered lib None () resp r"
    by (fastforce simp: endpoint_urls_ok_def)
  from served [OF m(2)] m show ?thesis by (auto simp: answered_def reading_def APIError_Is_def)
qed

end

sublocale net_live \<subseteq> answering_service: live_service "as_HCloudClient lib c" "\<lambda>x. accepts tok (net_server x)"
  "\<lambda>x. map_of (mk_zones (net_server x))" "\<lambda>i n t. i" "\<lambda>x. mock_recs (net_server x)" net_ready
proof (unfold_locales, goal_cases)
  case (1 w n cx r1 w')
  then show ?case by (intro list_live_law) (simp_all add: as_HCloudClient_def)
next
  case (2 w n cx rq i r2 w')
  then show ?case by (intro create_live_law) (simp_all add: as_HCloudClient_def)
next
  case (3 w n cx srq i nm t r3 w')
  then have "SetRRSetRecords lib c cx i nm t srq w = (r3, w')" by (simp add: as_HCloudClient_def)
  from set_live_law [OF 3(1-4) this] show ?case .
next
  case (4 w n cx i nm t r4 w')
  then have "DeleteRRSet lib c cx i nm t w = (r4, w')" by (simp add: as_HCloudClient_def)
  from delete_live_law [OF 4(1,2) this] show ?case .
next
  case (5 n cx w)
  then show ?case by (rule net_ready_less)
qed

context net_live
begin

lemmas net_present_live = answering_service.present_live
lemmas net_cleanup_live = answering_service.cleanup_live

end

section \<open>The production client\<close>

lemma default_client_live:
  assumes "deployed pf order"
  shows "net_live (default_client (pf_http pf) (pf_pick pf) lg tok) tok (pf_lib pf) order"
proof -
  have "0 < sint (cl_requestTimeout (default_client (pf_http pf) (pf_pick pf) lg tok))"
    using default_client_inv [of "pf_http pf" "pf_pick pf" lg tok] by (simp add: client_inv_def)
  with deployed_client [OF assms, of lg tok] default_client_sane show ?thesis
    by (simp add: net_live_def net_live_axioms_def)
qed

interpretation production_live: net_live
  "default_client (net_http sample_lib rev DefaultBaseURL) pick lg tok" tok sample_lib rev for pick lg tok
  using default_client_inv [of "net_http sample_lib rev DefaultBaseURL" pick lg tok]
  by unfold_locales (simp_all add: default_client_sane client_inv_def)

text \<open>Six retries of the default client pause for 31.5 seconds together.\<close>

lemma default_pauses: "pauses (default_client http pick lg tok) 0 (nat (cl_maxRetries (default_client http pick lg tok))) = 31500000000"
proof -
  let ?c = "default_client http pick lg tok"
  have "pause ?c j = (if 0 < j then min (500000000 * 2 ^ nat (j - 1)) 30000000000 else 0)" for j
    by (simp add: pause_def default_client_def client_default_defs)
  moreover have "nat (cl_maxRetries ?c) = Suc (Suc (Suc (Suc (Suc (Suc 0)))))"
    by (simp add: default_client_def client_default_defs)
  ultimately show ?thesis by (simp add: power_numeral_even)
qed

section \<open>Properties\<close>

text \<open>The budget of a call covers the reading of the Secret, the delays of the network and the
  pauses of up to six retries in each of three API calls.\<close>

definition ample :: "network platform \<Rightarrow> nat \<Rightarrow> network Solver \<Rightarrow> network world \<Rightarrow> bool" where
  "ample pf d s w \<longleftrightarrow> kube_within pf d \<and> length (net_link (ext w)) \<le> 6 \<and>
     list_all (\<lambda>q. int (snd q) < 30000000000) (net_link (ext w)) \<and>
     int d + delays (net_link (ext w)) + 3 * 31500000000 < sint (s_requestBudget s)"

lemma ample_ready:
  assumes "ample pf d s w" and "now w1 \<le> now w + int d" and "ext w1 = ext w" and "deployed pf order" and "n \<le> 3"
  shows "net_live.net_ready (default_client (pf_http pf) (pf_pick pf) lg tok) n (contextFor s w) w1"
proof -
  let ?c = "default_client (pf_http pf) (pf_pick pf) lg tok"
  note live = default_client_live [OF assms(4), of lg tok]
  have f: "cl_maxRetries ?c = 6" "sint (cl_requestTimeout ?c) = 30000000000"
    by (simp_all add: default_client_def client_default_defs)
  have "int n * 31500000000 \<le> 3 * 31500000000" using assms(5) by simp
  then have "now w1 + int n * 31500000000 + delays (net_link (ext w1)) < now w + sint (s_requestBudget s)"
    using assms(1-3) unfolding ample_def by simp
  then show ?thesis
    using assms(1,3) default_pauses [of "pf_http pf" "pf_pick pf" lg tok]
    unfolding net_live.net_ready_def [OF live] net_live.in_time_def [OF live]
    by (simp add: f ample_def contextFor_def WithTimeout_def Background_def)
qed

lemma calls_survive:
  assumes "deployed pf order" and "system_ok pf tok Z s w" and "ample pf d s w"
    and "routed pf ch cr ref apex" and "hands_out pf tok ref" and "ascii_challenge ch" and "Z apex = Some i"
  shows "(\<exists>s' w'. Present pf s (Some ch) w = (None, s', w') \<and>
      mock_recs (net_server (ext w')) = (mock_recs (net_server (ext w)))(i \<mapsto> challenge_records (pf_uc pf) ch)) \<and>
    (\<exists>s' w'. CleanUp pf s (Some ch) w = (None, s', w') \<and>
      mock_recs (net_server (ext w')) = (mock_recs (net_server (ext w)))(i := None))"
proof -
  have prod: "production pf s" and ttl: "in_int64 (s_rrsetTTL s)" and acc: "accepts tok (net_server (ext w))"
    and coh: "coherent Z (s_zones s)" and Z: "map_of (mk_zones (net_server (ext w))) = Z"
    using assms(2) by (auto simp: system_ok_def solver_inv_def)
  obtain lg w1 where prep: "prepare pf s (contextFor s w) ch w = (Inr (cr, ref,
      as_HCloudClient (pf_lib pf) (default_client (pf_http pf) (pf_pick pf) lg tok), apex), w1)"
    and w1: "ext w1 = ext w" "now w1 \<le> now w + int d"
    by (rule deployed_prepare [OF prod assms(4,5), of "contextFor s w" w])
      (use assms(3) in \<open>auto simp: ample_def\<close>)
  note live = default_client_live [OF assms(1), of lg tok] and ready = ample_ready [OF assms(3) w1(2,1) assms(1)]
  have "fst (Present pf s (Some ch) w) = None"
    using net_live.net_present_live [OF live prep _ _ ascii_writable [OF assms(4,6) ttl] ready [of 3]] acc coh Z w1 assms(7)
    by simp
  moreover have "fst (CleanUp pf s (Some ch) w) = None"
    using net_live.net_cleanup_live [OF live prep _ _ ready [of 2]] acc coh Z w1 by simp
  ultimately obtain s1 v1 s2 v2 where p: "Present pf s (Some ch) w = (None, s1, v1)"
      and c: "CleanUp pf s (Some ch) w = (None, s2, v2)"
    by (metis prod.collapse)
  with present_end_to_end [OF assms(1,5,2,4,6) p] cleanup_end_to_end [OF assms(1,5,2,4) c] assms(7)
  show ?thesis by (simp add: dns_step_def dns_of_def)
qed

text \<open>
  C13: the solver outlasts an unreliable network. If the next messages suffer at most six losses
  (of requests or of responses, in any order, with any delays that fit into the budget), then
  \<open>Present\<close> returns nil and the record set of the zone holds exactly the quoted key, whether or
  not one existed before; and \<open>CleanUp\<close> returns nil and the record set is gone.
\<close>

theorem calls_survive_losses:
  assumes "deployed pf order" and "system_ok pf tok Z s w" and "ample pf d s w"
    and "routed pf ch cr ref apex" and "hands_out pf tok ref" and "ascii_challenge ch" and "Z apex = Some i"
  shows "(\<exists>s' w'. Present pf s (Some ch) w = (None, s', w') \<and>
      mock_recs (net_server (ext w')) = (mock_recs (net_server (ext w)))(i \<mapsto> challenge_records (pf_uc pf) ch)) \<and>
    (\<exists>s' w'. CleanUp pf s (Some ch) w = (None, s', w') \<and>
      mock_recs (net_server (ext w')) = (mock_recs (net_server (ext w)))(i := None))"
  by (rule calls_survive [OF assms])

theorem calls_survive_losses_witness:
  "\<exists>s' w'. Present (sample_platform sample_net_http) (sample_solver sample_net_http) (Some sample_challenge)
      sample_net_world = (None, s', w') \<and>
    mock_recs (net_server (ext w')) = [7 \<mapsto> [\<lparr>rec_Value = [dquote, CHR ''k'', dquote], rec_Comment = []\<rparr>]]"
proof -
  let ?pf = "sample_platform sample_net_http" and ?s = "sample_solver sample_net_http"
  have "s_zones ?s = newZoneCache defaultZoneCacheTTL (Some now)" "s_rrsetTTL ?s = 60"
      "s_requestBudget ?s = 120 * second"
    by (simp_all add: sample_solver_def solver_New_def defaultRRSetTTL_def defaultRequestBudget_def)
  note f = this
  have "system_ok ?pf ''s3cret'' [''example.com'' \<mapsto> 7] ?s sample_net_world"
    using lifecycle_inv [OF sample_lifecycle] sample_accepts f
    by (simp add: system_ok_def in_int64_def) (simp add: sample_net_world_def newMockHCloudServer_def)
  moreover have "ample ?pf 0 ?s sample_net_world"
    using f(3) by (simp add: ample_def kube_within_def sample_platform_def sample_kube_def sample_net_world_def second_def)
  moreover have "ascii_challenge sample_challenge" by (simp add: ascii_challenge_def sample_challenge_def)
  ultimately have "\<exists>s' w'. Present ?pf ?s (Some sample_challenge) sample_net_world = (None, s', w') \<and>
      mock_recs (net_server (ext w')) = (mock_recs (net_server (ext sample_net_world)))
        (7 \<mapsto> challenge_records (pf_uc ?pf) sample_challenge)"
    using calls_survive_losses [OF sample_deployed _ _ sample_routed sample_hands_out] by simp
  moreover have "mock_recs (net_server (ext sample_net_world)) = Map.empty"
    by (simp add: sample_net_world_def newMockHCloudServer_def mock_recs_def fun_eq_iff)
  moreover have "challenge_records (pf_uc ?pf) sample_challenge = [\<lparr>rec_Value = [dquote, CHR ''k'', dquote], rec_Comment = []\<rparr>]"
    by (simp add: challenge_records_def quoteTXT_def sample_challenge_def Quote_plain plain_char_def)
  ultimately show ?thesis by simp
qed

text \<open>
  C34: \<open>CleanUp\<close> believes a stale zone id. If the cache still holds the id \<open>j\<close> of a zone that
  has been deleted and created anew under another id, \<open>CleanUp\<close> looks for the record under
  the old id only and returns nil: the record set at the zone's current id stays.
\<close>

theorem cleanup_trusts_stale_id:
  assumes "deployed pf order" and "solver_inv pf s w" and "ample pf d s w"
    and "routed pf ch cr ref apex" and "hands_out pf tok ref" and "accepts tok (net_server (ext w))"
    and "zc_store (s_zones s) (cache_key (SecretRef_String ref) apex) = Some \<lparr>ze_id = j, ze_expiresAt = t\<rparr>"
    and "now w + int d \<le> t"
    and "map_of (mk_zones (net_server (ext w))) apex = Some i" and "i \<noteq> j"
  shows "\<exists>s' w'. CleanUp pf s (Some ch) w = (None, s', w') \<and>
    mock_recs (net_server (ext w')) i = mock_recs (net_server (ext w)) i"
proof -
  let ?u = "pf_uc pf" and ?cx = "contextFor s w"
  have prod: "production pf s" and ck: "zc_now (s_zones s) = now"
    using assms(2) by (auto simp: solver_inv_def cache_ok_def)
  obtain lg w1 where prep: "prepare pf s ?cx ch w = (Inr (cr, ref,
      as_HCloudClient (pf_lib pf) (default_client (pf_http pf) (pf_pick pf) lg tok), apex), w1)"
    and w1: "ext w1 = ext w" "now w1 \<le> now w + int d"
    by (rule deployed_prepare [OF prod assms(4,5), of ?cx w])
      (use assms(3) in \<open>auto simp: ample_def\<close>)
  let ?c = "default_client (pf_http pf) (pf_pick pf) lg tok"
  let ?api = "as_HCloudClient (pf_lib pf) ?c"
  note live = default_client_live [OF assms(1), of lg tok] and net = deployed_client [OF assms(1), of lg tok]
  have acc: "accepts tok (net_server (ext w1))" using assms(6) w1 by simp
  have z: "resolveZoneID ?u s ?cx ?api (SecretRef_String ref) apex w1 = (Inr j, s, w1)"
    using assms(7,8) w1(2) by (simp add: resolveZoneID_def Lookup_def ck)
  let ?name = "relativeRecordName ?u (ch_ResolvedFQDN ch) apex"
  obtain rd w3 where d: "DeleteRRSet (pf_lib pf) ?c ?cx j ?name ''TXT'' w1 = (rd, w3)" by force
  have rd: "is_ok rd \<or> (\<exists>e. rd = Inl e \<and> errors_Is e ErrNotFound)"
    using net_live.delete_live_law [OF live acc ample_ready [OF assms(3) w1(2,1) assms(1), of "Suc 0"] d] by simp
  from net_client.delete_law [OF net acc d refl] rd assms(10) w1
  have same: "mock_recs (net_server (ext w3)) i = mock_recs (net_server (ext w)) i" by simp
  have "\<exists>w'. CleanUp pf s (Some ch) w = (None, s, w') \<and> ext w' = ext w3"
    using prep z d rd by (auto simp: CleanUp_def Let_def defaultRRSetType_def as_HCloudClient_def is_ok_iff)
  with same show ?thesis by auto
qed

definition recreated_world :: "network world" where
  "recreated_world = \<lparr>now = 0, trace = [],
     ext = \<lparr>net_server = (newMockHCloudServer ''s3cret'' [(''example.com'', 7)])
         \<lparr>mk_rrsets := [7 \<mapsto> zero_RRSet\<lparr>rr_Name := ''_acme-challenge.www'', rr_Records := [\<lparr>rec_Value = ''k'', rec_Comment = []\<rparr>]\<rparr>]\<rparr>,
       net_link = []\<rparr>\<rparr>"

definition stale_solver :: "network Solver" where
  "stale_solver = (sample_solver sample_net_http)\<lparr>s_zones :=
     Store (SecretRef_String sample_ref) ''example.com'' 3 recreated_world (s_zones (sample_solver sample_net_http))\<rparr>"

theorem cleanup_trusts_stale_id_witness:
  "\<exists>s' w'. CleanUp (sample_platform sample_net_http) stale_solver (Some sample_challenge) recreated_world = (None, s', w') \<and>
    mock_recs (net_server (ext w')) 7 = Some [\<lparr>rec_Value = ''k'', rec_Comment = []\<rparr>]"
proof -
  let ?pf = "sample_platform sample_net_http"
  have zc: "s_zones (sample_solver sample_net_http) = newZoneCache defaultZoneCacheTTL (Some now)"
    and b: "s_requestBudget stale_solver = 120 * second"
    by (simp_all add: sample_solver_def solver_New_def stale_solver_def defaultRequestBudget_def)
  have "solver_inv ?pf (sample_solver sample_net_http) recreated_world"
    by (rule lifecycle_inv [OF sample_lifecycle])
  then have inv: "solver_inv ?pf stale_solver recreated_world"
    unfolding stale_solver_def by (auto simp: solver_inv_def intro: cache_ok_Store)
  have amp: "ample ?pf 0 stale_solver recreated_world"
    using b by (simp add: ample_def kube_within_def sample_platform_def sample_kube_def recreated_world_def second_def)
  have acc: "accepts ''s3cret'' (net_server (ext recreated_world))"
    by (simp add: recreated_world_def newMockHCloudServer_def accepts_def)
  have st: "zc_store (s_zones stale_solver) (cache_key (SecretRef_String sample_ref) ''example.com'') =
      Some \<lparr>ze_id = 3, ze_expiresAt = 30000000000\<rparr>"
    by (simp add: stale_solver_def Store_def zc newZoneCache_def recreated_world_def defaultZoneCacheTTL_def second_def)
  have "mock_recs (net_server (ext recreated_world)) 7 = Some [\<lparr>rec_Value = ''k'', rec_Comment = []\<rparr>]"
    by (simp add: recreated_world_def mock_recs_def)
  with cleanup_trusts_stale_id [OF sample_deployed inv amp sample_routed sample_hands_out acc st, of 7]
  show ?thesis by (simp add: recreated_world_def newMockHCloudServer_def)
qed

text \<open>Two challenges that differ in their keys only have the same zone, and are cleaned up alike.\<close>

lemma routed_key: "routed pf (ch\<lparr>ch_Key := key\<rparr>) cr ref apex = routed pf ch cr ref apex"
  by (simp add: routed_def)

lemma key_fields:
  "ch_ResolvedFQDN (ch\<lparr>ch_Key := key\<rparr>) = ch_ResolvedFQDN ch"
  "ch_ResourceNamespace (ch\<lparr>ch_Key := key\<rparr>) = ch_ResourceNamespace ch"
  "ch_Config (ch\<lparr>ch_Key := key\<rparr>) = ch_Config ch"
  by simp_all

lemma prepare_key: "prepare pf s cx (ch\<lparr>ch_Key := key\<rparr>) w = prepare pf s cx ch w"
  unfolding prepare_def key_fields ..

lemma CleanUp_key: "CleanUp pf s (Some (ch\<lparr>ch_Key := key\<rparr>)) w = CleanUp pf s (Some ch) w"
  unfolding CleanUp_def option.case prepare_key key_fields ..

text \<open>
  C14: challenges that share a name share the record. A certificate for a domain and for its
  wildcard has two challenges at one name, with two keys, which are validated side by side. While the
  record of the first is in place, \<open>Present\<close> for the second succeeds and leaves the second key
  alone in the record set, and \<open>CleanUp\<close> for the second succeeds and removes the record of the
  first. \<open>CleanUp\<close> never looks at the key.
\<close>

theorem keys_share_record_set:
  assumes "deployed pf order" and "system_ok pf tok Z s w" and "ample pf d s w"
    and "routed pf ch cr ref apex" and "hands_out pf tok ref" and "Z apex = Some i"
    and "ascii_challenge ch" and "ascii_challenge (ch\<lparr>ch_Key := key\<rparr>)"
    and "mock_recs (net_server (ext w)) i = Some (challenge_records (pf_uc pf) ch)"
  shows "(\<exists>s' w'. Present pf s (Some (ch\<lparr>ch_Key := key\<rparr>)) w = (None, s', w') \<and>
      mock_recs (net_server (ext w')) i = Some [\<lparr>rec_Value = quoteTXT (pf_uc pf) key, rec_Comment = []\<rparr>]) \<and>
    (\<exists>s' w'. CleanUp pf s (Some (ch\<lparr>ch_Key := key\<rparr>)) w = (None, s', w') \<and> mock_recs (net_server (ext w')) i = None) \<and>
    (\<forall>s w. CleanUp pf s (Some (ch\<lparr>ch_Key := key\<rparr>)) w = CleanUp pf s (Some ch) w)"
  using calls_survive [OF assms(1-3) _ assms(5,8,6), of cr] assms(4)
  by (auto simp: routed_key CleanUp_key challenge_records_def)

definition presented_world :: "network world" where
  "presented_world = \<lparr>now = 0, trace = [],
     ext = \<lparr>net_server = (newMockHCloudServer ''s3cret'' [(''example.com'', 7)])
         \<lparr>mk_rrsets := [7 \<mapsto> zero_RRSet\<lparr>rr_Name := ''_acme-challenge.www'', rr_Records := challenge_records sample_unicode sample_challenge\<rparr>]\<rparr>,
       net_link = []\<rparr>\<rparr>"

theorem keys_share_record_set_witness:
  "\<exists>s' w'. Present (sample_platform sample_net_http) (sample_solver sample_net_http) (Some (sample_challenge\<lparr>ch_Key := ''m''\<rparr>))
      presented_world = (None, s', w') \<and>
    mock_recs (net_server (ext w')) 7 = Some [\<lparr>rec_Value = [dquote, CHR ''m'', dquote], rec_Comment = []\<rparr>]"
proof -
  let ?pf = "sample_platform sample_net_http" and ?s = "sample_solver sample_net_http"
  have acc: "accepts ''s3cret'' (net_server (ext presented_world))"
    by (simp add: presented_world_def newMockHCloudServer_def accepts_def)
  have sys: "system_ok ?pf ''s3cret'' [''example.com'' \<mapsto> 7] ?s presented_world"
    using fresh_system_ok [OF _ sample_init sample_rrsetTTL acc] by (simp add: presented_world_def newMockHCloudServer_def)
  have amp: "ample ?pf 0 ?s presented_world"
    by (simp add: ample_def kube_within_def sample_platform_def sample_kube_def presented_world_def second_def
        sample_solver_def solver_New_def defaultRequestBudget_def)
  have u: "pf_uc ?pf = sample_unicode" by (simp add: sample_platform_def sample_lib_def)
  have "ascii_challenge (sample_challenge\<lparr>ch_Key := k\<rparr>)" if "ascii k" for k
    using that by (simp add: ascii_challenge_def sample_challenge_def)
  from this [of "''m''"] this [of "''k''"] have asc: "ascii_challenge (sample_challenge\<lparr>ch_Key := ''m''\<rparr>)" "ascii_challenge sample_challenge"
    by (simp_all add: sample_challenge_def)
  have "mock_recs (net_server (ext presented_world)) 7 = Some (challenge_records (pf_uc ?pf) sample_challenge)"
    by (simp add: presented_world_def mock_recs_def u)
  from keys_share_record_set [OF sample_deployed sys amp sample_routed sample_hands_out _ asc(2,1) this]
  have "\<exists>s' w'. Present ?pf ?s (Some (sample_challenge\<lparr>ch_Key := ''m''\<rparr>)) presented_world = (None, s', w') \<and>
      mock_recs (net_server (ext w')) 7 = Some [\<lparr>rec_Value = quoteTXT sample_unicode ''m'', rec_Comment = []\<rparr>]"
    by (simp add: u)
  moreover have "quoteTXT sample_unicode ''m'' = [dquote, CHR ''m'', dquote]"
    by (simp add: quoteTXT_def Quote_plain plain_char_def)
  ultimately show ?thesis by simp
qed

end
