(* ===== verification/Json_Fuel.thy ===== *)
theory Json_Fuel
  imports Json_Correct Config
begin

text \<open>
  The fuel of the JSON parser is enough for every input, valid or not: each call of the parser
  consumes a byte within two steps, so more fuel than twice the length changes nothing. The
  decoder of the issuer configuration therefore never gives up on an input early.
\<close>

section \<open>Progress\<close>

lemma parse_string_progress: "parse_string s = Some (x, t) \<Longrightarrow> length t < length s"
proof (induction "length s" arbitrary: s x t rule: less_induct)
  case less
  have rec: "length u < length s" if "parse_string ys = Some (y, u)" "length ys < length s" for ys y u
    using less.hyps [OF that(2,1)] that(2) by simp
  show ?case
  proof (cases s)
    case Nil
    with less.prems show ?thesis by (simp add: parse_string.simps)
  next
    case (Cons c cs)
    show ?thesis
      using less.prems rec unfolding Cons
      by (subst (asm) parse_string.simps) (auto split: if_splits list.splits option.splits)
  qed
qed

lemma expect_progress: "expect c s = Some t \<Longrightarrow> length t < length s"
  using length_dropWhile_le [of json_ws s] by (auto simp: expect_def skip_ws_def split: list.splits if_splits)

lemma parse_int_part_progress: "parse_int_part s = Some (x, t) \<Longrightarrow> length t < length s"
  by (auto simp: parse_int_part_def less_Suc_eq_le length_dropWhile_le split: list.splits if_splits)

lemma parse_frac_progress: "parse_frac s = Some (x, t) \<Longrightarrow> length t \<le> length s"
  by (auto simp: parse_frac_def le_Suc_eq length_dropWhile_le split: list.splits if_splits)

lemma parse_exp_progress: "parse_exp s = Some (x, t) \<Longrightarrow> length t \<le> length s"
proof -
  have "length (dropWhile is_digit xs) \<le> Suc (Suc (length xs))" for xs
    by (intro le_SucI) (rule length_dropWhile_le)
  then show "parse_exp s = Some (x, t) \<Longrightarrow> length t \<le> length s"
    by (auto simp: parse_exp_def Let_def split: list.splits if_splits)
qed

lemma parse_number_progress: "parse_number s = Some (x, t) \<Longrightarrow> length t < length s"
  by (auto simp: parse_number_def Let_def split: option.splits if_splits
      dest!: parse_int_part_progress parse_frac_progress parse_exp_progress) linarith

lemma skip_ws_length: "length (skip_ws s) \<le> length s"
  by (simp add: skip_ws_def length_dropWhile_le)

lemma parse_progress:
  "parse_value k d s = Some (v, t) \<Longrightarrow> length t < length s"
  "parse_elems k d s = Some (vs, t) \<Longrightarrow> length t < length s"
  "parse_members k d s = Some (ms, t) \<Longrightarrow> length t < length s"
  supply parse_value.simps [simp] parse_elems.simps [simp] parse_members.simps [simp]
proof (induction k d s and k d s and k d s arbitrary: v t and vs t and ms t
    rule: parse_value_parse_elems_parse_members.induct)
  case (2 k d s)
  obtain c cs where s: "skip_ws s = c # cs" using "2.prems" by (cases "skip_ws s") auto
  then have len: "length cs < length s" using skip_ws_length [of s] by simp
  consider (str) x where "parse_string cs = Some (x, t)" | (close) a where "expect a cs = Some t"
    | (elems) vs where "c \<noteq> dquote" "c = CHR ''[''" "\<not> maxNestingDepth \<le> d" "expect (CHR '']'') cs = None"
        "parse_elems k (Suc d) cs = Some (vs, t)"
    | (members) ms where "c \<noteq> dquote" "c \<noteq> CHR ''[''" "c = CHR ''{''" "\<not> maxNestingDepth \<le> d" "expect (CHR ''}'') cs = None"
        "parse_members k (Suc d) cs = Some (ms, t)"
    | (word) n where "t = drop (Suc n) (c # cs)" | (num) x where "parse_number (c # cs) = Some (x, t)"
    using "2.prems" s unfolding parse_value.simps
    by (auto split: if_splits option.splits)
  then show ?case
  proof cases
    case str
    with parse_string_progress len show ?thesis by fastforce
  next
    case close
    with expect_progress len show ?thesis by fastforce
  next
    case elems
    with "2.IH"(1) [OF s] len show ?thesis by fastforce
  next
    case members
    with "2.IH"(2) [OF s] len show ?thesis by fastforce
  next
    case word
    with len show ?thesis by simp
  next
    case num
    with parse_number_progress [of "c # cs"] len show ?thesis by fastforce
  qed
next
  case (4 k d s)
  obtain v t1 where v: "parse_value k d s = Some (v, t1)" "length t1 < length s"
    using "4.prems" "4.IH"(1) by (auto split: option.splits)
  show ?case
  proof (cases "expect (CHR '','') t1")
    case None
    with "4.prems" v show ?thesis by (auto dest!: expect_progress)
  next
    case (Some t2)
    then obtain vs' where "parse_elems k d t2 = Some (vs', t)" using "4.prems" v by auto
    from "4.IH"(2) [OF v(1) refl Some this] expect_progress [OF Some] v(2) show ?thesis by simp
  qed
next
  case (6 k d s)
  obtain key t1 where key: "Option.bind (expect dquote s) parse_string = Some (key, t1)"
    using "6.prems" by (auto split: option.splits)
  then have l1: "length t1 < length s"
    by (auto simp: bind_eq_Some_conv dest!: expect_progress parse_string_progress)
  obtain v t2 where v: "Option.bind (expect (CHR '':'') t1) (parse_value k d) = Some (v, t2)"
    using "6.prems" key by (auto split: option.splits)
  then obtain t3 where t3: "expect (CHR '':'') t1 = Some t3" "parse_value k d t3 = Some (v, t2)"
    by (auto simp: bind_eq_Some_conv)
  from "6.IH"(1) [OF key refl t3] expect_progress [OF t3(1)] l1 have l2: "length t2 < length s" by simp
  show ?case
  proof (cases "expect (CHR '','') t2")
    case None
    with "6.prems" key v l2 show ?thesis by (auto dest!: expect_progress)
  next
    case (Some t4)
    then obtain ms' where "parse_members k d t4 = Some (ms', t)" using "6.prems" key v by auto
    from "6.IH"(2) [OF key refl v refl Some this] expect_progress [OF Some] l2 show ?thesis by simp
  qed
qed simp_all

section \<open>Enough fuel\<close>

text \<open>A value of a text of length \<open>n\<close> takes at most \<open>2 n + 1\<close> nested calls.\<close>

lemma parse_fuel:
  "2 * length s + 1 \<le> k \<Longrightarrow> 2 * length s + 1 \<le> k' \<Longrightarrow> parse_value k d s = parse_value k' d s"
  "2 * length s + 2 \<le> k \<Longrightarrow> 2 * length s + 2 \<le> k' \<Longrightarrow> parse_elems k d s = parse_elems k' d s"
  "2 * length s + 2 \<le> k \<Longrightarrow> 2 * length s + 2 \<le> k' \<Longrightarrow> parse_members k d s = parse_members k' d s"
  supply parse_value.simps [simp] parse_elems.simps [simp] parse_members.simps [simp]
proof (induction k arbitrary: k' d s)
  case (Suc n)
  have "\<exists>m. k' = Suc m" if "0 < k'" for k' using that by (cases k') auto
  note suc = this
  {
    case 1
    then obtain m where m: "k' = Suc m" "2 * length s \<le> n" "2 * length s \<le> m" using suc [of k'] by auto
    show ?case
    proof (cases "skip_ws s")
      case (Cons c cs)
      then have "length cs < length s" using skip_ws_length [of s] by simp
      with m have "parse_elems n (Suc d) cs = parse_elems m (Suc d) cs" "parse_members n (Suc d) cs = parse_members m (Suc d) cs"
        by (auto intro: Suc.IH)
      with Cons m(1) show ?thesis by (simp split: option.split)
    qed (use m(1) in simp)
  next
    case 2
    then obtain m where m: "k' = Suc m" "2 * length s + 1 \<le> n" "2 * length s + 1 \<le> m" using suc [of k'] by auto
    have v: "parse_value n d s = parse_value m d s" using m by (intro Suc.IH) auto
    have "parse_elems n d t' = parse_elems m d t'"
      if "parse_value m d s = Some (w, t)" "expect (CHR '','') t = Some t'" for w t t'
      using parse_progress(1) [OF that(1)] expect_progress [OF that(2)] m by (intro Suc.IH) auto
    with v m(1) show ?case by (auto split: option.split prod.split)
  next
    case 3
    then obtain m where m: "k' = Suc m" "2 * length s + 1 \<le> n" "2 * length s + 1 \<le> m" using suc [of k'] by auto
    have key: "length t < length s" if "Option.bind (expect dquote s) parse_string = Some (x, t)" for x t
      using that by (auto simp: bind_eq_Some_conv dest!: expect_progress parse_string_progress)
    have v: "Option.bind (expect (CHR '':'') t) (parse_value n d) = Option.bind (expect (CHR '':'') t) (parse_value m d)"
      if "length t < length s" for t
    proof (cases "expect (CHR '':'') t")
      case (Some u)
      from expect_progress [OF this] that m have "parse_value n d u = parse_value m d u" by (intro Suc.IH) auto
      with Some show ?thesis by simp
    qed simp
    have "parse_members n d t' = parse_members m d t'"
      if l: "length t < length s" and b: "Option.bind (expect (CHR '':'') t) (parse_value m d) = Some (w, u)"
        and c: "expect (CHR '','') u = Some t'" for t w u t'
    proof -
      obtain x where "expect (CHR '':'') t = Some x" "parse_value m d x = Some (w, u)"
        using b by (auto simp: bind_eq_Some_conv)
      with expect_progress l c parse_progress(1) have "length t' < length s" by (meson less_trans)
      with m show ?thesis by (intro Suc.IH) auto
    qed
    with key v m(1) show ?case by (auto split: option.split prod.split)
  }
qed simp_all

section \<open>Properties\<close>

text \<open>The decoder of a configuration with an explicit amount of fuel.\<close>

definition unmarshal_config_fuel :: "nat \<Rightarrow> golib \<Rightarrow> SecretKeySelector decoder \<Rightarrow> solver_Config \<Rightarrow> string \<Rightarrow> string + solver_Config" where
  "unmarshal_config_fuel k lib dsks cur raw = (case parse_value k 0 raw of
     None \<Rightarrow> Inl (json_SyntaxText lib raw)
   | Some (v, t) \<Rightarrow> if skip_ws t = [] then dec_solver_Config lib dsks cur v else Inl (json_SyntaxText lib raw))"

text \<open>
  Decoding the issuer configuration terminates with its result for every input: any amount
  of fuel above twice the length of the text gives the decoder's answer, so no input is rejected
  because the parser stopped early.
\<close>

theorem config_decoding_terminates:
  assumes "2 * length raw < k"
  shows "unmarshal_config_fuel k lib dsks cur raw = json_Unmarshal lib (dec_solver_Config lib dsks) cur raw"
proof -
  have "parse_value k 0 raw = parse_value (2 * length raw + 2) 0 raw"
    using assms by (intro parse_fuel(1)) simp_all
  then show ?thesis
    by (simp add: unmarshal_config_fuel_def json_Unmarshal_def json_Parse_def split: option.split)
qed

theorem config_decoding_terminates_witness:
  "\<forall>lib dsks cur. unmarshal_config_fuel 100 lib dsks cur ''{\"credentials\": [}'' =
     json_Unmarshal lib (dec_solver_Config lib dsks) cur ''{\"credentials\": [}''"
  by (intro allI config_decoding_terminates) simp

end
