(* ===== verification/Concurrent_Effects.thy ===== *)
theory Concurrent_Effects
  imports End_To_End
begin

text \<open>
  Concurrent calls against the test server over the lossy network. Calls for different zones do
  not disturb each other: in any interleaving each of them has the effect it would have alone.
\<close>

section \<open>The effect of a thread so far\<close>

text \<open>\<open>R\<close> are the records before the calls, \<open>D\<close> those now, \<open>Z\<close> the zones.\<close>

fun thread_eff :: "network platform \<Rightarrow> (string \<rightharpoonup> int64) \<Rightarrow> dns \<Rightarrow> dns \<Rightarrow> network thread \<Rightarrow> bool" where
  "thread_eff pf Z R D (c, Storing j k) \<longleftrightarrow> Z (fst (wanted pf c)) = Some k \<and> D k = R k"
| "thread_eff pf Z R D (c, Acting j k) \<longleftrightarrow> Z (fst (wanted pf c)) = Some k \<and> D k = R k"
| "thread_eff pf Z R D (c, Replacing j k) \<longleftrightarrow>
     Z (fst (wanted pf c)) = Some k \<and> (D k = R k \<or> D k = snd (wanted pf c)) \<and> (\<exists>ch. c = CallPresent ch)"
| "thread_eff pf Z R D (c, Forgetting j e) \<longleftrightarrow>
     (\<forall>k. Z (fst (wanted pf c)) = Some k \<longrightarrow> D k = R k \<or> D k = snd (wanted pf c))"
| "thread_eff pf Z R D (c, Finished r) \<longleftrightarrow>
     (case Z (fst (wanted pf c)) of
        None \<Rightarrow> r = None \<longrightarrow> snd (wanted pf c) = None
      | Some k \<Rightarrow> D k = snd (wanted pf c) \<or> (D k = R k \<and> r \<noteq> None))"
| "thread_eff pf Z R D (c, p) \<longleftrightarrow> (\<forall>k. Z (fst (wanted pf c)) = Some k \<longrightarrow> D k = R k)"

text \<open>Only the record set of the thread's own zone matters.\<close>

lemma thread_eff_cong:
  assumes "thread_eff pf Z R D (c, p)" and "\<And>k. Z (fst (wanted pf c)) = Some k \<Longrightarrow> D' k = D k"
  shows "thread_eff pf Z R D' (c, p)"
  using assms by (cases p) (auto split: option.splits)

section \<open>One step\<close>

text \<open>The server accepts the token, has the zones \<open>Z\<close>, and differs from \<open>w\<close> at most in the record
  set of the zone \<open>apex\<close>.\<close>

definition server_ok :: "string \<Rightarrow> (string \<rightharpoonup> int64) \<Rightarrow> network world \<Rightarrow> bool" where
  "server_ok tok Z w \<longleftrightarrow> accepts tok (net_server (ext w)) \<and> map_of (mk_zones (net_server (ext w))) = Z"

definition only_zone :: "(string \<rightharpoonup> int64) \<Rightarrow> string \<Rightarrow> network world \<Rightarrow> network world \<Rightarrow> bool" where
  "only_zone Z apex w w' \<longleftrightarrow> (\<forall>k. Z apex \<noteq> Some k \<longrightarrow> dns_of w' k = dns_of w k)"

lemma same_server:
  "net_server (ext w') = net_server (ext w) \<Longrightarrow> server_ok tok Z w \<Longrightarrow>
     server_ok tok Z w' \<and> only_zone Z apex w w' \<and> dns_of w' = dns_of w"
  by (simp add: server_ok_def only_zone_def dns_of_def)

lemma LogAttrs_server [simp]:
  "server_ok tok Z (LogAttrs lg l m a w) = server_ok tok Z w" "dns_of (LogAttrs lg l m a w) = dns_of w"
  "only_zone Z apex v (LogAttrs lg l m a w) = only_zone Z apex v w"
  by (simp_all add: server_ok_def dns_of_def only_zone_def)

context net_client
begin

lemma state_is_server:
  assumes "state_is (net_server (ext w)) RS (net_server (ext w'))" and "server_ok tok Z w"
    and "RS \<subseteq> {D. \<forall>k. Z apex \<noteq> Some k \<longrightarrow> D k = dns_of w k}"
  shows "server_ok tok Z w'" and "only_zone Z apex w w'" and "dns_of w' \<in> RS"
  using assms by (auto simp: state_is_def server_ok_def only_zone_def dns_of_def)

lemma listing_step:
  assumes "jb_client j = as_HCloudClient lib c" and "server_ok tok Z w" and "fst (wanted pf call) = jb_apex j"
    and "thread_eff pf Z R (dns_of w) (call, Listing j)"
    and "thread_step pf call (Listing j) s w = (p', s', w')"
  shows "s' = s \<and> server_ok tok Z w' \<and> only_zone Z (jb_apex j) w w' \<and> thread_eff pf Z R (dns_of w') (call, p')"
proof -
  obtain rl w1 where l: "ListZones lib c (jb_ctx j) w = (rl, w1)" by force
  have acc: "accepts tok (net_server (ext w))" using assms(2) by (simp add: server_ok_def)
  note law = list_law [OF acc l]
  have same: "server_ok tok Z w1" "only_zone Z (jb_apex j) w w1" "dns_of w1 = dns_of w"
    using state_is_server [OF law(1) assms(2), of "jb_apex j"] by (simp_all add: dns_of_def)
  have st: "(case rl of Inl err \<Rightarrow> resolve_failed pf call j err s w1
      | Inr zones \<Rightarrow> (case find (\<lambda>z. zone_Name z = jb_apex j) zones of
           Some z \<Rightarrow> (Storing j (zone_ID z), s, w1)
         | None \<Rightarrow> resolve_failed pf call j (not_found_error (pf_uc pf) (jb_apex j)) s w1)) = (p', s', w')"
    using assms(1,5) l by (simp add: as_HCloudClient_def)
  have found: "map_option zone_ID (find (\<lambda>z. zone_Name z = jb_apex j) zs) = Z (jb_apex j)" if "rl = Inr zs" for zs
    using law(2) [OF that] assms(2) by (simp add: server_ok_def)
  show ?thesis
  proof (cases rl)
    case (Inl e)
    with law(3) [OF Inl] st same assms(3,4) show ?thesis
      by (auto simp: resolve_failed_def split: solver_call.splits option.splits)
  next
    case (Inr zs)
    show ?thesis
    proof (cases "find (\<lambda>z. zone_Name z = jb_apex j) zs")
      case None
      with found [OF Inr] have "Z (jb_apex j) = None" by simp
      with None Inr st same assms(3) show ?thesis
        by (auto simp: resolve_failed_def split: solver_call.splits if_splits)
    next
      case (Some z)
      with found [OF Inr] have "Z (jb_apex j) = Some (zone_ID z)" by simp
      with Some Inr st same assms(3,4) show ?thesis by auto
    qed
  qed
qed

lemma present_step:
  assumes "jb_client j = as_HCloudClient lib c" and "server_ok tok Z w" and "challenge_apex pf ch = jb_apex j"
    and "thread_eff pf Z R (dns_of w) (CallPresent ch, Acting j k)" and "writable (pf_uc pf) s ch (jb_apex j)"
    and "present_act pf ch j k s w = (p', s', w')"
  shows "s' = s \<and> server_ok tok Z w' \<and> only_zone Z (jb_apex j) w w' \<and> thread_eff pf Z R (dns_of w') (CallPresent ch, p')"
proof -
  let ?u = "pf_uc pf" and ?X = "challenge_records (pf_uc pf) ch"
  let ?name = "relativeRecordName ?u (ch_ResolvedFQDN ch) (jb_apex j)"
  let ?rq = "create_request ?u s ?name (ch_Key ch)"
  have X: "crq_Records ?rq = ?X" by (simp add: create_request_def challenge_records_def)
  have k: "Z (jb_apex j) = Some k" "dns_of w k = R k" using assms(3,4) by simp_all
  obtain rc w1 where c: "CreateRRSet lib c (jb_ctx j) k ?rq w = (rc, w1)" by force
  have acc: "accepts tok (net_server (ext w))" using assms(2) by (simp add: server_ok_def)
  note law = create_law [OF acc writable_request(1) [OF assms(5) refl] c refl, unfolded X]
  have same: "server_ok tok Z w1" "only_zone Z (jb_apex j) w w1" "dns_of w1 \<in> {dns_of w, (dns_of w)(k \<mapsto> ?X)}"
    using state_is_server [OF law(1) assms(2), of "jb_apex j"] k by (auto simp: dns_of_def)
  have ok: "dns_of w1 k = Some ?X" if "is_ok rc" using law(2) [OF that] by (simp add: dns_of_def)
  show ?thesis
  proof (cases rc)
    case (Inl e)
    with assms(1,6) c same k show ?thesis
      by (auto simp: present_act_def Let_def as_HCloudClient_def assms(3) split: if_splits)
  next
    case (Inr rr)
    with assms(1,6) c same k ok show ?thesis
      by (auto simp: present_act_def Let_def as_HCloudClient_def assms(3) split: if_splits)
  qed
qed

lemma cleanup_step:
  assumes "jb_client j = as_HCloudClient lib c" and "server_ok tok Z w" and "challenge_apex pf ch = jb_apex j"
    and "thread_eff pf Z R (dns_of w) (CallCleanUp ch, Acting j k)" and "cleanup_act pf ch j k s w = (p', s', w')"
  shows "s' = s \<and> server_ok tok Z w' \<and> only_zone Z (jb_apex j) w w' \<and> thread_eff pf Z R (dns_of w') (CallCleanUp ch, p')"
proof -
  let ?name = "relativeRecordName (pf_uc pf) (ch_ResolvedFQDN ch) (jb_apex j)"
  have k: "Z (jb_apex j) = Some k" "dns_of w k = R k" using assms(3,4) by simp_all
  obtain rd w1 where d: "DeleteRRSet lib c (jb_ctx j) k ?name defaultRRSetType w = (rd, w1)" by force
  have acc: "accepts tok (net_server (ext w))" using assms(2) by (simp add: server_ok_def)
  note law = delete_law [OF acc d refl]
  have same: "server_ok tok Z w1" "only_zone Z (jb_apex j) w w1" "dns_of w1 \<in> {dns_of w, (dns_of w)(k := None)}"
    using state_is_server [OF law(1) assms(2), of "jb_apex j"] k by (auto simp: dns_of_def)
  have gone: "dns_of w1 k = None" if "is_ok rd \<or> (\<exists>e. rd = Inl e \<and> errors_Is e ErrNotFound)"
    using law(2) [OF that] by (simp add: dns_of_def)
  show ?thesis
  proof (cases rd)
    case (Inl e)
    with assms(1,5) d same k gone show ?thesis
      by (auto simp: cleanup_act_def Let_def as_HCloudClient_def assms(3) split: if_splits)
  next
    case (Inr x)
    with assms(1,5) d same k gone show ?thesis
      by (auto simp: cleanup_act_def Let_def as_HCloudClient_def assms(3))
  qed
qed

lemma replacing_step:
  assumes "jb_client j = as_HCloudClient lib c" and "server_ok tok Z w" and "challenge_apex pf ch = jb_apex j"
    and "thread_eff pf Z R (dns_of w) (CallPresent ch, Replacing j k)" and "writable (pf_uc pf) s ch (jb_apex j)"
    and "thread_step pf (CallPresent ch) (Replacing j k) s w = (p', s', w')"
  shows "s' = s \<and> server_ok tok Z w' \<and> only_zone Z (jb_apex j) w w' \<and> thread_eff pf Z R (dns_of w') (CallPresent ch, p')"
proof -
  let ?u = "pf_uc pf" and ?X = "challenge_records (pf_uc pf) ch"
  let ?name = "relativeRecordName ?u (ch_ResolvedFQDN ch) (jb_apex j)"
  have k: "Z (jb_apex j) = Some k" "dns_of w k = R k \<or> dns_of w k = Some ?X" using assms(3,4) by simp_all
  obtain rs w1 where st: "SetRRSetRecords lib c (jb_ctx j) k ?name defaultRRSetType \<lparr>srq_Records = ?X\<rparr> w = (rs, w1)" by force
  have acc: "accepts tok (net_server (ext w))" using assms(2) by (simp add: server_ok_def)
  have "ascii_records (srq_Records \<lparr>srq_Records = ?X\<rparr>)" using writable_request(2) [OF assms(5) refl] by simp
  note law = set_law [OF acc this st refl]
  have same: "server_ok tok Z w1" "only_zone Z (jb_apex j) w w1" "dns_of w1 \<in> {dns_of w, (dns_of w)(k \<mapsto> ?X)}"
    using state_is_server [OF law(1) assms(2), of "jb_apex j"] k by (auto simp: dns_of_def)
  have ok: "dns_of w1 k = Some ?X" if "is_ok rs" using law(2) [OF that] by (simp add: dns_of_def)
  show ?thesis
    using assms(1,6) st same k ok
    by (cases rs) (auto simp: reconcileExisting_def Let_def as_HCloudClient_def assms(3) challenge_records_def)
qed

end

text \<open>The job of a thread in this deployment.\<close>

definition net_job :: "network platform \<Rightarrow> string \<Rightarrow> solver_call \<Rightarrow> network job \<Rightarrow> bool" where
  "net_job pf tok c j \<longleftrightarrow> routed pf (challenge_of c) (jb_cred j) (jb_ref j) (jb_apex j) \<and>
     (\<exists>lg. jb_client j = as_HCloudClient (pf_lib pf) (default_client (pf_http pf) (pf_pick pf) lg tok))"

definition phase_net :: "network platform \<Rightarrow> string \<Rightarrow> solver_call \<Rightarrow> network phase \<Rightarrow> bool" where
  "phase_net pf tok c p \<longleftrightarrow> (\<forall>j. phase_job p = Some j \<longrightarrow> net_job pf tok c j)"

lemma wanted_apex: "fst (wanted pf c) = challenge_apex pf (challenge_of c)"
  by (cases c) simp_all

lemma system_ok_server:
  "system_ok pf tok Z s w \<longleftrightarrow> solver_inv pf s w \<and> in_int64 (s_rrsetTTL s) \<and> coherent Z (s_zones s) \<and> server_ok tok Z w"
  by (simp add: system_ok_def server_ok_def)

definition stepped ::
  "network platform \<Rightarrow> string \<Rightarrow> (string \<rightharpoonup> int64) \<Rightarrow> dns \<Rightarrow> solver_call \<Rightarrow> network Solver \<Rightarrow> network world \<Rightarrow> network outcome \<Rightarrow> bool" where
  "stepped pf tok Z R c s w y \<longleftrightarrow> (case y of (p', s', w') \<Rightarrow>
     coherent Z (s_zones s') \<and> server_ok tok Z w' \<and> only_zone Z (fst (wanted pf c)) w w' \<and>
     thread_eff pf Z R (dns_of w') (c, p') \<and> s_rrsetTTL s' = s_rrsetTTL s \<and> phase_net pf tok c p')"

lemma starting_effects:
  assumes sys: "system_ok pf tok Z s w" and ch: "proper_challenge pf tok (challenge_of c)"
    and eff: "thread_eff pf Z R (dns_of w) (c, Starting)"
  shows "stepped pf tok Z R c s w (thread_step pf c Starting s w)"
proof -
  have prod: "production pf s" and coh: "coherent Z (s_zones s)" and srv: "server_ok tok Z w"
    using sys by (auto simp: system_ok_server solver_inv_def)
  obtain cr ref apex where r: "routed pf (challenge_of c) cr ref apex" and h: "hands_out pf tok ref"
    using ch by (auto simp: proper_challenge_def)
  obtain lg w1 where prep: "prepare pf s (contextFor s w) (challenge_of c) w = (Inr (cr, ref,
      as_HCloudClient (pf_lib pf) (default_client (pf_http pf) (pf_pick pf) lg tok), apex), w1)" and w1: "ext w1 = ext w"
    by (rule deployed_prepare [OF prod r h])
  have "net_job pf tok c \<lparr>jb_ctx = contextFor s w, jb_cred = cr, jb_ref = ref,
      jb_client = as_HCloudClient (pf_lib pf) (default_client (pf_http pf) (pf_pick pf) lg tok), jb_apex = apex\<rparr>"
    using r by (auto simp: net_job_def intro!: exI [of _ lg])
  with prep w1 coh eff same_server [of w1 w tok Z "fst (wanted pf c)"] srv show ?thesis
    by (auto simp: stepped_def phase_net_def)
qed

lemma acting_effects:
  assumes dep: "deployed pf order" and srv: "server_ok tok Z w" and coh: "coherent Z (s_zones s)"
    and cl: "jb_client j = as_HCloudClient (pf_lib pf) (default_client (pf_http pf) (pf_pick pf) lg tok)"
    and ap: "fst (wanted pf c) = jb_apex j" "challenge_apex pf (challenge_of c) = jb_apex j"
    and wr: "writable (pf_uc pf) s (challenge_of c) (jb_apex j)"
    and eff: "thread_eff pf Z R (dns_of w) (c, Acting j i)" and st: "thread_step pf c (Acting j i) s w = (p', s', w')"
    and net': "phase_net pf tok c p'"
  shows "stepped pf tok Z R c s w (p', s', w')"
proof (cases c)
  case (CallPresent ch')
  with st have act: "present_act pf ch' j i s w = (p', s', w')" by simp
  from net_client.present_step [OF deployed_client [OF dep] cl srv _ eff [unfolded CallPresent] _ act] ap wr coh net' CallPresent
  show ?thesis by (simp add: stepped_def)
next
  case (CallCleanUp ch')
  with st have act: "cleanup_act pf ch' j i s w = (p', s', w')" by simp
  from net_client.cleanup_step [OF deployed_client [OF dep] cl srv _ eff [unfolded CallCleanUp] act] ap coh net' CallCleanUp
  show ?thesis by (simp add: stepped_def)
qed

lemma working_effects:
  assumes dep: "deployed pf order" and sys: "system_ok pf tok Z s w" and asc: "ascii_challenge (challenge_of c)"
    and nj: "net_job pf tok c j" "phase_job p = Some j" and eff: "thread_eff pf Z R (dns_of w) (c, p)"
    and st: "thread_step pf c p s w = (p', s', w')" and net': "phase_net pf tok c p'"
  shows "stepped pf tok Z R c s w (p', s', w')"
proof -
  have ttl: "in_int64 (s_rrsetTTL s)" and coh: "coherent Z (s_zones s)" and srv: "server_ok tok Z w"
    using sys by (auto simp: system_ok_server)
  have same: "server_ok tok Z w \<and> only_zone Z a w w" for a using same_server [OF refl srv] by simp
  have rj: "routed pf (challenge_of c) (jb_cred j) (jb_ref j) (jb_apex j)" using nj(1) by (simp add: net_job_def)
  obtain lg where cl: "jb_client j = as_HCloudClient (pf_lib pf) (default_client (pf_http pf) (pf_pick pf) lg tok)"
    using nj(1) by (auto simp: net_job_def)
  note net = deployed_client [OF dep, of lg tok] and wr = ascii_writable [OF rj asc ttl]
  have ap: "fst (wanted pf c) = jb_apex j" "challenge_apex pf (challenge_of c) = jb_apex j"
    using challenge_apex_routed [OF rj] by (simp_all add: wanted_apex)
  show ?thesis
  proof (cases p)
    case (Looking k)
    obtain hit zc where l: "Lookup (SecretRef_String (jb_ref j)) (jb_apex j) w (s_zones s) = (hit, zc)" by force
    with coherent_Lookup [OF coh l] Looking nj(2) st same eff net' ap show ?thesis by (cases hit) (auto simp: stepped_def)
  next
    case (Listing k)
    then have p: "p = Listing j" using nj(2) by simp
    from net_client.listing_step [OF net cl srv ap(1) eff [unfolded p] st [unfolded p]] coh net' ap show ?thesis
      by (simp add: stepped_def)
  next
    case (Acting k i)
    then have p: "p = Acting j i" using nj(2) by simp
    show ?thesis by (rule acting_effects [OF dep srv coh cl ap wr eff [unfolded p] st [unfolded p] net'])
  next
    case (Replacing k i)
    then have p: "p = Replacing j i" using nj(2) by simp
    then obtain ch' where c: "c = CallPresent ch'" using eff by auto
    from net_client.replacing_step [OF net cl srv _ eff [unfolded p c] _ st [unfolded p c]] ap wr coh net' c
    show ?thesis by (simp add: stepped_def)
  qed (use nj(2) st eff coh same net' ap in
      \<open>auto simp: stepped_def intro: coherent_Store coherent_Invalidate split: option.splits\<close>)
qed

lemma step_effects:
  assumes dep: "deployed pf order" and sys: "system_ok pf tok Z s w" and ch: "proper_challenge pf tok (challenge_of c)"
    and job: "phase_net pf tok c p" and eff: "thread_eff pf Z R (dns_of w) (c, p)"
    and st: "thread_step pf c p s w = (p', s', w')"
  shows "coherent Z (s_zones s') \<and> server_ok tok Z w' \<and> only_zone Z (fst (wanted pf c)) w w' \<and>
    thread_eff pf Z R (dns_of w') (c, p') \<and> s_rrsetTTL s' = s_rrsetTTL s \<and> phase_net pf tok c p'"
proof (cases "p = Starting")
  case True
  from starting_effects [OF sys ch eff [unfolded True]] st [unfolded True] show ?thesis by (simp only: stepped_def prod.case)
next
  case False
  have net': "phase_net pf tok c p'" using thread_step_job [OF st False] job by (auto simp: phase_net_def)
  show ?thesis
  proof (cases "phase_job p")
    case None
    with False obtain x where "p = Finished x" by (cases p) auto
    with st eff net' sys same_server [of w w tok Z] show ?thesis by (auto simp: system_ok_server)
  next
    case (Some j)
    have "ascii_challenge (challenge_of c)" using ch by (simp add: proper_challenge_def)
    from working_effects [OF dep sys this _ Some eff st net'] job Some show ?thesis by (simp add: stepped_def phase_net_def)
  qed
qed

section \<open>Interleavings\<close>

text \<open>Between steps time passes and the network changes its mood; nobody else writes to the server.\<close>

definition quiet :: "network world \<Rightarrow> network world \<Rightarrow> bool" where
  "quiet w w' \<longleftrightarrow> now w \<le> now w' \<and> net_server (ext w') = net_server (ext w)"

definition apex_of :: "network platform \<Rightarrow> network thread \<Rightarrow> string" where
  "apex_of pf t = fst (wanted pf (fst t))"

definition threads_eff :: "network platform \<Rightarrow> string \<Rightarrow> (string \<rightharpoonup> int64) \<Rightarrow> dns \<Rightarrow> dns \<Rightarrow> network thread list \<Rightarrow> bool" where
  "threads_eff pf tok Z R D ts \<longleftrightarrow>
     (\<forall>t \<in> set ts. phase_net pf tok (fst t) (snd t) \<and> thread_eff pf Z R D t) \<and>
     (\<forall>k. (\<forall>t \<in> set ts. Z (apex_of pf t) \<noteq> Some k) \<longrightarrow> D k = R k)"

definition separate :: "network platform \<Rightarrow> string \<Rightarrow> network thread list \<Rightarrow> bool" where
  "separate pf tok ts \<longleftrightarrow> list_all (\<lambda>t. proper_challenge pf tok (challenge_of (fst t))) ts \<and> distinct (map (apex_of pf) ts)"

lemma separate_cong: "map fst ts = map fst ts' \<Longrightarrow> separate pf tok ts = separate pf tok ts'"
proof -
  assume m: "map fst ts = map fst ts'"
  have "map (apex_of pf) ts = map (apex_of pf) ts'"
    using arg_cong [OF m, of "map (\<lambda>c. fst (wanted pf c))"] unfolding apex_of_def by (simp add: o_def)
  moreover have "list_all (\<lambda>t. proper_challenge pf tok (challenge_of (fst t))) ts =
      list_all (\<lambda>t. proper_challenge pf tok (challenge_of (fst t))) ts'"
    using arg_cong [OF m, of "list_all (\<lambda>c. proper_challenge pf tok (challenge_of c))"] by (simp add: list.pred_map o_def)
  ultimately show ?thesis by (simp add: separate_def)
qed

lemma map_fst_update: "i < length ts \<Longrightarrow> ts ! i = (c, p) \<Longrightarrow> map fst (ts[i := (c, p')]) = map fst ts"
  by (simp add: map_update list_update_same_conv)

lemma threads_eff_step:
  assumes sep: "separate pf tok ts" and inj: "inj_on Z (dom Z)" and eff: "threads_eff pf tok Z R (dns_of w) ts"
    and i: "i < length ts" "ts ! i = (c, p)"
    and step: "only_zone Z (fst (wanted pf c)) w w'" "thread_eff pf Z R (dns_of w') (c, p')" "phase_net pf tok c p'"
  shows "threads_eff pf tok Z R (dns_of w') (ts[i := (c, p')])"
proof -
  have other: "phase_net pf tok (fst t) (snd t) \<and> thread_eff pf Z R (dns_of w') t"
    if "l < length ts" "l \<noteq> i" "t = ts ! l" for t l
  proof -
    have t: "t \<in> set ts" using that by simp
    have "apex_of pf t \<noteq> apex_of pf (ts ! i)"
      using sep that i(1) by (simp add: separate_def distinct_conv_nth)
    then have ne: "apex_of pf t \<noteq> fst (wanted pf c)" using i(2) by (simp add: apex_of_def)
    have keep: "dns_of w' k = dns_of w k" if "Z (fst (wanted pf (fst t))) = Some k" for k
    proof -
      have "Z (fst (wanted pf c)) \<noteq> Some k"
        using that ne inj by (force simp: inj_on_def dom_def apex_of_def)
      with step(1) show ?thesis by (simp add: only_zone_def)
    qed
    from eff t have "phase_net pf tok (fst t) (snd t)" "thread_eff pf Z R (dns_of w) (fst t, snd t)"
      by (simp_all add: threads_eff_def)
    with thread_eff_cong [of pf Z R "dns_of w" "fst t" "snd t" "dns_of w'"] keep show ?thesis by simp
  qed
  have all: "phase_net pf tok (fst t) (snd t) \<and> thread_eff pf Z R (dns_of w') t" if "t \<in> set (ts[i := (c, p')])" for t
  proof -
    from that obtain l where l: "l < length ts" "t = ts[i := (c, p')] ! l" by (metis in_set_conv_nth length_list_update)
    show ?thesis
    proof (cases "l = i")
      case True
      with l step(2,3) show ?thesis by simp
    next
      case False
      with l other show ?thesis by simp
    qed
  qed
  have "dns_of w' k = R k" if "\<forall>t \<in> set (ts[i := (c, p')]). Z (apex_of pf t) \<noteq> Some k" for k
  proof -
    have ci: "(c, p') \<in> set (ts[i := (c, p')])" using i(1) by (metis length_list_update nth_list_update_eq nth_mem)
    with that have nc: "Z (fst (wanted pf c)) \<noteq> Some k" by (force simp: apex_of_def)
    have "Z (apex_of pf t) \<noteq> Some k" if t: "t \<in> set ts" for t
    proof -
      obtain l where "l < length ts" "t = ts ! l" using t by (metis in_set_conv_nth)
      with \<open>\<forall>t \<in> set (ts[i := (c, p')]). Z (apex_of pf t) \<noteq> Some k\<close> nc i(2) show ?thesis
        by (cases "l = i") (auto simp: apex_of_def, metis length_list_update nth_list_update_neq nth_mem)
    qed
    with eff nc step(1) show ?thesis by (simp add: threads_eff_def only_zone_def)
  qed
  with all show ?thesis by (simp add: threads_eff_def)
qed

lemma separate_snoc:
  assumes "separate pf tok (ts @ [t])"
  shows "separate pf tok ts" and "t' \<in> set ts \<Longrightarrow> apex_of pf t' \<noteq> apex_of pf t"
  using assms by (auto simp: separate_def) (metis imageI)

lemma threads_eff_arrive:
  assumes "threads_eff pf tok Z R D ts" and "separate pf tok (ts @ [(c, Starting)])" and "inj_on Z (dom Z)"
  shows "threads_eff pf tok Z R D (ts @ [(c, Starting)])"
proof -
  have "D k = R k" if "Z (apex_of pf (c, Starting)) = Some k" for k
  proof -
    have "Z (apex_of pf t) \<noteq> Some k" if t: "t \<in> set ts" for t
      using separate_snoc(2) [OF assms(2) t] assms(3) \<open>Z (apex_of pf (c, Starting)) = Some k\<close>
      by (force simp: inj_on_def dom_def)
    with assms(1) show ?thesis by (simp add: threads_eff_def)
  qed
  with assms(1) show ?thesis by (auto simp: threads_eff_def phase_net_def apex_of_def)
qed

lemma quiet_now: "\<forall>v v'. quiet v v' \<longrightarrow> now v \<le> now v'"
  by (simp add: quiet_def)

lemma interleaved_effects:
  assumes "interleaved pf quiet s0 w0 ts s w" and "system_ok pf tok Z s0 w0" and "deployed pf order"
    and "inj_on Z (dom Z)" and "separate pf tok ts"
  shows "system_ok pf tok Z s w \<and> threads_eff pf tok Z (dns_of w0) (dns_of w) ts"
  using assms
proof (induction rule: interleaved.induct)
  case start
  then show ?case by (simp add: threads_eff_def)
next
  case (arrive ts s w c)
  with separate_snoc(1) [OF arrive.prems(4)] threads_eff_arrive [OF _ arrive.prems(4,3)] show ?case by simp
next
  case (step ts s w i c p p' s' w')
  have sep: "separate pf tok ts"
    using step.prems(4) separate_cong [OF map_fst_update [OF step.hyps(2,3), of p']] by simp
  with step.IH step.prems have ih: "system_ok pf tok Z s w" "threads_eff pf tok Z (dns_of w0) (dns_of w) ts" by simp_all
  have t: "(c, p) \<in> set ts" using step.hyps(2,3) by (metis nth_mem)
  have ch: "proper_challenge pf tok (challenge_of c)" using sep t by (force simp: separate_def list_all_iff)
  have now: "phase_net pf tok c p" "thread_eff pf Z (dns_of w0) (dns_of w) (c, p)"
    using ih(2) t by (force simp: threads_eff_def)+
  note eff = step_effects [OF step.prems(2) ih(1) ch now step.hyps(4)]
  have "solver_inv pf s0 w0" using step.prems(1) by (simp add: system_ok_server)
  from interleaved_inv [OF interleaved.step [OF step.hyps] this quiet_now] eff ih(1)
  have "system_ok pf tok Z s' w'" by (simp add: system_ok_server)
  moreover have "threads_eff pf tok Z (dns_of w0) (dns_of w') (ts[i := (c, p')])"
    using threads_eff_step [OF sep step.prems(3) ih(2) step.hyps(2,3)] eff by simp
  ultimately show ?case by simp
next
  case (outside ts s w w')
  then have ih: "system_ok pf tok Z s w" "threads_eff pf tok Z (dns_of w0) (dns_of w) ts" by simp_all
  have "solver_inv pf s0 w0" using outside.prems(1) by (simp add: system_ok_server)
  from interleaved_inv [OF interleaved.outside [where Outside = quiet, OF outside.hyps] this quiet_now]
    ih same_server [of w' w tok Z] outside.hyps(2) show ?case
    by (auto simp: system_ok_server quiet_def)
qed

lemma threads_eff_finished:
  assumes "threads_eff pf tok Z R D ts" and "(c, Finished r) \<in> set ts"
  shows "case Z (fst (wanted pf c)) of None \<Rightarrow> r = None \<longrightarrow> snd (wanted pf c) = None
    | Some k \<Rightarrow> D k = snd (wanted pf c) \<or> (D k = R k \<and> r \<noteq> None)"
  using assms by (force simp: threads_eff_def)

section \<open>A second sample challenge\<close>

text \<open>A challenge of another tenant, for another zone, and a server with both zones.\<close>

definition other_bytes :: string where
  "other_bytes = ''{\"credentials\":[{\"name\":\"b\",\"zones\":[\"example.org\"],'' @
     ''\"apiTokenSecretRef\":{\"name\":\"tok\"}}]}''"

definition other_cc :: CredentialConfig where
  "other_cc = sample_cc\<lparr>cc_Name := ''b'', cc_Zones := [''example.org'']\<rparr>"

definition other_conf :: routing_Config where
  "other_conf = \<lparr>Credentials = [\<lparr>cred_Name = ''b'', cred_Zones = [''example.org''],
     cred_APITokenSecretRef = ''ns/tok#token''\<rparr>]\<rparr>"

definition other_challenge :: ChallengeRequest where
  "other_challenge = \<lparr>ch_ResolvedFQDN = ''_acme-challenge.example.org.'', ch_Key = ''k2'',
     ch_ResourceNamespace = ''ns'', ch_Config = Some other_bytes\<rparr>"

lemma other_unmarshal:
  "json_Unmarshal sample_lib (dec_solver_Config sample_lib sample_dsks) \<lparr>cfg_Credentials = []\<rparr> other_bytes =
     Inr \<lparr>cfg_Credentials = [other_cc]\<rparr>"
  by code_simp

lemma other_parse:
  "parseConfig sample_lib sample_dsks (Some other_bytes) ''ns'' = Inr (other_conf, [''b'' \<mapsto> sample_ref])"
proof -
  have ref: "meant_ref ''ns'' other_cc = sample_ref"
    using sample_meant_ref by (simp add: meant_ref_def other_cc_def)
  have cred: "routing_cred ''ns'' other_cc = hd (Credentials other_conf)"
    by (simp add: routing_cred_def ref) (simp add: sample_ref_def other_cc_def other_conf_def SecretRef_String_def)
  have "config_ok u [hd (Credentials other_conf)]" for u
    by (simp add: other_conf_def go_defs)
  with parseConfig_single [OF other_unmarshal, of "''ns''"] show ?thesis
    by (simp add: cred ref ref_ok_def sample_ref_def other_bytes_def)
      (simp add: other_conf_def other_cc_def)
qed

lemma other_routed:
  "routed (sample_platform http) other_challenge (hd (Credentials other_conf)) sample_ref ''example.org''"
proof -
  have "Resolve sample_unicode (Some other_conf) ''_acme-challenge.example.org.'' =
      Inr (hd (Credentials other_conf), ''example.org'')"
    by code_simp
  then show ?thesis
    unfolding routed_def
    by (intro exI [of _ other_conf] exI [of _ "[''b'' \<mapsto> sample_ref]"])
      (simp add: sample_platform_def other_challenge_def other_parse sample_lib_def [THEN arg_cong, of lib_unicode]
        other_conf_def)
qed

lemma other_proper: "proper_challenge (sample_platform http) ''s3cret'' other_challenge"
  using other_routed sample_hands_out unfolding proper_challenge_def
  by (auto simp: ascii_challenge_def other_challenge_def)

definition two_zones_world :: "network world" where
  "two_zones_world = sample_net_world\<lparr>ext := (ext sample_net_world)
     \<lparr>net_server := newMockHCloudServer ''s3cret'' [(''example.com'', 7), (''example.org'', 8)]\<rparr>\<rparr>"

lemma two_zones_server:
  "net_server (ext two_zones_world) = newMockHCloudServer ''s3cret'' [(''example.com'', 7), (''example.org'', 8)]"
  by (simp add: two_zones_world_def)

section \<open>Properties\<close>

text \<open>
  Concurrent calls for different zones do not interfere. Take a freshly initialised solver, the
  test server behind a lossy network, and any number of calls for pairwise different zones, whose
  steps interleave in any order while time passes and the network misbehaves. At any moment, every
  call that has returned did its own work and no more: if it reported success, the record set of
  its zone is exactly what it asked for; if it reported an error, the record set is that or what it
  was before all the calls. The record sets of all other zones are as they were, and the server
  never saw an unexpected request.
\<close>

theorem concurrent_calls_do_not_interfere:
  assumes "deployed pf order"
    and "\<forall>opt \<in> set opts. solver_opt opt" and "Initialize pf (solver_New pf opts) (Some rc) = (None, s0)"
    and "in_int64 (s_rrsetTTL s0)" and "accepts tok (net_server (ext w0))"
    and "Z = map_of (mk_zones (net_server (ext w0)))" and "inj_on Z (dom Z)"
    and "interleaved pf quiet s0 w0 ts s w"
    and "list_all (\<lambda>t. proper_challenge pf tok (challenge_of (fst t))) ts"
    and "distinct (map (\<lambda>t. fst (wanted pf (fst t))) ts)"
  shows "(\<forall>c r. (c, Finished r) \<in> set ts \<longrightarrow>
      (case Z (fst (wanted pf c)) of
         None \<Rightarrow> r = None \<longrightarrow> snd (wanted pf c) = None
       | Some k \<Rightarrow> mock_recs (net_server (ext w)) k = snd (wanted pf c) \<or>
           (mock_recs (net_server (ext w)) k = mock_recs (net_server (ext w0)) k \<and> r \<noteq> None))) \<and>
    (\<forall>k. (\<forall>t \<in> set ts. Z (fst (wanted pf (fst t))) \<noteq> Some k) \<longrightarrow>
      mock_recs (net_server (ext w)) k = mock_recs (net_server (ext w0)) k) \<and>
    \<not> mk_failed (net_server (ext w))"
proof -
  have "system_ok pf tok Z s0 w0" using fresh_system_ok [OF assms(2-5)] assms(6) by simp
  moreover have "separate pf tok ts" using assms(9,10) unfolding separate_def apex_of_def by simp
  ultimately have run: "system_ok pf tok Z s w" "threads_eff pf tok Z (dns_of w0) (dns_of w) ts"
    using interleaved_effects [OF assms(8) _ assms(1,7)] by simp_all
  from run(1) have "\<not> mk_failed (net_server (ext w))" by (simp add: system_ok_server server_ok_def accepts_def)
  moreover have "\<forall>k. (\<forall>t \<in> set ts. Z (fst (wanted pf (fst t))) \<noteq> Some k) \<longrightarrow> dns_of w k = dns_of w0 k"
    using run(2) by (simp add: threads_eff_def apex_of_def)
  ultimately show ?thesis using threads_eff_finished [OF run(2)] unfolding dns_of_def by blast
qed

text \<open>A call for one zone runs from start to end between the first and the second step of a call for another.\<close>

theorem concurrent_calls_do_not_interfere_witness:
  "let pf = sample_platform sample_net_http;
       (p1, s1, w1) = thread_step pf (CallPresent sample_challenge) Starting (sample_solver sample_net_http) two_zones_world;
       (r, s2, w2) = run_call pf (CallPresent other_challenge) s1 w1;
       (p3, s3, w3) = run_thread 5 pf (CallPresent sample_challenge) (p1, s2, w2)
   in \<not> mk_failed (net_server (ext w3)) \<and>
     (mock_recs (net_server (ext w3)) 8 = Some (challenge_records sample_unicode other_challenge) \<or>
      (mock_recs (net_server (ext w3)) 8 = None \<and> r \<noteq> None))"
proof -
  let ?pf = "sample_platform sample_net_http" and ?s = "sample_solver sample_net_http" and ?w = two_zones_world
  let ?c = "CallPresent sample_challenge" and ?d = "CallPresent other_challenge"
  let ?Z = "map_of (mk_zones (net_server (ext ?w)))"
  obtain p1 s1 w1 where a: "thread_step ?pf ?c Starting ?s ?w = (p1, s1, w1)" by (cases "thread_step ?pf ?c Starting ?s ?w")
  obtain r s2 w2 where b: "run_call ?pf ?d s1 w1 = (r, s2, w2)" by (cases "run_call ?pf ?d s1 w1")
  obtain p3 s3 w3 where c: "run_thread 5 ?pf ?c (p1, s2, w2) = (p3, s3, w3)" by (cases "run_thread 5 ?pf ?c (p1, s2, w2)")
  have "interleaved ?pf quiet ?s ?w [(?c, Starting), (?d, Starting)] ?s ?w"
    using interleaved.arrive [OF interleaved.arrive [OF interleaved.start]] by simp
  from interleaved.step [OF this _ _ a, of 0] have "interleaved ?pf quiet ?s ?w [(?c, p1), (?d, Starting)] s1 w1" by simp
  from interleaved_run_thread [OF this, of 1, OF _ _ thread_alone [of ?pf ?d s1 w1, unfolded b prod.case]]
  have "interleaved ?pf quiet ?s ?w [(?c, p1), (?d, Finished r)] s2 w2" by simp
  from interleaved_run_thread [OF this, of 0, OF _ _ c]
  have run: "interleaved ?pf quiet ?s ?w [(?c, p3), (?d, Finished r)] s3 w3" by simp
  have acc: "accepts ''s3cret'' (net_server (ext ?w))"
    by (simp add: two_zones_server newMockHCloudServer_def accepts_def)
  have Z: "?Z = [''example.com'' \<mapsto> 7, ''example.org'' \<mapsto> 8]"
    by (simp add: two_zones_server newMockHCloudServer_def fun_eq_iff)
  then have inj: "inj_on ?Z (dom ?Z)" by (simp add: inj_on_def)
  have apex: "challenge_apex ?pf sample_challenge = ''example.com''" "challenge_apex ?pf other_challenge = ''example.org''"
    by (rule challenge_apex_routed [OF sample_routed], rule challenge_apex_routed [OF other_routed])
  have "mock_recs (net_server (ext ?w)) 8 = None"
    by (simp add: two_zones_server newMockHCloudServer_def mock_recs_def)
  moreover have "pf_uc ?pf = sample_unicode" by (simp add: sample_platform_def sample_lib_def)
  ultimately show ?thesis
    using concurrent_calls_do_not_interfere [OF sample_deployed _ sample_init sample_rrsetTTL acc refl inj run]
    unfolding Let_def a b c prod.case
    by (simp add: sample_proper other_proper apex Z)
qed

end
