(* ===== verification/Attempts.thy ===== *)
theory Attempts
  imports Concurrency
begin

text \<open>
  A call of the API client taken apart into the moments at which it gives up control: it sleeps
  before a retry, it sends a request, and it waits for the answer. The parts are those of \<open>do\<close>
  and \<open>doOnce\<close> in \<open>hcloud/client.go\<close> and of the code of \<open>Present\<close> and \<open>CleanUp\<close> that follows
  a call; put together again around a transport that answers at once they are the call.
\<close>

section \<open>One attempt in two halves\<close>

text \<open>\<open>doOnce\<close> up to \<open>httpClient.Do\<close>, and what it makes of the outcome of that.\<close>

definition start_once ::
  "golib \<Rightarrow> 'e Client \<Rightarrow> ctx \<Rightarrow> string \<Rightarrow> string \<Rightarrow> string option \<Rightarrow> 'e world \<Rightarrow> (http_request \<times> ctx) result \<times> 'e world" where
  "start_once lib c cx meth path body w =
     (case cl_token c cx w of
        (Inl err, w1) \<Rightarrow> (Inl (EWrap ''hcloud: read token: '' err []), w1)
      | (Inr token, w1) \<Rightarrow>
          (case url_ParseError lib (cl_baseURL c @ path) of
             Some e \<Rightarrow> (Inl (EWrap ''hcloud: build request: '' (EExt e) []), w1)
           | None \<Rightarrow>
               let req = make_request c meth path body token;
                   w2 = LogAttrs (cl_logger c) LevelDebug ''hcloud: request''
                          [AStr ''method'' meth, AStr ''url'' (cl_baseURL c @ path),
                           AStr ''authorization'' (''Bearer '' @ redactedToken)] w1
               in (Inr (req, WithTimeout cx (cl_requestTimeout c) (now w1)), emit (HttpSent req) w2)))"

definition finish_once ::
  "golib \<Rightarrow> 'e Client \<Rightarrow> string \<Rightarrow> string \<Rightarrow> 'a decoder option \<Rightarrow> 'a \<Rightarrow> string + http_response \<Rightarrow> 'e world
   \<Rightarrow> 'a result \<times> 'e world" where
  "finish_once lib c meth path out zero res w = (case res of
     Inl err \<Rightarrow>
       (Inl (EAPI \<lparr>StatusCode = 0, Code = ''transport_error'', Message = err, RetryAfter = 0\<rparr>),
        note_answer c (Inl err) (LogAttrs (cl_logger c) LevelWarn ''hcloud: transport error''
          [AStr ''method'' meth, AStr ''path'' path, AStr ''error'' err] w))
   | Inr resp \<Rightarrow>
       let (rawBody, _) = io_ReadAll resp;
           w1 = LogAttrs (cl_logger c) LevelDebug ''hcloud: response''
                  [AStr ''method'' meth, AStr ''path'' path, AInt ''status'' (rs_StatusCode resp)] w
       in (if 200 \<le> rs_StatusCode resp \<and> rs_StatusCode resp < 300 then
             (case out of
                None \<Rightarrow> Inr zero
              | Some decode \<Rightarrow>
                  if rawBody = [] then Inr zero
                  else (case json_Unmarshal lib decode zero (rawBody) of
                          Inl e \<Rightarrow> Inl (EWrap (''hcloud: decode '' @ meth @ '' '' @ path @ '': '') (EExt e) [])
                        | Inr v \<Rightarrow> Inr v))
           else Inl (EAPI (parseAPIError lib resp (rawBody) (clock_Now (cl_clock c) w1))),
           note_answer c (Inr resp) w1))"

lemma doOnce_halves:
  "doOnce lib c cx meth path body out zero w =
     (case start_once lib c cx meth path body w of
        (Inl err, w1) \<Rightarrow> (Inl err, w1)
      | (Inr (req, rx), w1) \<Rightarrow>
          (case call_out (cl_httpClient c rx req) w1 of (res, w2) \<Rightarrow> finish_once lib c meth path out zero res w2))"
proof -
  obtain rt w1 where t: "cl_token c cx w = (rt, w1)" by force
  show ?thesis
  proof (cases rt)
    case (Inr token)
    let ?rx = "WithTimeout cx (cl_requestTimeout c) (now w1)" and ?rq = "make_request c meth path body token"
    let ?w2 = "emit (HttpSent ?rq) (LogAttrs (cl_logger c) LevelDebug ''hcloud: request''
      [AStr ''method'' meth, AStr ''url'' (cl_baseURL c @ path), AStr ''authorization'' (''Bearer '' @ redactedToken)] w1)"
    obtain res w3 where o: "call_out (cl_httpClient c ?rx ?rq) ?w2 = (res, w3)" by force
    show ?thesis
    proof (cases "url_ParseError lib (cl_baseURL c @ path)")
      case None
      with t Inr o show ?thesis
        unfolding doOnce_def start_once_def finish_once_def Let_def
        by (cases res) (simp_all split: option.split sum.split)
    next
      case (Some e)
      with t Inr show ?thesis by (simp add: doOnce_def start_once_def)
    qed
  qed (simp add: t doOnce_def start_once_def)
qed

section \<open>The code after a call\<close>

text \<open>\<open>Present\<close> and \<open>CleanUp\<close> from the return of each API call to the next call or the end.\<close>

definition after_list :: "'e platform \<Rightarrow> solver_call \<Rightarrow> 'e job \<Rightarrow> Zone list result \<Rightarrow> 'e Solver \<Rightarrow> 'e world \<Rightarrow> 'e outcome" where
  "after_list pf c j r s w = (case r of
     Inl err \<Rightarrow> resolve_failed pf c j err s w
   | Inr zones \<Rightarrow>
       (case find (\<lambda>z. zone_Name z = jb_apex j) zones of
          Some z \<Rightarrow> (Storing j (zone_ID z), s, w)
        | None \<Rightarrow> resolve_failed pf c j (not_found_error (pf_uc pf) (jb_apex j)) s w))"

definition after_create :: "'e platform \<Rightarrow> ChallengeRequest \<Rightarrow> 'e job \<Rightarrow> int64 \<Rightarrow> RRSet result \<Rightarrow> 'e Solver \<Rightarrow> 'e world \<Rightarrow> 'e outcome" where
  "after_create pf ch j zoneID r s w = (case r of
     Inr rrset \<Rightarrow>
       (Finished None, s, LogAttrs (s_logger s) LevelInfo ''solver: presented challenge''
          [AStr ''credential'' (cred_Name (jb_cred j)), AStr ''zone'' (jb_apex j),
           AStr ''record_name'' (relativeRecordName (pf_uc pf) (ch_ResolvedFQDN ch) (jb_apex j)),
           AInt ''zone_id'' (sint zoneID), AStr ''rrset_id'' (rr_ID rrset)] w)
   | Inl err \<Rightarrow>
       if errors_Is err ErrConflict then (Replacing j zoneID, s, w)
       else
         let failure = wrapError (pf_uc pf) ''create RRSet'' (cred_Name (jb_cred j)) (jb_apex j) err in
         if errors_Is err ErrNotFound then (Forgetting j failure, s, w)
         else (Finished (Some failure), s, w))"

definition after_set :: "'e platform \<Rightarrow> ChallengeRequest \<Rightarrow> 'e job \<Rightarrow> int64 \<Rightarrow> Action result \<Rightarrow> 'e Solver \<Rightarrow> 'e world \<Rightarrow> 'e outcome" where
  "after_set pf ch j zoneID r s w = (case r of
     Inl err \<Rightarrow>
       (Finished (Some (wrapError (pf_uc pf) ''set existing RRSet records (conflict path)''
          (cred_Name (jb_cred j)) (jb_apex j) err)), s, w)
   | Inr _ \<Rightarrow>
       (Finished None, s, LogAttrs (s_logger s) LevelInfo ''solver: reconciled existing challenge RRSet''
          [AStr ''credential'' (cred_Name (jb_cred j)), AStr ''zone'' (jb_apex j),
           AStr ''record_name'' (relativeRecordName (pf_uc pf) (ch_ResolvedFQDN ch) (jb_apex j)),
           AInt ''zone_id'' (sint zoneID)] w))"

definition after_delete :: "'e platform \<Rightarrow> ChallengeRequest \<Rightarrow> 'e job \<Rightarrow> int64 \<Rightarrow> unit result \<Rightarrow> 'e Solver \<Rightarrow> 'e world \<Rightarrow> 'e outcome" where
  "after_delete pf ch j zoneID r s w =
     (let recordName = relativeRecordName (pf_uc pf) (ch_ResolvedFQDN ch) (jb_apex j) in
      case r of
        Inr _ \<Rightarrow>
          (Finished None, s, LogAttrs (s_logger s) LevelInfo ''solver: cleaned up challenge''
             [AStr ''credential'' (cred_Name (jb_cred j)), AStr ''zone'' (jb_apex j),
              AStr ''record_name'' recordName, AInt ''zone_id'' (sint zoneID)] w)
      | Inl err \<Rightarrow>
          if errors_Is err ErrNotFound then
            (Finished None, s, LogAttrs (s_logger s) LevelInfo ''solver: cleanup no-op (RRSet already gone)''
               [AStr ''credential'' (cred_Name (jb_cred j)), AStr ''zone'' (jb_apex j),
                AStr ''record_name'' recordName] w)
          else (Finished (Some (wrapError (pf_uc pf) ''delete RRSet'' (cred_Name (jb_cred j)) (jb_apex j) err)), s, w))"

lemmas after_defs = after_list_def after_create_def after_set_def after_delete_def

section \<open>Exchanges\<close>

text \<open>
  The request of the API call a thread makes in its phase; the body is encoded once, before the
  first attempt.
\<close>

fun phase_request :: "'e platform \<Rightarrow> solver_call \<Rightarrow> 'e Solver \<Rightarrow> 'e phase \<Rightarrow> (string \<times> string \<times> string option) option" where
  "phase_request pf c s (Listing j) = Some (''GET'', ''/v1/zones'', None)"
| "phase_request pf (CallPresent ch) s (Acting j i) =
     Some (''POST'', zone_path i, Some (json_print (marshal_CreateRRSetRequest
       (create_request (pf_uc pf) s (relativeRecordName (pf_uc pf) (ch_ResolvedFQDN ch) (jb_apex j)) (ch_Key ch)))))"
| "phase_request pf (CallCleanUp ch) s (Acting j i) =
     Some (''DELETE'', rrset_path i (relativeRecordName (pf_uc pf) (ch_ResolvedFQDN ch) (jb_apex j)) defaultRRSetType, None)"
| "phase_request pf c s (Replacing j i) =
     Some (''POST'',
       rrset_path i (relativeRecordName (pf_uc pf) (ch_ResolvedFQDN (challenge_of c)) (jb_apex j)) defaultRRSetType @
         ''/actions/set_records'',
       Some (json_print (marshal_SetRRSetRecordsRequest
         \<lparr>srq_Records = [\<lparr>rec_Value = quoteTXT (pf_uc pf) (ch_Key (challenge_of c)), rec_Comment = []\<rparr>]\<rparr>)))"
| "phase_request pf c s p = None"

record 'e exchange =
  ex_phase :: "'e phase"
  ex_ctx :: ctx
  ex_client :: "'e Client"
  ex_meth :: string
  ex_path :: string
  ex_body :: "string option"

definition exchange_of ::
  "'e platform \<Rightarrow> solver_call \<Rightarrow> 'e Solver \<Rightarrow> 'e phase \<Rightarrow> 'e Client \<Rightarrow> 'e exchange option" where
  "exchange_of pf c s p cl = (case (phase_request pf c s p, phase_job p) of
     (Some (meth, path, body), Some j) \<Rightarrow>
       Some \<lparr>ex_phase = p, ex_ctx = jb_ctx j, ex_client = cl, ex_meth = meth, ex_path = path, ex_body = body\<rparr>
   | _ \<Rightarrow> None)"

lemma exchange_of_Some:
  assumes "exchange_of pf c s p cl = Some x"
  shows "ex_phase x = p" and "ex_client x = cl" and "phase_request pf c s p = Some (ex_meth x, ex_path x, ex_body x)"
    and "phase_job p = Some j \<Longrightarrow> ex_ctx x = jb_ctx j"
  using assms by (auto simp: exchange_of_def split: option.splits prod.splits)

text \<open>
  A thread between API calls, at the head of the retry loop, asleep until an instant, ready to
  send, and waiting for the answer to the request with a number.
\<close>

datatype 'e aphase =
    Local "'e phase"
  | Trying "'e exchange" int "goerr option"
  | Asleep "'e exchange" int time
  | Ready "'e exchange" int
  | Waiting "'e exchange" int nat

definition local :: "'e outcome \<Rightarrow> 'e aphase \<times> 'e Solver \<times> 'e world" where
  "local x = (case x of (p, s, w) \<Rightarrow> (Local p, s, w))"

text \<open>The call fails with \<open>err\<close>, for good.\<close>

definition give_up :: "'e platform \<Rightarrow> solver_call \<Rightarrow> 'e exchange \<Rightarrow> goerr \<Rightarrow> 'e Solver \<Rightarrow> 'e world \<Rightarrow> 'e outcome" where
  "give_up pf c x err s w = (case ex_phase x of
     Listing j \<Rightarrow> after_list pf c j (Inl err) s w
   | Acting j i \<Rightarrow> (case c of
        CallPresent ch \<Rightarrow> after_create pf ch j i (Inl err) s w
      | CallCleanUp ch \<Rightarrow> after_delete pf ch j i (Inl err) s w)
   | Replacing j i \<Rightarrow> after_set pf (challenge_of c) j i (Inl err) s w
   | p \<Rightarrow> (p, s, w))"

text \<open>The loop after an attempt: a retryable error starts the next round.\<close>

definition settle ::
  "'e exchange \<Rightarrow> int \<Rightarrow> 'a result \<Rightarrow> ('a result \<Rightarrow> 'e Solver \<Rightarrow> 'e world \<Rightarrow> 'e outcome) \<Rightarrow> 'e Solver \<Rightarrow> 'e world
   \<Rightarrow> 'e aphase \<times> 'e Solver \<times> 'e world" where
  "settle x k r fin s w = (case r of
     Inr v \<Rightarrow> local (fin (Inr v) s w)
   | Inl err \<Rightarrow> if isRetryable err then (Trying x (k + 1) (Some err), s, w) else local (fin (Inl err) s w))"

text \<open>The thread receives the outcome of \<open>httpClient.Do\<close>.\<close>

definition receive ::
  "'e platform \<Rightarrow> solver_call \<Rightarrow> 'e exchange \<Rightarrow> int \<Rightarrow> string + http_response \<Rightarrow> 'e Solver \<Rightarrow> 'e world
   \<Rightarrow> 'e aphase \<times> 'e Solver \<times> 'e world" where
  "receive pf c x k res s w =
     (let lib = pf_lib pf; cl = ex_client x in
      case ex_phase x of
        Listing j \<Rightarrow>
          (case finish_once lib cl (ex_meth x) (ex_path x) (Some (dec_listZonesResponse lib)) zero_listZonesResponse res w of
             (r, w1) \<Rightarrow> settle x k r (\<lambda>r. after_list pf c j (map_sum id lz_Zones r)) s w1)
      | Acting j i \<Rightarrow> (case c of
           CallPresent ch \<Rightarrow>
             (case finish_once lib cl (ex_meth x) (ex_path x) (Some (dec_rrsetEnvelope lib)) zero_RRSet res w of
                (r, w1) \<Rightarrow> settle x k r (after_create pf ch j i) s w1)
         | CallCleanUp ch \<Rightarrow>
             (case finish_once lib cl (ex_meth x) (ex_path x) None () res w of
                (r, w1) \<Rightarrow> settle x k r (after_delete pf ch j i) s w1))
      | Replacing j i \<Rightarrow>
          (case finish_once lib cl (ex_meth x) (ex_path x) (Some (dec_actionEnvelope lib)) zero_Action res w of
             (r, w1) \<Rightarrow> settle x k r (after_set pf (challenge_of c) j i) s w1)
      | p \<Rightarrow> (Local p, s, w))"

definition send_failed ::
  "'e platform \<Rightarrow> solver_call \<Rightarrow> 'e exchange \<Rightarrow> int \<Rightarrow> goerr \<Rightarrow> 'e Solver \<Rightarrow> 'e world \<Rightarrow> 'e aphase \<times> 'e Solver \<times> 'e world" where
  "send_failed pf c x k err s w =
     (if isRetryable err then (Trying x (k + 1) (Some err), s, w) else local (give_up pf c x err s w))"

section \<open>The parts make up the call\<close>

text \<open>The loop, with a clock and a transport that return when they are done.\<close>

function sync_call ::
  "'e platform \<Rightarrow> solver_call \<Rightarrow> 'e exchange \<Rightarrow> int \<Rightarrow> goerr option \<Rightarrow> 'e Solver \<Rightarrow> 'e world \<Rightarrow> 'e outcome" where
  "sync_call pf c x k lastErr s w =
     (if k \<le> cl_maxRetries (ex_client x) then
        (case before_attempt (ex_client x) (ex_ctx x) (ex_meth x) (ex_path x) k lastErr w of
           (Some err, w1) \<Rightarrow> give_up pf c x err s w1
         | (None, w1) \<Rightarrow>
             (case (case start_once (pf_lib pf) (ex_client x) (ex_ctx x) (ex_meth x) (ex_path x) (ex_body x) w1 of
                      (Inl err, w2) \<Rightarrow> send_failed pf c x k err s w2
                    | (Inr (req, rx), w2) \<Rightarrow>
                        (case call_out (cl_httpClient (ex_client x) rx req) w2 of
                           (res, w3) \<Rightarrow> receive pf c x k res s w3)) of
                (Local p, s1, w4) \<Rightarrow> (p, s1, w4)
              | (Trying x1 k1 e1, s1, w4) \<Rightarrow> if k < k1 \<and> x1 = x then sync_call pf c x k1 e1 s1 w4 else (ex_phase x, s1, w4)
              | (_, s1, w4) \<Rightarrow> (ex_phase x, s1, w4)))
      else (case lastErr of Some err \<Rightarrow> give_up pf c x err s w | None \<Rightarrow> (ex_phase x, s, w)))"
  by pat_completeness auto
termination
  by (relation "measure (\<lambda>(pf, c, x, k, lastErr, s, w). nat (cl_maxRetries (ex_client x) + 1 - k))") auto

declare sync_call.simps [simp del]

lemma sync_loop:
  assumes rec: "\<And>k res s w. receive pf c x k res s w =
      (case finish_once (pf_lib pf) (ex_client x) (ex_meth x) (ex_path x) out zero res w of (r, w1) \<Rightarrow> settle x k r fin s w1)"
    and gu: "\<And>e s w. give_up pf c x e s w = fin (Inl e) s w"
    and "do_loop (pf_lib pf) (ex_client x) (ex_ctx x) (ex_meth x) (ex_path x) (ex_body x) out zero k lastErr w = (r, w')"
    and "k \<le> cl_maxRetries (ex_client x) \<or> lastErr \<noteq> None"
  shows "sync_call pf c x k lastErr s w = fin r s w'"
  using assms(3,4)
proof (induction "nat (cl_maxRetries (ex_client x) + 1 - k)" arbitrary: k lastErr w rule: less_induct)
  case less
  let ?cl = "ex_client x"
  show ?case
  proof (cases "k \<le> cl_maxRetries ?cl")
    case False
    with less.prems obtain e where "lastErr = Some e" "r = Inl e" "w' = w" by (auto simp: do_loop.simps)
    with False gu show ?thesis by (simp add: sync_call.simps)
  next
    case True
    obtain b w1 where b: "before_attempt ?cl (ex_ctx x) (ex_meth x) (ex_path x) k lastErr w = (b, w1)" by force
    obtain ro w2 where st: "start_once (pf_lib pf) ?cl (ex_ctx x) (ex_meth x) (ex_path x) (ex_body x) w1 = (ro, w2)" by force
    let ?round = "case start_once (pf_lib pf) ?cl (ex_ctx x) (ex_meth x) (ex_path x) (ex_body x) w1 of
        (Inl err, w2) \<Rightarrow> send_failed pf c x k err s w2
      | (Inr (req, rx), w2) \<Rightarrow>
          (case call_out (cl_httpClient ?cl rx req) w2 of (res, w3) \<Rightarrow> receive pf c x k res s w3)"
    obtain rd w4 where d: "doOnce (pf_lib pf) ?cl (ex_ctx x) (ex_meth x) (ex_path x) (ex_body x) out zero w1 = (rd, w4)" by force
    have round: "?round = settle x k rd fin s w4"
      using d by (auto simp: doOnce_halves st rec gu send_failed_def settle_def split: sum.splits prod.splits)
    show ?thesis
    proof (cases b)
      case (Some e)
      with less.prems(1) True b have "r = Inl e" "w' = w1" by (auto simp: do_loop.simps)
      with Some True b gu show ?thesis by (simp add: sync_call.simps)
    next
      case None
      show ?thesis
      proof (cases "\<exists>e. rd = Inl e \<and> isRetryable e")
        case Again: True
        then obtain e where e: "rd = Inl e" "isRetryable e" by auto
        with less.prems(1) True b None d
        have "do_loop (pf_lib pf) ?cl (ex_ctx x) (ex_meth x) (ex_path x) (ex_body x) out zero (k + 1) (Some e) w4 = (r, w')"
          by (simp add: do_loop.simps [of _ _ _ _ _ _ _ _ k])
        from less.hyps [OF _ this] True have "sync_call pf c x (k + 1) (Some e) s w4 = fin r s w'" by simp
        with True b None round e show ?thesis
          by (simp add: sync_call.simps [of _ _ _ k] settle_def)
      next
        case False
        with less.prems(1) True b None d have "r = rd" "w' = w4"
          by (auto simp: do_loop.simps [of _ _ _ _ _ _ _ _ k] split: sum.splits if_splits)
        with False True b None round show ?thesis
          by (cases rd; cases "fin rd s w4") (auto simp: sync_call.simps [of _ _ _ k] settle_def local_def)
      qed
    qed
  qed
qed

section \<open>A sample exchange\<close>

definition sample_job :: "'e transport \<Rightarrow> 'e world \<Rightarrow> 'e job" where
  "sample_job http w = \<lparr>jb_ctx = contextFor (sample_solver http) w, jb_cred = hd (Credentials sample_conf), jb_ref = sample_ref,
     jb_client = as_HCloudClient sample_lib (default_client http (\<lambda>_. True) slog_Default ''s3cret''), jb_apex = ''example.com''\<rparr>"

lemma sample_starting:
  "challenge_of c = sample_challenge \<Longrightarrow>
    thread_step (sample_platform http) c Starting (sample_solver http) w =
      (Looking (sample_job http w), sample_solver http, emit (SecretRead ''ns'' ''tok'') w)"
  by (simp add: sample_prepare sample_job_def)

lemma sample_looking:
  "thread_step (sample_platform http) c (Looking (sample_job http w)) (sample_solver http) v =
     (Listing (sample_job http w), sample_solver http, v)"
  by (simp add: Lookup_def sample_solver_def solver_New_def newZoneCache_def)

text \<open>The exchange that lists the zones, and its request.\<close>

definition sample_exchange :: "'e transport \<Rightarrow> 'e world \<Rightarrow> 'e exchange" where
  "sample_exchange http w = \<lparr>ex_phase = Listing (sample_job http w), ex_ctx = contextFor (sample_solver http) w,
     ex_client = default_client http (\<lambda>_. True) slog_Default ''s3cret'', ex_meth = ''GET'', ex_path = ''/v1/zones'', ex_body = None\<rparr>"

text \<open>The four API calls, attempt by attempt.\<close>

lemma sync_list:
  assumes "exchange_of pf c s (Listing j) cl = Some x" and "jb_client j = as_HCloudClient (pf_lib pf) cl" and "0 \<le> cl_maxRetries cl"
  shows "sync_call pf c x 0 None s w = thread_step pf c (Listing j) s w"
proof -
  note x = exchange_of_Some [OF assms(1)]
  obtain r w' where l: "do_loop (pf_lib pf) cl (jb_ctx j) ''GET'' ''/v1/zones'' None (Some (dec_listZonesResponse (pf_lib pf)))
      zero_listZonesResponse 0 None w = (r, w')" by force
  have "sync_call pf c x 0 None s w = after_list pf c j (map_sum id lz_Zones r) s w'"
    by (rule sync_loop [where fin = "\<lambda>r. after_list pf c j (map_sum id lz_Zones r)"])
      (use x l assms(3) in \<open>simp_all add: receive_def give_up_def Let_def\<close>)
  with l assms(2) show ?thesis
    by (cases r) (simp_all add: after_list_def as_HCloudClient_def ListZones_def client_do_def)
qed

lemma sync_create:
  assumes "exchange_of pf (CallPresent ch) s (Acting j i) cl = Some x" and "jb_client j = as_HCloudClient (pf_lib pf) cl" and "0 \<le> cl_maxRetries cl"
  shows "sync_call pf (CallPresent ch) x 0 None s w = thread_step pf (CallPresent ch) (Acting j i) s w"
proof -
  note x = exchange_of_Some [OF assms(1)]
  obtain r w' where l: "do_loop (pf_lib pf) cl (jb_ctx j) (ex_meth x) (ex_path x) (ex_body x)
      (Some (dec_rrsetEnvelope (pf_lib pf))) zero_RRSet 0 None w = (r, w')" by force
  have "sync_call pf (CallPresent ch) x 0 None s w = after_create pf ch j i r s w'"
    by (rule sync_loop) (use x l assms(3) in \<open>simp_all add: receive_def give_up_def Let_def\<close>)
  moreover have "hc_CreateRRSet (jb_client j) (jb_ctx j) i (create_request (pf_uc pf) s
      (relativeRecordName (pf_uc pf) (ch_ResolvedFQDN ch) (jb_apex j)) (ch_Key ch)) w = (r, w')"
    using l x(3) assms(2) by (simp add: as_HCloudClient_def CreateRRSet_def client_do_def)
  ultimately show ?thesis by (cases r) (simp_all add: after_create_def present_act_def Let_def)
qed

lemma sync_delete:
  assumes "exchange_of pf (CallCleanUp ch) s (Acting j i) cl = Some x" and "jb_client j = as_HCloudClient (pf_lib pf) cl" and "0 \<le> cl_maxRetries cl"
  shows "sync_call pf (CallCleanUp ch) x 0 None s w = thread_step pf (CallCleanUp ch) (Acting j i) s w"
proof -
  note x = exchange_of_Some [OF assms(1)]
  obtain r w' where l: "do_loop (pf_lib pf) cl (jb_ctx j) (ex_meth x) (ex_path x) (ex_body x) None () 0 None w = (r, w')"
    by force
  have "sync_call pf (CallCleanUp ch) x 0 None s w = after_delete pf ch j i r s w'"
    by (rule sync_loop) (use x l assms(3) in \<open>simp_all add: receive_def give_up_def Let_def\<close>)
  moreover have "hc_DeleteRRSet (jb_client j) (jb_ctx j) i
      (relativeRecordName (pf_uc pf) (ch_ResolvedFQDN ch) (jb_apex j)) defaultRRSetType w = (r, w')"
    using l x(3) assms(2) by (simp add: as_HCloudClient_def DeleteRRSet_def client_do_def)
  ultimately show ?thesis by (cases r) (simp_all add: after_delete_def cleanup_act_def Let_def)
qed

lemma sync_set:
  assumes "exchange_of pf c s (Replacing j i) cl = Some x" and "jb_client j = as_HCloudClient (pf_lib pf) cl" and "0 \<le> cl_maxRetries cl"
  shows "sync_call pf c x 0 None s w = thread_step pf c (Replacing j i) s w"
proof -
  note x = exchange_of_Some [OF assms(1)]
  obtain r w' where l: "do_loop (pf_lib pf) cl (jb_ctx j) (ex_meth x) (ex_path x) (ex_body x)
      (Some (dec_actionEnvelope (pf_lib pf))) zero_Action 0 None w = (r, w')" by force
  have "sync_call pf c x 0 None s w = after_set pf (challenge_of c) j i r s w'"
    by (rule sync_loop) (use x l assms(3) in \<open>simp_all add: receive_def give_up_def Let_def\<close>)
  moreover have "hc_SetRRSetRecords (jb_client j) (jb_ctx j) i
      (relativeRecordName (pf_uc pf) (ch_ResolvedFQDN (challenge_of c)) (jb_apex j)) defaultRRSetType
      \<lparr>srq_Records = [\<lparr>rec_Value = quoteTXT (pf_uc pf) (ch_Key (challenge_of c)), rec_Comment = []\<rparr>]\<rparr> w = (r, w')"
    using l x(3) assms(2) by (simp add: as_HCloudClient_def SetRRSetRecords_def client_do_def)
  ultimately show ?thesis by (cases r) (simp_all add: after_set_def reconcileExisting_def Let_def)
qed

section \<open>Properties\<close>

text \<open>
  A call of the API client is its parts. Take the exchange a thread of \<open>Present\<close> or \<open>CleanUp\<close>
  has with the service (listing the zones, creating, replacing or deleting the record set), run
  attempt by attempt through the halves of \<open>doOnce\<close>, the pauses of the retry loop, and the code
  after the call, with the client's own clock and transport: this is exactly the thread's step
  through the interface \<open>HCloudClient\<close>, with the same result, the same solver and the same world.
  So the finer steps of the asynchronous model are those of the code.
\<close>

theorem attempts_make_call:
  assumes "exchange_of pf c s p cl = Some x" and "phase_job p = Some j" and "jb_client j = as_HCloudClient (pf_lib pf) cl"
    and "0 \<le> cl_maxRetries cl"
  shows "sync_call pf c x 0 None s w = thread_step pf c p s w"
proof (cases p)
  case (Acting k i)
  with assms show ?thesis by (cases c) (simp_all add: sync_create sync_delete)
qed (use assms exchange_of_Some(3) [OF assms(1)] in \<open>simp_all add: sync_list sync_set\<close>)

theorem attempts_make_call_witness:
  "sync_call (sample_platform (answering 503)) (CallCleanUp sample_challenge) (sample_exchange (answering 503) sample_world) 0 None
     (sample_solver (answering 503)) sample_world =
   thread_step (sample_platform (answering 503)) (CallCleanUp sample_challenge) (Listing (sample_job (answering 503) sample_world))
     (sample_solver (answering 503)) sample_world"
proof (rule attempts_make_call)
  show "exchange_of (sample_platform (answering 503)) (CallCleanUp sample_challenge) (sample_solver (answering 503))
      (Listing (sample_job (answering 503) sample_world)) (default_client (answering 503) (\<lambda>_. True) slog_Default ''s3cret'') =
    Some (sample_exchange (answering 503) sample_world)"
    by (simp add: exchange_of_def sample_exchange_def sample_job_def)
  show "jb_client (sample_job (answering 503) sample_world) =
      as_HCloudClient (pf_lib (sample_platform (answering 503))) (default_client (answering 503) (\<lambda>_. True) slog_Default ''s3cret'')"
    by (simp add: sample_job_def sample_platform_def)
qed (simp_all add: default_client_def client_default_defs)

end
