(* ===== verification/Async.thy ===== *)
theory Async
  imports Attempts
begin

text \<open>
  Concurrent calls over an asynchronous network. Threads run the parts of \<open>Attempts\<close>: they
  sleep while others run, send requests, and wait. A request that was sent reaches the server
  at any later time, any number of times, also after its sender has given up; an answer reaches
  the sender at any later time; an attempt may fail at any moment with a transport error. Time
  passes between any two steps.
\<close>

section \<open>Messages\<close>

text \<open>A request on its way is marked with the call that sent it and the phase it was in.\<close>

record 'e envelope =
  ev_call :: solver_call
  ev_phase :: "'e phase"
  ev_request :: http_request

record 'e wire =
  wr_sent :: "'e envelope list"
  wr_answers :: "(nat \<times> http_response) list"

type_synonym 'e athread = "solver_call \<times> 'e aphase"

type_synonym 'e astate = "'e aphase \<times> 'e Solver \<times> 'e world"

section \<open>Steps of a thread\<close>

text \<open>
  The client behind the interface is one the factory makes, \<open>default_client\<close>. The timer of a
  sleep and its context are watched together, as in the \<open>select\<close> of \<open>realClock.Sleep\<close>.
\<close>

inductive async_step :: "'e platform \<Rightarrow> solver_call \<Rightarrow> 'e astate \<Rightarrow> 'e wire \<Rightarrow> 'e astate \<Rightarrow> 'e wire \<Rightarrow> bool"
  for pf c where
  local: "phase_request pf c s p = None \<Longrightarrow> thread_step pf c p s w = (p', s', w') \<Longrightarrow>
    async_step pf c (Local p, s, w) n (Local p', s', w') n"
| begin_call: "cl = default_client (pf_http pf) (pf_pick pf) lg tok \<Longrightarrow> exchange_of pf c s p cl = Some x \<Longrightarrow>
    phase_job p = Some j \<Longrightarrow> jb_client j = as_HCloudClient (pf_lib pf) cl \<Longrightarrow>
    async_step pf c (Local p, s, w) n (Trying x 0 None, s, w) n"
| first: "async_step pf c (Trying x 0 None, s, w) n (Ready x 0, s, w) n"
| backoff: "0 < k \<Longrightarrow> k \<le> cl_maxRetries (ex_client x) \<Longrightarrow> delay = backoffDelay (ex_client x) k lastErr \<Longrightarrow>
    async_step pf c (Trying x k lastErr, s, w) n
      (Asleep x k (now w + sint delay), s,
       emit (SleepFor delay) (LogAttrs (cl_logger (ex_client x)) LevelDebug ''hcloud: retrying request''
         [AStr ''method'' (ex_meth x), AStr ''path'' (ex_path x), AInt ''attempt'' k, ADur ''delay'' delay] w)) n"
| exhausted: "cl_maxRetries (ex_client x) < k \<Longrightarrow>
    async_step pf c (Trying x k (Some err), s, w) n (local (give_up pf c x err s w)) n"
| wake: "wake \<le> now w \<Longrightarrow> async_step pf c (Asleep x k wake, s, w) n (Ready x k, s, w) n"
| interrupted: "ctx_Err (ex_ctx x) (now w) = Some e \<Longrightarrow>
    async_step pf c (Asleep x k wake, s, w) n (local (give_up pf c x (ECtx e) s w)) n"
| send: "start_once (pf_lib pf) (ex_client x) (ex_ctx x) (ex_meth x) (ex_path x) (ex_body x) w = (Inr (rq, rx), w') \<Longrightarrow>
    async_step pf c (Ready x k, s, w) n (Waiting x k (length (wr_sent n)), s, w')
      (n\<lparr>wr_sent := wr_sent n @ [\<lparr>ev_call = c, ev_phase = ex_phase x, ev_request = rq\<rparr>]\<rparr>)"
| unsent: "start_once (pf_lib pf) (ex_client x) (ex_ctx x) (ex_meth x) (ex_path x) (ex_body x) w = (Inl err, w') \<Longrightarrow>
    async_step pf c (Ready x k, s, w) n (send_failed pf c x k err s w') n"
| answer: "(i, resp) \<in> set (wr_answers n) \<Longrightarrow>
    async_step pf c (Waiting x k i, s, w) n (receive pf c x k (Inr resp) s w) n"
| fail: "async_step pf c (Waiting x k i, s, w) n (receive pf c x k (Inl err) s w) n"

section \<open>Executions\<close>

text \<open>\<open>Serve\<close> is what the server does on a request: its answer, if any, and the world outside after it.\<close>

inductive async ::
  "'e platform \<Rightarrow> (http_request \<Rightarrow> 'e \<Rightarrow> http_response option \<Rightarrow> 'e \<Rightarrow> bool) \<Rightarrow> 'e Solver \<Rightarrow> 'e world \<Rightarrow>
   'e athread list \<Rightarrow> 'e Solver \<Rightarrow> 'e world \<Rightarrow> 'e wire \<Rightarrow> bool"
  for pf Serve s0 w0 where
  start: "async pf Serve s0 w0 [] s0 w0 \<lparr>wr_sent = [], wr_answers = []\<rparr>"
| arrive: "async pf Serve s0 w0 ts s w n \<Longrightarrow> async pf Serve s0 w0 (ts @ [(c, Local Starting)]) s w n"
| step: "async pf Serve s0 w0 ts s w n \<Longrightarrow> i < length ts \<Longrightarrow> ts ! i = (c, a) \<Longrightarrow>
    async_step pf c (a, s, w) n (a', s', w') n' \<Longrightarrow> async pf Serve s0 w0 (ts[i := (c, a')]) s' w' n'"
| serve: "async pf Serve s0 w0 ts s w n \<Longrightarrow> i < length (wr_sent n) \<Longrightarrow>
    Serve (ev_request (wr_sent n ! i)) (ext w) ro x \<Longrightarrow>
    async pf Serve s0 w0 ts s (w\<lparr>ext := x\<rparr>)
      (n\<lparr>wr_answers := wr_answers n @ (case ro of None \<Rightarrow> [] | Some resp \<Rightarrow> [(i, resp)])\<rparr>)"
| later: "async pf Serve s0 w0 ts s w n \<Longrightarrow> now w \<le> t \<Longrightarrow> async pf Serve s0 w0 ts s (w\<lparr>now := t\<rparr>) n"

text \<open>A local step, and an exchange whose first attempt is served and answered at once.\<close>

lemma async_local:
  assumes "async pf Serve s0 w0 ts s w n" and "i < length ts" and "ts ! i = (c, Local p)"
    and "phase_request pf c s p = None" and "thread_step pf c p s w = (p', s', w')"
  shows "async pf Serve s0 w0 (ts[i := (c, Local p')]) s' w' n"
  by (rule async.step [OF assms(1-3) async_step.local [OF assms(4,5)]])

lemma async_round:
  assumes run: "async pf Serve s0 w0 ts s w n" and i: "i < length ts" "ts ! i = (c, Local p)"
    and x: "exchange_of pf c s p (default_client (pf_http pf) (pf_pick pf) lg tok) = Some x" "phase_job p = Some j"
      "jb_client j = as_HCloudClient (pf_lib pf) (default_client (pf_http pf) (pf_pick pf) lg tok)"
    and send: "start_once (pf_lib pf) (ex_client x) (ex_ctx x) (ex_meth x) (ex_path x) (ex_body x) w = (Inr (rq, rx), w1)"
    and serve: "Serve rq (ext w1) (Some resp) y"
    and rcv: "receive pf c x 0 (Inr resp) s (w1\<lparr>ext := y\<rparr>) = (a', s', w')"
  shows "\<exists>n'. async pf Serve s0 w0 (ts[i := (c, a')]) s' w' n'"
proof -
  have go: "async pf Serve s0 w0 (ts[i := (c, b')]) s2 v' m'"
    if "async pf Serve s0 w0 (ts[i := (c, b)]) s1 v m" "async_step pf c (b, s1, v) m (b', s2, v') m'" for b s1 v m b' s2 v' m'
    using async.step [OF that(1), of i c b, OF _ _ that(2)] i(1) by simp
  have "async pf Serve s0 w0 (ts[i := (c, Local p)]) s w n" using run i by (metis list_update_id)
  from go [OF go [OF this async_step.begin_call [OF refl x]] async_step.first]
  have "async pf Serve s0 w0 (ts[i := (c, Ready x 0)]) s w n" .
  note sent = go [OF this async_step.send [OF send]]
  let ?l = "length (wr_sent n)" and ?E = "wr_sent n @ [\<lparr>ev_call = c, ev_phase = ex_phase x, ev_request = rq\<rparr>]"
  let ?m = "n\<lparr>wr_sent := ?E, wr_answers := wr_answers n @ [(?l, resp)]\<rparr>"
  have "async pf Serve s0 w0 (ts[i := (c, Waiting x 0 ?l)]) s (w1\<lparr>ext := y\<rparr>) ?m"
    using async.serve [OF sent, of ?l "Some resp" y] serve by simp
  moreover have "async_step pf c (Waiting x 0 ?l, s, w1\<lparr>ext := y\<rparr>) ?m (a', s', w') ?m"
    using async_step.answer [of ?l resp ?m pf c x 0 s "w1\<lparr>ext := y\<rparr>"] rcv by simp
  ultimately show ?thesis using go by blast
qed

section \<open>Frame\<close>

text \<open>What follows an API call changes neither the solver nor the outside.\<close>

definition frame :: "'e exchange \<Rightarrow> 'e Solver \<Rightarrow> 'e world \<Rightarrow> 'e astate \<Rightarrow> bool" where
  "frame x s w y \<longleftrightarrow> (case y of (a, s', w') \<Rightarrow> s' = s \<and> now w' = now w \<and> ext w' = ext w \<and>
     secrets_read (trace w') = secrets_read (trace w) \<and> http_sent (trace w') = http_sent (trace w) \<and>
     (case a of Local p \<Rightarrow> p = ex_phase x \<or> phase_job p = None \<or> phase_job p = phase_job (ex_phase x)
      | Trying x' k e \<Rightarrow> x' = x \<and> (\<exists>err. e = Some err \<and> isRetryable err) | _ \<Rightarrow> False))"

lemma frame_give_up: "frame x s w (local (give_up pf c x err s w))"
  by (auto simp: frame_def local_def give_up_def after_defs resolve_failed_def Let_def
      split: phase.split solver_call.split)

lemma finish_once_frame:
  assumes "finish_once lib cl meth path out zero res w = (r, w1)"
  shows "now w1 = now w" and "ext w1 = ext w" and "http_sent (trace w1) = http_sent (trace w)"
    and "secrets_read (trace w1) = secrets_read (trace w)"
  using assms unfolding finish_once_def Let_def by (cases res; force)+

lemma frame_after:
  assumes "phase_job (ex_phase x) = Some j"
  shows "frame x s w (local (after_list pf c j rl s w))" and "frame x s w (local (after_create pf ch j i rc s w))"
    and "frame x s w (local (after_set pf ch j i rs s w))" and "frame x s w (local (after_delete pf ch j i rd s w))"
  using assms
  by (auto simp: frame_def local_def after_defs resolve_failed_def Let_def
      split: sum.split option.split solver_call.split)

lemma frame_settle:
  assumes "\<And>r. frame x s w (local (fin r s w))"
  shows "frame x s w (settle x k r fin s w)"
  using assms by (cases r) (auto simp: settle_def frame_def)

lemma frame_back:
  assumes "frame x s w1 y" and "now w1 = now w" "ext w1 = ext w" "http_sent (trace w1) = http_sent (trace w)"
    "secrets_read (trace w1) = secrets_read (trace w)"
  shows "frame x s w y"
  using assms by (auto simp: frame_def)

lemma frame_finish:
  assumes "\<And>r w1. frame x s w1 (local (fin r s w1))"
  shows "frame x s w (case finish_once lib cl meth path out zero res w of (r, w1) \<Rightarrow> settle x k r fin s w1)"
proof -
  obtain r w1 where f: "finish_once lib cl meth path out zero res w = (r, w1)" by force
  show ?thesis
    unfolding f prod.case
    by (rule frame_back [OF _ finish_once_frame [OF f]], rule frame_settle, rule assms)
qed

lemma frame_receive: "frame x s w (receive pf c x k res s w)"
proof (cases "ex_phase x")
  case (Listing j)
  then show ?thesis by (simp add: receive_def Let_def) (rule frame_finish, simp add: frame_after)
next
  case (Acting j i)
  then show ?thesis by (cases c) (simp_all add: receive_def Let_def frame_finish frame_after)
next
  case (Replacing j i)
  then show ?thesis by (simp add: receive_def Let_def frame_finish frame_after)
qed (simp_all add: receive_def Let_def frame_def)

lemma frame_send_failed: "frame x s w (send_failed pf c x k err s w)"
  using frame_give_up [of x s w pf c err] by (simp add: send_failed_def frame_def)

section \<open>Whose request it is\<close>

text \<open>The token is visible in what a client does, so the interface determines it.\<close>

lemma client_token_unique:
  assumes "url_ParseError lib (DefaultBaseURL @ ''/v1/zones'') = None"
    and "as_HCloudClient lib (default_client http pick lg tok) = as_HCloudClient lib (default_client http pick lg' tok')"
  shows "tok = tok'"
proof -
  let ?c = "\<lambda>lg tok. default_client http pick lg tok" and ?w = "\<lparr>now = 0, trace = [], ext = undefined\<rparr>"
  have sent: "\<exists>n. http_sent (trace (snd (ListZones lib (?c l t) Background ?w))) =
      replicate (Suc n) (make_request (?c l t) ''GET'' ''/v1/zones'' None t)" for l t
  proof -
    obtain r w' where d: "do_loop lib (?c l t) Background ''GET'' ''/v1/zones'' None (Some (dec_listZonesResponse lib))
        zero_listZonesResponse 0 None ?w = (r, w')" by force
    have "cl_baseURL (?c l t) = DefaultBaseURL" "0 \<le> cl_maxRetries (?c l t)"
      by (simp_all add: default_client_def client_default_defs)
    with production.do_loop_outcome [OF _ d] assms(1) obtain n where
      "http_sent (trace w') = replicate n (make_request (?c l t) ''GET'' ''/v1/zones'' None t)" "1 \<le> n"
      by fastforce
    moreover from d have "snd (ListZones lib (?c l t) Background ?w) = w'"
      by (simp add: ListZones_def client_do_def split: sum.split)
    ultimately show ?thesis by (metis Suc_le_D One_nat_def)
  qed
  have "ListZones lib (?c lg tok) = ListZones lib (?c lg' tok')"
    using assms(2) by (simp add: as_HCloudClient_def)
  with sent [of lg tok] sent [of lg' tok'] have
    "make_request (?c lg tok) ''GET'' ''/v1/zones'' None tok = make_request (?c lg' tok') ''GET'' ''/v1/zones'' None tok'"
    by auto
  then show ?thesis by (simp add: make_request_def)
qed

definition ex_ok :: "'e platform \<Rightarrow> 'e moments \<Rightarrow> solver_call \<Rightarrow> 'e exchange \<Rightarrow> bool" where
  "ex_ok pf R c x \<longleftrightarrow> (\<exists>tok j. phase_job (ex_phase x) = Some j \<and> own_client pf R c tok j \<and> cl_token (ex_client x) = StaticToken tok)"

primrec aphase_ok :: "'e platform \<Rightarrow> 'e moments \<Rightarrow> solver_call \<Rightarrow> 'e aphase \<Rightarrow> bool" where
  "aphase_ok pf R c (Local p) \<longleftrightarrow> thread_ok pf R (c, p)"
| "aphase_ok pf R c (Trying x k e) \<longleftrightarrow> ex_ok pf R c x"
| "aphase_ok pf R c (Asleep x k t) \<longleftrightarrow> ex_ok pf R c x"
| "aphase_ok pf R c (Ready x k) \<longleftrightarrow> ex_ok pf R c x"
| "aphase_ok pf R c (Waiting x k i) \<longleftrightarrow> ex_ok pf R c x"

definition amoments_after :: "'e aphase \<Rightarrow> 'e Solver \<Rightarrow> 'e world \<Rightarrow> 'e moments \<Rightarrow> 'e moments" where
  "amoments_after a s w R = (case a of Local p \<Rightarrow> moments_after p s w R | _ \<Rightarrow> R)"

lemma amoments_after_simps [simp]:
  "amoments_after (Local p) s w R = moments_after p s w R" "amoments_after (Trying x k e) s w R = R"
  "amoments_after (Asleep x k t) s w R = R" "amoments_after (Ready x k) s w R = R" "amoments_after (Waiting x k i) s w R = R"
  by (simp_all add: amoments_after_def)

lemma amoments_after_subset: "R \<subseteq> amoments_after a s w R"
  by (cases a) (auto simp: moments_after_def)

lemma ex_ok_mono: "ex_ok pf R c x \<Longrightarrow> R \<subseteq> R' \<Longrightarrow> ex_ok pf R' c x"
  unfolding ex_ok_def using own_client_mono by blast

lemma aphase_ok_mono: "aphase_ok pf R c a \<Longrightarrow> R \<subseteq> R' \<Longrightarrow> aphase_ok pf R' c a"
  by (cases a) (auto intro: thread_ok_mono ex_ok_mono)

text \<open>The request carries the token its own thread read from the Secret of the credential owning the zone.\<close>

definition owned :: "'e platform \<Rightarrow> 'e moments \<Rightarrow> 'e envelope \<Rightarrow> bool" where
  "owned pf R ev \<longleftrightarrow> (\<exists>tok j. phase_job (ev_phase ev) = Some j \<and> own_client pf R (ev_call ev) tok j \<and> bearer tok (ev_request ev))"

definition own_secret :: "'e platform \<Rightarrow> solver_call \<Rightarrow> string \<times> string \<Rightarrow> bool" where
  "own_secret pf c sec \<longleftrightarrow> (\<exists>cr ref apex. routed pf (challenge_of c) cr ref apex \<and> sec = (sr_Namespace ref, sr_Name ref))"

text \<open>What one step of a thread does to the outside.\<close>

definition isolated_step :: "'e platform \<Rightarrow> 'e moments \<Rightarrow> solver_call \<Rightarrow> 'e world \<Rightarrow> 'e wire \<Rightarrow> 'e world \<Rightarrow> 'e wire \<Rightarrow> bool" where
  "isolated_step pf R c w n w' n' \<longleftrightarrow>
     (\<exists>L. secrets_read (trace w') = secrets_read (trace w) @ L \<and> list_all (own_secret pf c) L) \<and>
     (\<exists>E. wr_sent n' = wr_sent n @ E \<and> list_all (\<lambda>ev. ev_call ev = c \<and> owned pf R ev) E \<and>
        http_sent (trace w') = http_sent (trace w) @ map ev_request E) \<and> wr_answers n' = wr_answers n"

lemma isolated_stepI:
  "secrets_read (trace w') = secrets_read (trace w) \<Longrightarrow> http_sent (trace w') = http_sent (trace w) \<Longrightarrow> isolated_step pf R c w n w' n"
  by (simp add: isolated_step_def)

lemma owned_mono: "owned pf R ev \<Longrightarrow> R \<subseteq> R' \<Longrightarrow> owned pf R' ev"
  unfolding owned_def using own_client_mono by blast

lemma frame_ok:
  assumes "frame x s w (a', s', w')" and "ex_ok pf R c x" and "solver_inv pf s w"
  shows "solver_inv pf s' w'" and "aphase_ok pf R c a'" and "isolated_step pf R c w n w' n"
proof -
  show "solver_inv pf s' w'" using assms(1,3) by (simp add: frame_def solver_inv_def)
  show "isolated_step pf R c w n w' n" using assms(1) by (intro isolated_stepI) (simp_all add: frame_def)
  show "aphase_ok pf R c a'"
    using assms(1,2) by (cases a') (auto simp: frame_def ex_ok_def thread_ok_def)
qed

lemma local_isolated:
  assumes inv: "solver_inv pf s w" and ok: "thread_ok pf R (c, p)" and api: "phase_request pf c s p = None"
    and st: "thread_step pf c p s w = (p', s', w')"
  shows "solver_inv pf s' w' \<and> thread_ok pf (moments_after p s w R) (c, p') \<and> isolated_step pf R c w n w' n"
proof -
  note si = step_inv [OF inv ok st]
  have sent: "http_sent (trace w') = http_sent (trace w)"
  proof (cases "phase_job p")
    case None
    with si(3) show ?thesis by (simp add: isolated_def)
  next
    case (Some j)
    with api st show ?thesis by (cases p; cases c) (auto split: prod.splits option.splits)
  qed
  have "\<exists>L. secrets_read (trace w') = secrets_read (trace w) @ L \<and> list_all (own_secret pf c) L"
  proof (cases "secrets_read (trace w') = secrets_read (trace w)")
    case True
    then show ?thesis by simp
  next
    case False
    with si(3) obtain cr ref apex where "routed pf (challenge_of c) cr ref apex"
        "secrets_read (trace w') = secrets_read (trace w) @ [(sr_Namespace ref, sr_Name ref)]"
      by (auto simp: isolated_def split: option.splits)
    then show ?thesis unfolding own_secret_def by auto
  qed
  with si(1,2) sent show ?thesis by (simp add: isolated_step_def)
qed

lemma async_step_isolated:
  assumes url: "url_ParseError (pf_lib pf) (DefaultBaseURL @ ''/v1/zones'') = None"
    and st: "async_step pf c (a, s, w) n (a', s', w') n'" and inv: "solver_inv pf s w" and ok: "aphase_ok pf R c a"
  shows "solver_inv pf s' w' \<and> aphase_ok pf (amoments_after a s w R) c a' \<and> isolated_step pf R c w n w' n'"
  using st
proof cases
  case (local p p')
  with local_isolated [OF inv _ local(4,5)] ok show ?thesis by simp
next
  case (begin_call cl lg tok p x j)
  with ok obtain tok' where own: "own_client pf R c tok' j" by (auto simp: thread_ok_def)
  then obtain lg' where "jb_client j = as_HCloudClient (pf_lib pf) (default_client (pf_http pf) (pf_pick pf) lg' tok')"
    by (auto simp: own_client_def)
  with begin_call client_token_unique [OF url] have "tok' = tok" by metis
  with own begin_call have "ex_ok pf R c x"
    by (auto simp: ex_ok_def exchange_of_def default_client_def split: option.splits prod.splits)
  with begin_call inv show ?thesis by (auto simp: isolated_stepI moments_after_def)
next
  case (exhausted x k err)
  with frame_give_up [of x s w pf c err] have "frame x s w (a', s', w')" by simp
  from frame_ok [OF this] exhausted ok inv show ?thesis by simp
next
  case (interrupted x e k wake)
  with frame_give_up [of x s w pf c "ECtx e"] have "frame x s w (a', s', w')" by simp
  from frame_ok [OF this] interrupted ok inv show ?thesis by simp
next
  case (send x rq rx k)
  from ok send obtain tok j where x: "phase_job (ex_phase x) = Some j" "own_client pf R c tok j" "cl_token (ex_client x) = StaticToken tok"
    by (auto simp: ex_ok_def)
  from send x(3) have rq: "rq = make_request (ex_client x) (ex_meth x) (ex_path x) (ex_body x) tok"
      "http_sent (trace w') = http_sent (trace w) @ [rq]" "secrets_read (trace w') = secrets_read (trace w)" "now w' = now w"
    by (auto simp: start_once_def StaticToken_def Let_def split: option.splits)
  then have "owned pf R \<lparr>ev_call = c, ev_phase = ex_phase x, ev_request = rq\<rparr>" using x by (auto simp: owned_def)
  with send rq ok inv show ?thesis by (simp add: isolated_step_def solver_inv_def)
next
  case (unsent x err w1 k)
  then have "w1 = w" "ex_ok pf R c x"
    using ok by (auto simp: ex_ok_def start_once_def StaticToken_def Let_def split: option.splits)
  with unsent frame_send_failed [of x s w pf c k err] have "frame x s w (a', s', w')" by simp
  from frame_ok [OF this] unsent ok inv show ?thesis by simp
next
  case (answer i resp x k)
  with frame_receive [of x s w pf c k "Inr resp"] have "frame x s w (a', s', w')" by simp
  from frame_ok [OF this] answer ok inv show ?thesis by simp
next
  case (fail x k i err)
  with frame_receive [of x s w pf c k "Inl err"] have "frame x s w (a', s', w')" by simp
  from frame_ok [OF this] fail ok inv show ?thesis by simp
qed (use ok inv in \<open>auto simp: isolated_step_def solver_inv_def\<close>)

text \<open>No step leads back to the start of a call.\<close>

lemma give_up_not_Starting: "phase_job (ex_phase x) \<noteq> None \<Longrightarrow> fst (local (give_up pf c x err s w)) \<noteq> Local Starting"
  by (auto simp: local_def give_up_def after_defs resolve_failed_def Let_def split: phase.split solver_call.split)

lemma settle_not_Starting:
  "(\<And>r w. fst (local (fin r s w)) \<noteq> Local Starting) \<Longrightarrow> fst (settle x k r fin s w) \<noteq> Local Starting"
  by (cases r) (auto simp: settle_def)

lemma receive_not_Starting:
  assumes "phase_job (ex_phase x) \<noteq> None"
  shows "fst (receive pf c x k res s w) \<noteq> Local Starting"
proof -
  have "fst (local (after_list pf c j rl s w)) \<noteq> Local Starting" "fst (local (after_create pf ch j i rc s w)) \<noteq> Local Starting"
    "fst (local (after_set pf ch j i rs s w)) \<noteq> Local Starting" "fst (local (after_delete pf ch j i rd s w)) \<noteq> Local Starting"
    for j i ch rl rc rs rd w
    by (auto simp: local_def after_defs resolve_failed_def Let_def split: sum.split option.split solver_call.split)
  with assms show ?thesis
    by (auto simp: receive_def Let_def intro!: settle_not_Starting split: phase.split solver_call.split prod.split)
qed

lemma thread_step_not_Starting: "thread_step pf c p s w = (p', s', w') \<Longrightarrow> p' \<noteq> Starting"
  by (cases p) (auto simp: present_act_def cleanup_act_def resolve_failed_def Let_def
      split: prod.splits option.splits sum.splits solver_call.splits if_splits)

lemma async_step_not_Starting:
  assumes "async_step pf c (a, s, w) n (a', s', w') n'" and "aphase_ok pf R c a"
  shows "a' \<noteq> Local Starting"
  using assms(1)
proof cases
  case (local p p')
  with thread_step_not_Starting show ?thesis by blast
next
  case (exhausted x k err)
  with assms(2) give_up_not_Starting [of x pf c err s w] show ?thesis by (auto simp: ex_ok_def) (metis fst_conv)
next
  case (interrupted x e k wake)
  with assms(2) give_up_not_Starting [of x pf c "ECtx e" s w] show ?thesis by (auto simp: ex_ok_def) (metis fst_conv)
next
  case (unsent x err w1 k)
  with assms(2) give_up_not_Starting [of x pf c err s w1] show ?thesis
    by (auto simp: ex_ok_def send_failed_def split: if_splits) (metis fst_conv)
next
  case (answer i resp x k)
  with assms(2) receive_not_Starting [of x pf c k "Inr resp" s w] show ?thesis by (auto simp: ex_ok_def) (metis fst_conv)
next
  case (fail x k i err)
  with assms(2) receive_not_Starting [of x pf c k "Inl err" s w] show ?thesis by (auto simp: ex_ok_def) (metis fst_conv)
qed auto

section \<open>Executions with a history\<close>

text \<open>
  The same executions, with a record of what is needed to say whose token a request carries: at
  which moment each call, by its index, took its first step, in which it reads its Secret; and
  which call sent each of the requests.
\<close>

record 'e history =
  hs_reads :: "(nat \<times> 'e Solver \<times> 'e world) list"
  hs_senders :: "nat list"

definition noted :: "nat \<Rightarrow> 'e aphase \<Rightarrow> 'e Solver \<Rightarrow> 'e world \<Rightarrow> 'e wire \<Rightarrow> 'e wire \<Rightarrow> 'e history \<Rightarrow> 'e history" where
  "noted i a s w n n' h =
     \<lparr>hs_reads = hs_reads h @ (if a = Local Starting then [(i, s, w)] else []),
      hs_senders = hs_senders h @ replicate (length (wr_sent n') - length (wr_sent n)) i\<rparr>"

inductive async_logged ::
  "'e platform \<Rightarrow> (http_request \<Rightarrow> 'e \<Rightarrow> http_response option \<Rightarrow> 'e \<Rightarrow> bool) \<Rightarrow> 'e Solver \<Rightarrow> 'e world \<Rightarrow>
   'e athread list \<Rightarrow> 'e Solver \<Rightarrow> 'e world \<Rightarrow> 'e wire \<Rightarrow> 'e history \<Rightarrow> bool"
  for pf Serve s0 w0 where
  start: "async_logged pf Serve s0 w0 [] s0 w0 \<lparr>wr_sent = [], wr_answers = []\<rparr> \<lparr>hs_reads = [], hs_senders = []\<rparr>"
| arrive: "async_logged pf Serve s0 w0 ts s w n h \<Longrightarrow> async_logged pf Serve s0 w0 (ts @ [(c, Local Starting)]) s w n h"
| step: "async_logged pf Serve s0 w0 ts s w n h \<Longrightarrow> i < length ts \<Longrightarrow> ts ! i = (c, a) \<Longrightarrow>
    async_step pf c (a, s, w) n (a', s', w') n' \<Longrightarrow>
    async_logged pf Serve s0 w0 (ts[i := (c, a')]) s' w' n' (noted i a s w n n' h)"
| serve: "async_logged pf Serve s0 w0 ts s w n h \<Longrightarrow> i < length (wr_sent n) \<Longrightarrow>
    Serve (ev_request (wr_sent n ! i)) (ext w) ro x \<Longrightarrow>
    async_logged pf Serve s0 w0 ts s (w\<lparr>ext := x\<rparr>)
      (n\<lparr>wr_answers := wr_answers n @ (case ro of None \<Rightarrow> [] | Some resp \<Rightarrow> [(i, resp)])\<rparr>) h"
| later: "async_logged pf Serve s0 w0 ts s w n h \<Longrightarrow> now w \<le> t \<Longrightarrow> async_logged pf Serve s0 w0 ts s (w\<lparr>now := t\<rparr>) n h"

lemma async_has_log: "async pf Serve s0 w0 ts s w n \<Longrightarrow> \<exists>h. async_logged pf Serve s0 w0 ts s w n h"
  by (induction rule: async.induct) (blast intro: async_logged.intros)+

lemma async_logged_async: "async_logged pf Serve s0 w0 ts s w n h \<Longrightarrow> async pf Serve s0 w0 ts s w n"
  by (induction rule: async_logged.induct) (blast intro: async.intros)+

definition moments_of :: "'e history \<Rightarrow> nat \<Rightarrow> 'e moments" where
  "moments_of h i = {(s, w). (i, s, w) \<in> set (hs_reads h)}"

lemma moments_of_noted:
  "moments_of (noted i a s w n n' h) k = (if k = i then amoments_after a s w (moments_of h k) else moments_of h k)"
  by (cases a) (auto simp: moments_of_def noted_def moments_after_def)

text \<open>The invariant of an execution.\<close>

definition async_inv :: "'e platform \<Rightarrow> 'e world \<Rightarrow> 'e athread list \<Rightarrow> 'e Solver \<Rightarrow> 'e world \<Rightarrow> 'e wire \<Rightarrow> 'e history \<Rightarrow> bool" where
  "async_inv pf w0 ts s w n h \<longleftrightarrow> solver_inv pf s w \<and>
     (\<forall>i < length ts. aphase_ok pf (moments_of h i) (fst (ts ! i)) (snd (ts ! i))) \<and>
     (\<exists>L. secrets_read (trace w) = secrets_read (trace w0) @ L \<and> (\<forall>sec \<in> set L. \<exists>c \<in> fst ` set ts. own_secret pf c sec)) \<and>
     http_sent (trace w) = http_sent (trace w0) @ map ev_request (wr_sent n) \<and>
     length (hs_senders h) = length (wr_sent n) \<and>
     (\<forall>k < length (wr_sent n). hs_senders h ! k < length ts \<and> fst (ts ! (hs_senders h ! k)) = ev_call (wr_sent n ! k) \<and>
        owned pf (moments_of h (hs_senders h ! k)) (wr_sent n ! k)) \<and>
     distinct (map fst (hs_reads h)) \<and>
     (\<forall>i \<in> fst ` set (hs_reads h). i < length ts \<and> snd (ts ! i) \<noteq> Local Starting)"

lemma calls_update:
  assumes "i < length ts" and "ts ! i = (c, a)"
  shows "fst ` set (ts[i := (c, a')]) = fst ` set ts" and "c \<in> fst ` set ts"
proof -
  have "map fst (ts[i := (c, a')]) = map fst ts" using assms by (simp add: map_update list_update_same_conv)
  then show "fst ` set (ts[i := (c, a')]) = fst ` set ts" by (metis list.set_map)
  show "c \<in> fst ` set ts" using assms by (metis fst_conv image_eqI nth_mem)
qed

text \<open>The parts of the invariant after a step: the requests and their senders, and the moments.\<close>

lemma senders_step:
  assumes inv: "async_inv pf w0 ts s w n h" and i: "i < length ts" "ts ! i = (c, a)"
    and st: "isolated_step pf (moments_of h i) c w n w' n'"
  defines "h' \<equiv> noted i a s w n n' h"
  shows "length (hs_senders h') = length (wr_sent n') \<and> (\<forall>k < length (wr_sent n').
    hs_senders h' ! k < length ts \<and> fst (ts[i := (c, a')] ! (hs_senders h' ! k)) = ev_call (wr_sent n' ! k) \<and>
    owned pf (moments_of h' (hs_senders h' ! k)) (wr_sent n' ! k))"
proof -
  obtain E where E: "wr_sent n' = wr_sent n @ E" "list_all (\<lambda>ev. ev_call ev = c \<and> owned pf (moments_of h i) ev) E"
    using st unfolding isolated_step_def by blast
  have len: "length (hs_senders h) = length (wr_sent n)" using inv by (simp add: async_inv_def)
  have hs: "hs_senders h' = hs_senders h @ replicate (length E) i" by (simp add: h'_def noted_def E(1))
  have sub: "moments_of h k \<subseteq> moments_of h' k" for k
    by (simp add: h'_def moments_of_noted amoments_after_subset)
  have call: "fst (ts[i := (c, a')] ! k) = fst (ts ! k)" if "k < length ts" for k
    using i that by (auto simp: nth_list_update)
  have "hs_senders h' ! k < length ts \<and> fst (ts[i := (c, a')] ! (hs_senders h' ! k)) = ev_call (wr_sent n' ! k) \<and>
      owned pf (moments_of h' (hs_senders h' ! k)) (wr_sent n' ! k)" if k: "k < length (wr_sent n')" for k
  proof (cases "k < length (wr_sent n)")
    case True
    then have "hs_senders h ! k < length ts" "fst (ts ! (hs_senders h ! k)) = ev_call (wr_sent n ! k)"
        "owned pf (moments_of h (hs_senders h ! k)) (wr_sent n ! k)"
      using inv by (auto simp: async_inv_def)
    with True len owned_mono [OF _ sub] show ?thesis by (simp add: hs E(1) nth_append call)
  next
    case False
    then have l: "k - length (wr_sent n) < length E" using k E(1) by simp
    then have "ev_call (E ! (k - length (wr_sent n))) = c" "owned pf (moments_of h i) (E ! (k - length (wr_sent n)))"
      using E(2) by (simp_all add: list_all_length)
    with False l len i owned_mono [OF _ sub] show ?thesis by (simp add: hs E(1) nth_append)
  qed
  with len show ?thesis by (simp add: hs E(1))
qed

lemma reads_step:
  assumes inv: "async_inv pf w0 ts s w n h" and i: "i < length ts" "ts ! i = (c, a)" and a': "a' \<noteq> Local Starting"
    and h': "h' = noted i a s w n n' h"
  shows "distinct (map fst (hs_reads h')) \<and>
    (\<forall>k \<in> fst ` set (hs_reads h'). k < length ts \<and> snd (ts[i := (c, a')] ! k) \<noteq> Local Starting)"
proof -
  have old: "distinct (map fst (hs_reads h))" "\<And>k. k \<in> fst ` set (hs_reads h) \<Longrightarrow> k < length ts \<and> snd (ts ! k) \<noteq> Local Starting"
    using inv unfolding async_inv_def by blast+
  have "i \<notin> fst ` set (hs_reads h)" if "a = Local Starting" using old(2) [of i] i(2) that by auto
  then have "distinct (map fst (hs_reads h'))" using old(1) by (auto simp: h' noted_def)
  moreover have "k < length ts \<and> snd (ts[i := (c, a')] ! k) \<noteq> Local Starting" if "k \<in> fst ` set (hs_reads h')" for k
  proof (cases "k = i")
    case True
    with i(1) a' show ?thesis by simp
  next
    case False
    with that have "k \<in> fst ` set (hs_reads h)" by (auto simp: h' noted_def split: if_splits)
    with old(2) False show ?thesis by simp
  qed
  ultimately show ?thesis by blast
qed

lemma async_inv_step:
  assumes inv: "async_inv pf w0 ts s w n h" and i: "i < length ts" "ts ! i = (c, a)" and a': "a' \<noteq> Local Starting"
    and st: "solver_inv pf s' w'" "aphase_ok pf (amoments_after a s w (moments_of h i)) c a'"
      "isolated_step pf (moments_of h i) c w n w' n'"
  shows "async_inv pf w0 (ts[i := (c, a')]) s' w' n' (noted i a s w n n' h)"
proof -
  note cs = calls_update(1) [OF i, of a'] calls_update(2) [OF i]
  have "\<forall>k < length ts. aphase_ok pf (moments_of (noted i a s w n n' h) k) (fst (ts[i := (c, a')] ! k)) (snd (ts[i := (c, a')] ! k))"
    using inv st(2) i by (auto simp: async_inv_def nth_list_update moments_of_noted)
  moreover have "\<exists>L. secrets_read (trace w') = secrets_read (trace w0) @ L \<and> (\<forall>sec \<in> set L. \<exists>c \<in> fst ` set ts. own_secret pf c sec)"
  proof -
    obtain L L' where "secrets_read (trace w) = secrets_read (trace w0) @ L" "\<forall>sec \<in> set L. \<exists>c \<in> fst ` set ts. own_secret pf c sec"
        "secrets_read (trace w') = secrets_read (trace w) @ L'" "list_all (own_secret pf c) L'"
      using inv st(3) unfolding async_inv_def isolated_step_def by blast
    with cs(2) show ?thesis by (intro exI [of _ "L @ L'"]) (auto simp: list_all_iff)
  qed
  moreover have "http_sent (trace w') = http_sent (trace w0) @ map ev_request (wr_sent n')"
    using inv st(3) by (auto simp: async_inv_def isolated_step_def)
  ultimately show ?thesis
    using st(1) senders_step [OF inv i st(3), of a'] reads_step [OF inv i a' refl, of n']
    unfolding async_inv_def cs(1) length_list_update by blast
qed

lemma async_inv:
  assumes "async_logged pf Serve s0 w0 ts s w n h" and "solver_inv pf s0 w0"
    and "url_ParseError (pf_lib pf) (DefaultBaseURL @ ''/v1/zones'') = None"
  shows "async_inv pf w0 ts s w n h"
  using assms
proof (induction rule: async_logged.induct)
  case start
  then show ?case by (simp add: async_inv_def)
next
  case (arrive ts s w n h c)
  then have "async_inv pf w0 ts s w n h" by simp
  then show ?case by (fastforce simp: async_inv_def thread_ok_def nth_append less_Suc_eq)
next
  case (step ts s w n h i c a a' s' w' n')
  then have ih: "async_inv pf w0 ts s w n h" by simp
  then have ok: "solver_inv pf s w" "aphase_ok pf (moments_of h i) c a"
    using step.hyps(2,3) by (auto simp: async_inv_def)
  from async_step_isolated [OF step.prems(2) step.hyps(4) ok] async_inv_step [OF ih step.hyps(2,3)]
    async_step_not_Starting [OF step.hyps(4) ok(2)] show ?case by simp
next
  case (serve ts s w n h i ro x)
  then show ?case by (simp add: async_inv_def solver_inv_def)
next
  case (later ts s w n h t)
  then show ?case by (auto simp: async_inv_def solver_inv_def intro: cache_ok_mono)
qed

lemma async_ok:
  assumes "async pf Serve s0 w0 ts s w n" and "solver_inv pf s0 w0"
    and "url_ParseError (pf_lib pf) (DefaultBaseURL @ ''/v1/zones'') = None"
  shows "solver_inv pf s w" and "(c, a) \<in> set ts \<Longrightarrow> aphase_ok pf UNIV c a"
proof -
  obtain h where "async_logged pf Serve s0 w0 ts s w n h" using async_has_log [OF assms(1)] by blast
  from async_inv [OF this assms(2,3)] have inv: "async_inv pf w0 ts s w n h" .
  then show "solver_inv pf s w" by (simp add: async_inv_def)
  assume "(c, a) \<in> set ts"
  then obtain i where "i < length ts" "ts ! i = (c, a)" by (auto simp: in_set_conv_nth)
  with inv have "aphase_ok pf (moments_of h i) c a" by (auto simp: async_inv_def)
  then show "aphase_ok pf UNIV c a" by (rule aphase_ok_mono) simp
qed

section \<open>A sample execution\<close>

abbreviation sample_list_request :: http_request where
  "sample_list_request \<equiv> make_request (default_client (answering 0) (\<lambda>_. True) slog_Default ''s3cret'') ''GET'' ''/v1/zones'' None ''s3cret''"

lemma sample_start_once:
  "start_once sample_lib (default_client http (\<lambda>_. True) slog_Default ''s3cret'') cx ''GET'' ''/v1/zones'' None w =
     (Inr (sample_list_request, WithTimeout cx defaultRequestTimeout (now w)), emit (HttpSent sample_list_request) w)"
proof -
  have "LogAttrs slog_Default LevelDebug m at w = w" for m at
    by (simp add: LogAttrs_def slog_Default_def less_eq_level_def)
  moreover have "cl_logger (default_client http (\<lambda>_. True) slog_Default ''s3cret'') = slog_Default"
    by (simp add: default_client_def)
  moreover have "make_request (default_client http (\<lambda>_. True) slog_Default ''s3cret'') ''GET'' ''/v1/zones'' None ''s3cret'' = sample_list_request"
    by (simp add: make_request_def default_client_def)
  ultimately show ?thesis
    by (simp add: start_once_def Let_def) (simp add: default_client_def StaticToken_def Let_def)
qed

text \<open>A call that has just sent its first request, while another one has arrived.\<close>

lemma sample_async:
  assumes "challenge_of c = sample_challenge"
  shows "async (sample_platform http) Serve (sample_solver http) w
    [(c, Waiting (sample_exchange http w) 0 0), (d, Local Starting)] (sample_solver http)
    (emit (HttpSent sample_list_request) (emit (SecretRead ''ns'' ''tok'') w))
    \<lparr>wr_sent = [\<lparr>ev_call = c, ev_phase = Listing (sample_job http w), ev_request = sample_list_request\<rparr>], wr_answers = []\<rparr>"
proof -
  let ?pf = "sample_platform http" and ?s = "sample_solver http" and ?w1 = "emit (SecretRead ''ns'' ''tok'') w"
  let ?n = "\<lparr>wr_sent = [], wr_answers = []\<rparr>" and ?x = "sample_exchange http w"
  let ?run = "\<lambda>a v. async ?pf Serve ?s w [(c, a), (d, Local Starting)] ?s v"
  have lib: "pf_lib ?pf = sample_lib" "pf_http ?pf = http" "pf_pick ?pf = (\<lambda>_. True)" by (simp_all add: sample_platform_def)
  have go: "?run a' v' n'" if "?run a v n" "async_step ?pf c (a, ?s, v) n (a', ?s, v') n'" for a v n a' v' n'
    using async.step [OF that(1), of 0 c a, OF _ _ that(2)] by simp
  have "?run (Local Starting) w ?n" using async.arrive [OF async.arrive [OF async.start]] by simp
  from go [OF this async_step.local [OF _ sample_starting [OF assms]]]
  have "?run (Local (Looking (sample_job http w))) ?w1 ?n" by simp
  from go [OF this async_step.local [OF _ sample_looking]]
  have "?run (Local (Listing (sample_job http w))) ?w1 ?n" by simp
  from go [OF this async_step.begin_call [of _ _ slog_Default "''s3cret''" _ _ _ ?x "sample_job http w", OF refl]]
  have "?run (Trying ?x 0 None) ?w1 ?n"
    by (simp add: exchange_of_def sample_exchange_def sample_job_def lib)
  from go [OF this async_step.first] have "?run (Ready ?x 0) ?w1 ?n" .
  from go [OF this async_step.send [of _ ?x]] show ?thesis
    by (simp add: sample_exchange_def lib sample_start_once)
qed

section \<open>Properties\<close>

text \<open>
  C4: tenants stay isolated over an asynchronous network. Take any execution of any number of
  concurrent calls on one solver, whatever the server answers, however requests and answers are
  delayed, repeated or lost, and wherever the threads are in their retry loops. It has a history,
  in which each call has at most one moment of reading its Secret; and for every history of it:
  every Secret that was read is that of the credential owning the challenge of one of the calls;
  and every request that was ever sent was sent by one of the calls and carries the token that the
  reading of this same call, at its own moment, returned for the Secret of the credential owning
  its zone, never a token of another call or an earlier one.
\<close>

theorem async_isolation:
  assumes "lifecycle pf s0 w0" and "url_ParseError (pf_lib pf) (DefaultBaseURL @ ''/v1/zones'') = None"
    and "async pf Serve s0 w0 ts s w n"
  shows "(\<exists>h. async_logged pf Serve s0 w0 ts s w n h) \<and>
    (\<forall>h. async_logged pf Serve s0 w0 ts s w n h \<longrightarrow>
      distinct (map fst (hs_reads h)) \<and>
      (\<exists>L. secrets_read (trace w) = secrets_read (trace w0) @ L \<and>
         (\<forall>(ns, name) \<in> set L. \<exists>c \<in> fst ` set ts. \<exists>cr ref apex.
            routed pf (challenge_of c) cr ref apex \<and> ns = sr_Namespace ref \<and> name = sr_Name ref)) \<and>
      http_sent (trace w) = http_sent (trace w0) @ map ev_request (wr_sent n) \<and>
      length (hs_senders h) = length (wr_sent n) \<and>
      (\<forall>k < length (wr_sent n). \<exists>i s1 w1 cr ref apex tok w2. i = hs_senders h ! k \<and> i < length ts \<and>
         (i, s1, w1) \<in> set (hs_reads h) \<and> routed pf (challenge_of (fst (ts ! i))) cr ref apex \<and>
         the (s_secrets s1) (contextFor s1 w1) ref w1 = (Inr tok, w2) \<and> bearer tok (ev_request (wr_sent n ! k))))"
proof (intro conjI allI impI)
  show "\<exists>h. async_logged pf Serve s0 w0 ts s w n h" by (rule async_has_log [OF assms(3)])
  fix h assume h: "async_logged pf Serve s0 w0 ts s w n h"
  have inv: "async_inv pf w0 ts s w n h" by (rule async_inv [OF h lifecycle_inv [OF assms(1)] assms(2)])
  then show "distinct (map fst (hs_reads h))" "http_sent (trace w) = http_sent (trace w0) @ map ev_request (wr_sent n)"
      "length (hs_senders h) = length (wr_sent n)"
    unfolding async_inv_def by blast+
  show "\<exists>L. secrets_read (trace w) = secrets_read (trace w0) @ L \<and>
      (\<forall>(ns, name) \<in> set L. \<exists>c \<in> fst ` set ts. \<exists>cr ref apex.
         routed pf (challenge_of c) cr ref apex \<and> ns = sr_Namespace ref \<and> name = sr_Name ref)"
  proof -
    obtain L where L: "secrets_read (trace w) = secrets_read (trace w0) @ L" "\<forall>sec \<in> set L. \<exists>c \<in> fst ` set ts. own_secret pf c sec"
      using inv unfolding async_inv_def by blast
    have "\<forall>(ns, name) \<in> set L. \<exists>c \<in> fst ` set ts. \<exists>cr ref apex.
        routed pf (challenge_of c) cr ref apex \<and> ns = sr_Namespace ref \<and> name = sr_Name ref"
      using L(2) by (fastforce simp: own_secret_def)
    with L(1) show ?thesis by blast
  qed
  fix k assume "k < length (wr_sent n)"
  with inv have s: "hs_senders h ! k < length ts" "fst (ts ! (hs_senders h ! k)) = ev_call (wr_sent n ! k)"
      "owned pf (moments_of h (hs_senders h ! k)) (wr_sent n ! k)"
    by (auto simp: async_inv_def)
  from s(3) obtain tok cr ref apex s1 w1 w2 where "routed pf (challenge_of (ev_call (wr_sent n ! k))) cr ref apex"
      "(hs_senders h ! k, s1, w1) \<in> set (hs_reads h)" "the (s_secrets s1) (contextFor s1 w1) ref w1 = (Inr tok, w2)"
      "bearer tok (ev_request (wr_sent n ! k))"
    unfolding owned_def own_client_def moments_of_def by blast
  with s(1,2) show "\<exists>i s1 w1 cr ref apex tok w2. i = hs_senders h ! k \<and> i < length ts \<and>
      (i, s1, w1) \<in> set (hs_reads h) \<and> routed pf (challenge_of (fst (ts ! i))) cr ref apex \<and>
      the (s_secrets s1) (contextFor s1 w1) ref w1 = (Inr tok, w2) \<and> bearer tok (ev_request (wr_sent n ! k))"
    by metis
qed

theorem async_isolation_witness:
  "\<exists>ts s w n h. async_logged (sample_platform (answering 503)) (\<lambda>rq x ro y. True) (sample_solver (answering 503)) sample_world ts s w n h \<and>
     length ts = 2 \<and> length (wr_sent n) = 1 \<and> hs_senders h ! 0 \<in> fst ` set (hs_reads h) \<and> distinct (map fst (hs_reads h))"
proof -
  let ?pf = "sample_platform (answering 503)"
  have "url_ParseError (pf_lib ?pf) (DefaultBaseURL @ ''/v1/zones'') = None" by (simp add: sample_platform_def)
  note iso = async_isolation [OF sample_lifecycle this]
  obtain ts s w n where run: "async ?pf (\<lambda>rq x ro y. True) (sample_solver (answering 503)) sample_world ts s w n"
      "length ts = 2" "length (wr_sent n) = 1"
    using sample_async [of "CallPresent sample_challenge" "answering 503" "\<lambda>rq x ro y. True" sample_world "CallCleanUp sample_challenge"]
    by fastforce
  from conjunct1 [OF iso [OF run(1)]] obtain h where
    h: "async_logged ?pf (\<lambda>rq x ro y. True) (sample_solver (answering 503)) sample_world ts s w n h" by blast
  note all = conjunct2 [OF iso [OF run(1)], rule_format, OF h]
  have "distinct (map fst (hs_reads h))" using all by blast
  moreover have "\<exists>s1 w1. (hs_senders h ! 0, s1, w1) \<in> set (hs_reads h)" using all run(3) by force
  then have "hs_senders h ! 0 \<in> fst ` set (hs_reads h)" by force
  ultimately show ?thesis using run(2,3) h by blast
qed

end
