(* ===== verification/Async_Effects.thy ===== *)
theory Async_Effects
  imports Async Concurrent_Effects
begin

text \<open>
  What concurrent calls do to the records of the test server when they run over the asynchronous
  network: every record set is as it was or as one of the calls for it wanted it, and a call that
  reports success has seen the server do its work.
\<close>

section \<open>The server\<close>

definition mock_serves ::
  "network platform \<Rightarrow> ((string \<times> int64) list \<Rightarrow> (string \<times> int64) list) \<Rightarrow> http_request \<Rightarrow> network
   \<Rightarrow> http_response option \<Rightarrow> network \<Rightarrow> bool" where
  "mock_serves pf order rq x ro x' \<longleftrightarrow>
     (\<exists>m. serve_request (pf_lib pf) order DefaultBaseURL rq (net_server x) = (ro, m) \<and> x' = x\<lparr>net_server := m\<rparr>)"

text \<open>An answer that lists the zones \<open>Z\<close>, and an answer that tells the caller its work is done.\<close>

definition lists :: "golib \<Rightarrow> (string \<rightharpoonup> int64) \<Rightarrow> http_response \<Rightarrow> bool" where
  "lists lib Z resp \<longleftrightarrow> rs_StatusCode resp = 200 \<and>
     (\<exists>v. reading lib (Some (dec_listZonesResponse lib)) zero_listZonesResponse resp = Some v \<and>
        (\<forall>n. map_option zone_ID (find (\<lambda>z. zone_Name z = n) (lz_Zones v)) = Z n))"

definition acks :: "solver_call \<Rightarrow> http_response \<Rightarrow> bool" where
  "acks c resp \<longleftrightarrow> 200 \<le> rs_StatusCode resp \<and> rs_StatusCode resp < 300 \<or>
     (\<exists>ch. c = CallCleanUp ch) \<and> rs_StatusCode resp = 404"

context net_client
begin

lemma serve_list_answer:
  assumes "accepts tok m" and "serve ''GET'' ''/v1/zones'' None m = (ro, m')"
  shows "\<exists>resp. ro = Some resp \<and> accepts tok m' \<and> mk_zones m' = mk_zones m \<and> mock_recs m' = mock_recs m \<and>
    lists lib (map_of (mk_zones m)) resp"
proof -
  have "list_all (\<lambda>p. ascii (fst p)) (order (mk_zones m))" "distinct (map fst (mk_zones m))"
    using assms(1) visits by (auto simp: accepts_def visits_all_def distinct_map list_all_iff)
  note za = zones_answer [OF zero this(1)] and fv = find_visited [OF visits this(2)]
  have "rs_StatusCode (serveListZones zs) = 200" "rs_Body (serveListZones zs) \<noteq> []" for zs
    by (simp_all add: serveListZones_def writeJSON_def)
  with za fv have "lists lib (map_of (mk_zones m)) (serveListZones (order (mk_zones m)))"
    by (simp add: lists_def reading_def)
  with assms show ?thesis by (auto simp: serve_list)
qed

lemma serve_set_answer:
  assumes "accepts tok m" and "ascii_records (srq_Records q)"
    and "serve ''POST'' (rrset_path i n t @ ''/actions/set_records'') (Some (json_print (marshal_SetRRSetRecordsRequest q))) m = (ro, m')"
  shows "\<exists>resp. ro = Some resp \<and> accepts tok m' \<and> mk_zones m' = mk_zones m \<and>
    (if i \<in> dom (mock_recs m) then mock_recs m' = (mock_recs m)(i \<mapsto> srq_Records q)
     else mock_recs m' = mock_recs m \<and> rs_StatusCode resp = 404)"
proof -
  obtain p b where "serve ''POST'' (rrset_path i n t @ ''/actions/set_records'') (Some (json_print (marshal_SetRRSetRecordsRequest q))) m =
      map_prod Some id (serveSetRecords i q (noted ''POST'' p b (''Bearer '' @ tok) m))"
    using serve_set [OF assms(1,2)] by blast
  then obtain resp where "serveSetRecords i q (noted ''POST'' p b (''Bearer '' @ tok) m) = (resp, m')" "ro = Some resp"
    using assms(3) by (cases "serveSetRecords i q (noted ''POST'' p b (''Bearer '' @ tok) m)") auto
  with serveSetRecords_effect [OF this(1)] assms(1) show ?thesis by simp
qed

lemma serve_delete_answer:
  assumes "accepts tok m" and "serve ''DELETE'' (rrset_path i n t) None m = (ro, m')"
  shows "\<exists>resp. ro = Some resp \<and> accepts tok m' \<and> mk_zones m' = mk_zones m \<and> mock_recs m' = (mock_recs m)(i := None)"
proof -
  obtain p where "serve ''DELETE'' (rrset_path i n t) None m = map_prod Some id (serveDelete i (noted ''DELETE'' p [] (''Bearer '' @ tok) m))"
    using serve_delete [OF assms(1)] by blast
  then obtain resp where "serveDelete i (noted ''DELETE'' p [] (''Bearer '' @ tok) m) = (resp, m')" "ro = Some resp"
    using assms(2) by (cases "serveDelete i (noted ''DELETE'' p [] (''Bearer '' @ tok) m)") auto
  with serveDelete_effect [OF this(1)] assms(1) show ?thesis by simp
qed

end

section \<open>Exchanges with the server\<close>

text \<open>\<open>T k\<close> says that the record set of zone \<open>k\<close> holds what one of the calls wanted.\<close>

fun phase_zone :: "network platform \<Rightarrow> (string \<rightharpoonup> int64) \<Rightarrow> (int64 \<Rightarrow> bool) \<Rightarrow> solver_call \<Rightarrow> network phase \<Rightarrow> bool" where
  "phase_zone pf Z T c (Storing j k) \<longleftrightarrow> Z (fst (wanted pf c)) = Some k"
| "phase_zone pf Z T c (Acting j k) \<longleftrightarrow> Z (fst (wanted pf c)) = Some k"
| "phase_zone pf Z T c (Replacing j k) \<longleftrightarrow> Z (fst (wanted pf c)) = Some k \<and> (\<exists>ch. c = CallPresent ch)"
| "phase_zone pf Z T c (Finished None) \<longleftrightarrow>
     (case Z (fst (wanted pf c)) of None \<Rightarrow> snd (wanted pf c) = None | Some k \<Rightarrow> T k)"
| "phase_zone pf Z T c p \<longleftrightarrow> True"

lemma phase_zone_mono: "phase_zone pf Z T c p \<Longrightarrow> (\<And>k. T k \<Longrightarrow> T' k) \<Longrightarrow> phase_zone pf Z T' c p"
  by (induction pf Z T c p rule: phase_zone.induct) (auto split: option.splits)

definition net_exchange :: "network platform \<Rightarrow> string \<Rightarrow> (string \<rightharpoonup> int64) \<Rightarrow> solver_call \<Rightarrow> network exchange \<Rightarrow> bool" where
  "net_exchange pf tok Z c x \<longleftrightarrow> (\<exists>s lg j. in_int64 (s_rrsetTTL s) \<and>
     exchange_of pf c s (ex_phase x) (default_client (pf_http pf) (pf_pick pf) lg tok) = Some x \<and>
     phase_job (ex_phase x) = Some j \<and> net_job pf tok c j \<and> phase_zone pf Z (\<lambda>k. False) c (ex_phase x))"

definition exchange_request :: "network exchange \<Rightarrow> string \<Rightarrow> http_request" where
  "exchange_request x tok = make_request (ex_client x) (ex_meth x) (ex_path x) (ex_body x) tok"

text \<open>What the server does on a request and says in its answer.\<close>

definition told ::
  "network platform \<Rightarrow> (string \<rightharpoonup> int64) \<Rightarrow> solver_call \<Rightarrow> network phase \<Rightarrow> http_response \<Rightarrow> dns \<Rightarrow> dns \<Rightarrow> bool" where
  "told pf Z c p resp D D' \<longleftrightarrow> (case p of
     Listing j \<Rightarrow> D' = D \<and> lists (pf_lib pf) Z resp
   | _ \<Rightarrow> (\<exists>k. Z (fst (wanted pf c)) = Some k \<and> (D' = D(k := snd (wanted pf c)) \<or> D' = D \<and> \<not> acks c resp)))"

text \<open>An exchange as the server sees it.\<close>

lemma net_exchange_serve:
  assumes dep: "deployed pf order" and ch: "ascii_challenge (challenge_of c)" and x: "net_exchange pf tok Z c x"
    and sv: "serve_request (pf_lib pf) order DefaultBaseURL (exchange_request x tok) m = (ro, m')"
  obtains s j cl where "phase_request pf c s (ex_phase x) = Some (ex_meth x, ex_path x, ex_body x)"
    and "phase_job (ex_phase x) = Some j" and "challenge_apex pf (challenge_of c) = jb_apex j"
    and "phase_zone pf Z (\<lambda>k. False) c (ex_phase x)" and "net_client cl tok (pf_lib pf) order"
    and "net_client.serve cl tok (pf_lib pf) order (ex_meth x) (ex_path x) (ex_body x) m = (ro, m')"
    and "sendable (create_request (pf_uc pf) s (relativeRecordName (pf_uc pf) (ch_ResolvedFQDN (challenge_of c)) (jb_apex j)) (ch_Key (challenge_of c)))"
    and "ascii_records (challenge_records (pf_uc pf) (challenge_of c))"
proof -
  obtain s lg j where ttl: "in_int64 (s_rrsetTTL s)"
    and ex: "exchange_of pf c s (ex_phase x) (default_client (pf_http pf) (pf_pick pf) lg tok) = Some x"
    and j: "phase_job (ex_phase x) = Some j" "net_job pf tok c j" and z: "phase_zone pf Z (\<lambda>k. False) c (ex_phase x)"
    using x by (auto simp: net_exchange_def)
  let ?cl = "default_client (pf_http pf) (pf_pick pf) lg tok"
  note net = deployed_client [OF dep, of lg tok] and xs = exchange_of_Some [OF ex]
  have "cl_baseURL ?cl = DefaultBaseURL" by (simp add: default_client_def)
  with sv xs(2) have sv': "net_client.serve ?cl tok (pf_lib pf) order (ex_meth x) (ex_path x) (ex_body x) m = (ro, m')"
    by (simp add: net_client.serve_def [OF net] exchange_request_def)
  have r: "routed pf (challenge_of c) (jb_cred j) (jb_ref j) (jb_apex j)" using j(2) by (simp add: net_job_def)
  note wr = writable_request [OF ascii_writable [OF r ch ttl] refl]
  show thesis by (rule that [OF xs(3) j(1) challenge_apex_routed [OF r] z net sv' wr])
qed

lemma exchange_served:
  assumes dep: "deployed pf order" and ch: "ascii_challenge (challenge_of c)" and x: "net_exchange pf tok Z c x"
    and m: "accepts tok m" "map_of (mk_zones m) = Z"
    and sv: "serve_request (pf_lib pf) order DefaultBaseURL (exchange_request x tok) m = (ro, m')"
  shows "\<exists>resp. ro = Some resp \<and> accepts tok m' \<and> mk_zones m' = mk_zones m \<and>
    told pf Z c (ex_phase x) resp (mock_recs m) (mock_recs m')"
proof -
  obtain s j cl where rq: "phase_request pf c s (ex_phase x) = Some (ex_meth x, ex_path x, ex_body x)"
    and j: "phase_job (ex_phase x) = Some j" and ap: "challenge_apex pf (challenge_of c) = jb_apex j"
    and z: "phase_zone pf Z (\<lambda>k. False) c (ex_phase x)" and net: "net_client cl tok (pf_lib pf) order"
    and sv: "net_client.serve cl tok (pf_lib pf) order (ex_meth x) (ex_path x) (ex_body x) m = (ro, m')"
    and wr: "sendable (create_request (pf_uc pf) s (relativeRecordName (pf_uc pf) (ch_ResolvedFQDN (challenge_of c)) (jb_apex j)) (ch_Key (challenge_of c)))"
      "ascii_records (challenge_records (pf_uc pf) (challenge_of c))"
    by (rule net_exchange_serve [OF dep ch x sv])
  show ?thesis
  proof (cases "ex_phase x")
    case (Listing k)
    with rq sv m net_client.serve_list_answer [OF net m(1), of ro m'] show ?thesis by (auto simp: told_def)
  next
    case (Acting k i)
    show ?thesis
    proof (cases c)
      case (CallPresent ch')
      with net_client.create_served [OF net m(1) wr(1), of i ro m'] Acting rq sv z j ap show ?thesis
        by (auto simp: told_def acks_def create_request_def challenge_records_def split: if_splits)
    next
      case (CallCleanUp ch')
      with Acting rq have "ex_meth x = ''DELETE''" "ex_body x = None" "\<exists>n t. rrset_path i n t = ex_path x" by auto
      with net_client.serve_delete_answer [OF net m(1)] sv obtain resp where
        "ro = Some resp" "accepts tok m'" "mk_zones m' = mk_zones m" "mock_recs m' = (mock_recs m)(i := None)"
        by metis
      with Acting CallCleanUp z show ?thesis by (auto simp: told_def)
    qed
  next
    case (Replacing k i)
    with z obtain ch' where c: "c = CallPresent ch'" by auto
    let ?q = "\<lparr>srq_Records = challenge_records (pf_uc pf) ch'\<rparr>"
    have asc: "ascii_records (srq_Records ?q)" using wr(2) c by simp
    from Replacing c rq obtain n t where "''POST'' = ex_meth x" "rrset_path i n t @ ''/actions/set_records'' = ex_path x"
        "ex_body x = Some (json_print (marshal_SetRRSetRecordsRequest ?q))"
      by (auto simp: challenge_records_def)
    with sv have "net_client.serve cl tok (pf_lib pf) order ''POST'' (rrset_path i n t @ ''/actions/set_records'')
        (Some (json_print (marshal_SetRRSetRecordsRequest ?q))) m = (ro, m')" by simp
    from net_client.serve_set_answer [OF net m(1) asc this] obtain resp where "ro = Some resp" "accepts tok m'" "mk_zones m' = mk_zones m"
        "if i \<in> dom (mock_recs m) then mock_recs m' = (mock_recs m)(i \<mapsto> challenge_records (pf_uc pf) ch')
         else mock_recs m' = mock_recs m \<and> rs_StatusCode resp = 404"
      by (simp only: SetRRSetRecordsRequest.simps) blast
    with Replacing c z show ?thesis by (auto simp: told_def acks_def split: if_splits)
  qed (use rq in auto)
qed

section \<open>Steps of a thread\<close>

lemma retryable_plain: "isRetryable e \<Longrightarrow> \<not> errors_Is e ErrNotFound"
  by (auto simp: isRetryable_def errors_As_Is APIError_Is_def split: option.splits if_splits)

lemma finish_once_transport:
  "finish_once lib cl meth path out zero (Inl err) w = (r, w1) \<Longrightarrow> \<exists>e. r = Inl e \<and> isRetryable e"
  by (auto simp: finish_once_def isRetryable_def)

lemma finish_once_answered:
  assumes "finish_once lib cl meth path out zero (Inr resp) w = (r, w1)"
  shows "answered lib out zero resp r"
  using assms unfolding finish_once_def Let_def answered_def reading_def
  by (auto split: option.splits sum.splits if_splits)

definition good ::
  "network platform \<Rightarrow> (string \<rightharpoonup> int64) \<Rightarrow> (int64 \<Rightarrow> bool) \<Rightarrow> solver_call \<Rightarrow> network phase \<Rightarrow> http_response \<Rightarrow> bool" where
  "good pf Z T c p resp \<longleftrightarrow> (case p of
     Listing j \<Rightarrow> lists (pf_lib pf) Z resp
   | _ \<Rightarrow> acks c resp \<longrightarrow> (\<forall>k. Z (fst (wanted pf c)) = Some k \<longrightarrow> T k))"

lemma good_mono: "good pf Z T c p resp \<Longrightarrow> (\<And>k. T k \<Longrightarrow> T' k) \<Longrightarrow> good pf Z T' c p resp"
  by (cases p) (auto simp: good_def)

lemma give_up_zone:
  assumes "phase_zone pf Z (\<lambda>k. False) c (ex_phase x)" and "\<not> errors_Is err ErrNotFound"
    and "give_up pf c x err s w = (p', s', w')"
  shows "phase_zone pf Z T c p'"
proof -
  have "p' = ex_phase x \<or> phase_zone pf Z T c p'"
    using assms by (cases "ex_phase x") (auto simp: give_up_def after_defs resolve_failed_def Let_def
        split: solver_call.splits if_splits)
  with phase_zone_mono [OF assms(1), of T] show ?thesis by auto
qed

lemma settle_Local:
  assumes "settle x k r fin s w = (Local p', s', w')"
  shows "fin r s w = (p', s', w') \<and> (\<forall>e. r = Inl e \<longrightarrow> \<not> isRetryable e)"
  using assms by (auto simp: settle_def local_def split: sum.splits if_splits prod.splits)

lemma finish_Local:
  assumes "(case finish_once lib cl meth path out zero res w of (r, w1) \<Rightarrow> settle x k r fin s w1) = (Local p', s', w')"
  shows "\<exists>resp r w1. res = Inr resp \<and> answered lib out zero resp r \<and> fin r s w1 = (p', s', w')"
proof -
  obtain r w1 where f: "finish_once lib cl meth path out zero res w = (r, w1)" by force
  from settle_Local [of x k r fin s w1] assms f have r: "fin r s w1 = (p', s', w')" "\<forall>e. r = Inl e \<longrightarrow> \<not> isRetryable e" by auto
  show ?thesis
  proof (cases res)
    case (Inl err)
    from finish_once_transport [OF f [unfolded Inl]] r(2) show ?thesis by auto
  next
    case (Inr resp)
    from finish_once_answered [OF f [unfolded Inr]] r(1) Inr show ?thesis by blast
  qed
qed

lemma receive_zone:
  assumes z: "phase_zone pf Z (\<lambda>k. False) c (ex_phase x)" and j: "phase_job (ex_phase x) = Some j" "fst (wanted pf c) = jb_apex j"
    and g: "\<And>resp. res = Inr resp \<Longrightarrow> good pf Z T c (ex_phase x) resp"
    and rc: "receive pf c x k res s w = (Local p', s', w')"
  shows "phase_zone pf Z T c p'"
proof (cases "ex_phase x")
  case (Listing j')
  then have p: "ex_phase x = Listing j" using j by simp
  with rc obtain resp r w1 where r: "res = Inr resp" "answered (pf_lib pf) (Some (dec_listZonesResponse (pf_lib pf))) zero_listZonesResponse resp r"
      "after_list pf c j (map_sum id lz_Zones r) s w1 = (p', s', w')"
    by (auto simp: receive_def Let_def dest!: finish_Local)
  with g p have "lists (pf_lib pf) Z resp" by (simp add: good_def)
  with r(2) obtain v where v: "r = Inr v" "\<forall>n. map_option zone_ID (find (\<lambda>z. zone_Name z = n) (lz_Zones v)) = Z n"
    by (auto simp: lists_def answered_def)
  show ?thesis
  proof (cases "find (\<lambda>z. zone_Name z = jb_apex j) (lz_Zones v)")
    case None
    with v(2) have "Z (jb_apex j) = None" by (metis option.map(1))
    with None v r(3) j(2) show ?thesis
      by (cases c) (auto simp: after_list_def resolve_failed_def split: if_splits)
  next
    case (Some z')
    with v(2) have "Z (jb_apex j) = Some (zone_ID z')" by (metis option.map(2))
    with Some v r(3) j(2) show ?thesis by (auto simp: after_list_def)
  qed
next
  case (Acting j' i)
  with z have k: "Z (fst (wanted pf c)) = Some i" by simp
  show ?thesis
  proof (cases c)
    case (CallPresent ch)
    with rc Acting obtain resp r w1 where r: "res = Inr resp" "answered (pf_lib pf) (Some (dec_rrsetEnvelope (pf_lib pf))) zero_RRSet resp r"
        "after_create pf ch j' i r s w1 = (p', s', w')"
      by (auto simp: receive_def Let_def dest!: finish_Local)
    with g Acting k have "acks c resp \<Longrightarrow> T i" by (simp add: good_def)
    with r k CallPresent show ?thesis
      by (cases r) (auto simp: after_create_def Let_def answered_def acks_def split: if_splits)
  next
    case (CallCleanUp ch)
    with rc Acting obtain resp r w1 where r: "res = Inr resp" "answered (pf_lib pf) None () resp r"
        "after_delete pf ch j' i r s w1 = (p', s', w')"
      by (auto simp: receive_def Let_def dest!: finish_Local)
    with g Acting k have "acks c resp \<Longrightarrow> T i" by (simp add: good_def)
    with r k CallCleanUp show ?thesis
      by (cases r) (auto simp: after_delete_def Let_def answered_def reading_def acks_def APIError_Is_def split: if_splits option.splits)
  qed
next
  case (Replacing j' i)
  with z have k: "Z (fst (wanted pf c)) = Some i" by simp
  from rc Replacing obtain resp r w1 where r: "res = Inr resp" "answered (pf_lib pf) (Some (dec_actionEnvelope (pf_lib pf))) zero_Action resp r"
      "after_set pf (challenge_of c) j' i r s w1 = (p', s', w')"
    by (auto simp: receive_def Let_def dest!: finish_Local)
  with g Replacing k have "acks c resp \<Longrightarrow> T i" by (simp add: good_def)
  with r k show ?thesis
    by (cases r) (auto simp: after_set_def answered_def acks_def split: if_splits)
qed (use rc phase_zone_mono [OF z, of T] in \<open>simp_all add: receive_def Let_def\<close>)

primrec net_aphase ::
  "network platform \<Rightarrow> string \<Rightarrow> (string \<rightharpoonup> int64) \<Rightarrow> (int64 \<Rightarrow> bool) \<Rightarrow> network envelope list \<Rightarrow> solver_call \<Rightarrow> network aphase \<Rightarrow> bool" where
  "net_aphase pf tok Z T E c (Local p) \<longleftrightarrow> phase_net pf tok c p \<and> phase_zone pf Z T c p"
| "net_aphase pf tok Z T E c (Trying x k e) \<longleftrightarrow> net_exchange pf tok Z c x \<and> (\<forall>err. e = Some err \<longrightarrow> isRetryable err)"
| "net_aphase pf tok Z T E c (Asleep x k t) \<longleftrightarrow> net_exchange pf tok Z c x"
| "net_aphase pf tok Z T E c (Ready x k) \<longleftrightarrow> net_exchange pf tok Z c x"
| "net_aphase pf tok Z T E c (Waiting x k i) \<longleftrightarrow> net_exchange pf tok Z c x \<and> i < length E \<and>
     ev_call (E ! i) = c \<and> ev_phase (E ! i) = ex_phase x"

lemma net_aphase_mono:
  "net_aphase pf tok Z T E c a \<Longrightarrow> (\<And>k. T k \<Longrightarrow> T' k) \<Longrightarrow> net_aphase pf tok Z T' (E @ E') c a"
  by (cases a) (auto intro: phase_zone_mono simp: nth_append)

definition net_envelope ::
  "network platform \<Rightarrow> string \<Rightarrow> (string \<rightharpoonup> int64) \<Rightarrow> network envelope \<Rightarrow> bool" where
  "net_envelope pf tok Z ev \<longleftrightarrow> (\<exists>x. net_exchange pf tok Z (ev_call ev) x \<and> ev_phase ev = ex_phase x \<and>
     ev_request ev = exchange_request x tok)"

text \<open>After an exchange, for good or for another round.\<close>

lemma frame_net_aphase:
  assumes "frame x s w (a', s', w')" and x: "net_exchange pf tok Z c x"
    and zone: "\<And>p'. a' = Local p' \<Longrightarrow> phase_zone pf Z T c p'"
  shows "s' = s \<and> ext w' = ext w \<and> net_aphase pf tok Z T E c a'"
proof -
  from x obtain j where "phase_job (ex_phase x) = Some j" "net_job pf tok c j" by (auto simp: net_exchange_def)
  with assms show ?thesis by (cases a') (auto simp: frame_def phase_net_def)
qed

lemma exchange_zone:
  assumes "net_exchange pf tok Z c x"
  obtains j where "phase_job (ex_phase x) = Some j" "fst (wanted pf c) = jb_apex j"
    "phase_zone pf Z (\<lambda>k. False) c (ex_phase x)"
  using assms by (auto simp: net_exchange_def net_job_def wanted_apex dest: challenge_apex_routed)

lemma exchange_begins:
  assumes url: "url_ParseError (pf_lib pf) (DefaultBaseURL @ ''/v1/zones'') = None" and ttl: "in_int64 (s_rrsetTTL s)"
    and a: "phase_net pf tok c p" "phase_zone pf Z T c p"
    and b: "exchange_of pf c s p (default_client (pf_http pf) (pf_pick pf) lg tok') = Some x" "phase_job p = Some j"
      "jb_client j = as_HCloudClient (pf_lib pf) (default_client (pf_http pf) (pf_pick pf) lg tok')"
  shows "net_exchange pf tok Z c x"
proof -
  from a(1) b(2) have nj: "net_job pf tok c j" by (simp add: phase_net_def)
  then have "tok' = tok" using b(3) client_token_unique [OF url] by (auto simp: net_job_def)
  moreover have "phase_zone pf Z (\<lambda>k. False) c p" using a(2) b(2) by (cases p) auto
  ultimately show ?thesis using ttl b nj exchange_of_Some(1) [OF b(1)] unfolding net_exchange_def by auto
qed

lemma phase_request_url:
  "phase_request pf c s p = Some (meth, path, body) \<Longrightarrow> endpoint_urls_ok lib base \<Longrightarrow> url_ParseError lib (base @ path) = None"
  by (cases p; cases c) (auto simp: endpoint_urls_ok_def)

lemma exchange_sent:
  assumes "deployed pf order" and "net_exchange pf tok Z c x"
    and "start_once (pf_lib pf) (ex_client x) (ex_ctx x) (ex_meth x) (ex_path x) (ex_body x) w = (r, w')"
  shows "ext w' = ext w \<and> (\<exists>rx. r = Inr (exchange_request x tok, rx))"
proof -
  obtain s lg where ex: "exchange_of pf c s (ex_phase x) (default_client (pf_http pf) (pf_pick pf) lg tok) = Some x"
    using assms(2) by (auto simp: net_exchange_def)
  note x = exchange_of_Some [OF ex]
  have "url_ParseError (pf_lib pf) (DefaultBaseURL @ ex_path x) = None"
    using phase_request_url [OF x(3)] assms(1) by (simp add: deployed_def)
  moreover have "cl_token (ex_client x) = StaticToken tok" "cl_baseURL (ex_client x) = DefaultBaseURL"
    by (simp_all add: x(2) default_client_def)
  ultimately show ?thesis using assms(3) by (auto simp: start_once_def StaticToken_def Let_def exchange_request_def)
qed

lemma local_effects:
  assumes inv: "solver_inv pf s w" and coh: "coherent Z (s_zones s)" and ch: "proper_challenge pf tok (challenge_of c)"
    and a: "phase_net pf tok c p" "phase_zone pf Z T c p" and api: "phase_request pf c s p = None"
    and st: "thread_step pf c p s w = (p', s', w')"
  shows "coherent Z (s_zones s') \<and> s_rrsetTTL s' = s_rrsetTTL s \<and> ext w' = ext w \<and>
    phase_net pf tok c p' \<and> phase_zone pf Z T c p'"
proof (cases "p = Starting")
  case True
  obtain cr ref apex where r: "routed pf (challenge_of c) cr ref apex" and h: "hands_out pf tok ref"
    using ch by (auto simp: proper_challenge_def)
  have prod: "production pf s" using inv by (simp add: solver_inv_def)
  obtain lg w1 where prep: "prepare pf s (contextFor s w) (challenge_of c) w = (Inr (cr, ref,
      as_HCloudClient (pf_lib pf) (default_client (pf_http pf) (pf_pick pf) lg tok), apex), w1)" and w1: "ext w1 = ext w"
    by (rule deployed_prepare [OF prod r h])
  with True st r coh show ?thesis by (auto simp: phase_net_def net_job_def intro!: exI [of _ lg])
next
  case False
  have net: "phase_net pf tok c p'" using thread_step_job [OF st False] a(1) by (auto simp: phase_net_def)
  have ap: "fst (wanted pf c) = jb_apex j" if "phase_job p = Some j" for j
    using a(1) that by (auto simp: phase_net_def net_job_def wanted_apex dest: challenge_apex_routed)
  show ?thesis
  proof (cases p)
    case (Looking j)
    obtain hit zc where l: "Lookup (SecretRef_String (jb_ref j)) (jb_apex j) w (s_zones s) = (hit, zc)" by force
    with coherent_Lookup [OF coh l] Looking st ap net show ?thesis by (cases hit) auto
  next
    case (Storing j i)
    with st a(2) coh ap net show ?thesis by (auto intro: coherent_Store)
  next
    case (Forgetting j e)
    with st coh net show ?thesis by (auto intro: coherent_Invalidate)
  next
    case (Acting j i)
    with api show ?thesis by (cases c) simp_all
  qed (use st api coh a net False in auto)
qed

text \<open>One step of a thread: the server is as it was, and whatever is sent is one of the exchanges.\<close>

lemma async_step_effects:
  assumes dep: "deployed pf order" and ch: "proper_challenge pf tok (challenge_of c)"
    and inv: "solver_inv pf s w" and ttl: "in_int64 (s_rrsetTTL s)" and coh: "coherent Z (s_zones s)"
    and a: "net_aphase pf tok Z T (wr_sent n) c a"
    and g: "\<And>i resp. (i, resp) \<in> set (wr_answers n) \<Longrightarrow> good pf Z T (ev_call (wr_sent n ! i)) (ev_phase (wr_sent n ! i)) resp"
    and st: "async_step pf c (a, s, w) n (a', s', w') n'"
  shows "coherent Z (s_zones s') \<and> s_rrsetTTL s' = s_rrsetTTL s \<and> ext w' = ext w \<and> wr_answers n' = wr_answers n \<and>
    (\<exists>E. wr_sent n' = wr_sent n @ E \<and> (\<forall>ev \<in> set E. ev_call ev = c \<and> net_envelope pf tok Z ev)) \<and>
    net_aphase pf tok Z T (wr_sent n') c a'"
  using st
proof cases
  case (local p p')
  with a local_effects [OF inv coh ch _ _ local(4,5), of T] show ?thesis by simp
next
  case (begin_call cl lg tok' p x j)
  have url: "url_ParseError (pf_lib pf) (DefaultBaseURL @ ''/v1/zones'') = None"
    using dep by (simp add: deployed_def endpoint_urls_ok_def)
  have "net_exchange pf tok Z c x"
    using exchange_begins [OF url ttl, of tok c p Z T lg tok' x j] a begin_call by simp
  with begin_call coh show ?thesis by simp
next
  case (exhausted x k err)
  with a have x: "net_exchange pf tok Z c x" "\<not> errors_Is err ErrNotFound" by (auto dest: retryable_plain)
  obtain j where z: "phase_zone pf Z (\<lambda>k. False) c (ex_phase x)" by (rule exchange_zone [OF x(1)])
  from exhausted frame_give_up [of x s w pf c err] have f: "frame x s w (a', s', w')" by simp
  have "phase_zone pf Z T c p'" if "a' = Local p'" for p'
    using give_up_zone [OF z x(2), of s w p' s' w'] exhausted that by (auto simp: local_def split: prod.splits)
  from frame_net_aphase [OF f x(1) this] exhausted coh show ?thesis by simp
next
  case (interrupted x e k wake)
  with a have x: "net_exchange pf tok Z c x" by simp
  obtain j where z: "phase_zone pf Z (\<lambda>k. False) c (ex_phase x)" by (rule exchange_zone [OF x])
  from interrupted frame_give_up [of x s w pf c "ECtx e"] have f: "frame x s w (a', s', w')" by simp
  have "phase_zone pf Z T c p'" if "a' = Local p'" for p'
    using give_up_zone [OF z, of "ECtx e" s w p' s' w'] interrupted that by (auto simp: local_def split: prod.splits)
  from frame_net_aphase [OF f x this] interrupted coh show ?thesis by simp
next
  case (send x rq rx k)
  with a have x: "net_exchange pf tok Z c x" by simp
  from exchange_sent [OF dep x] send have rq: "ext w' = ext w" "rq = exchange_request x tok" by auto
  have "net_envelope pf tok Z \<lparr>ev_call = c, ev_phase = ex_phase x, ev_request = rq\<rparr>"
    using x rq by (auto simp: net_envelope_def)
  with send x rq coh show ?thesis by simp
next
  case (unsent x err w1 k)
  with a exchange_sent [OF dep _ unsent(4)] show ?thesis by auto
next
  case (answer i resp x k)
  with a have x: "net_exchange pf tok Z c x" and i: "ev_call (wr_sent n ! i) = c" "ev_phase (wr_sent n ! i) = ex_phase x" by simp_all
  obtain j where z: "phase_job (ex_phase x) = Some j" "fst (wanted pf c) = jb_apex j" "phase_zone pf Z (\<lambda>k. False) c (ex_phase x)"
    by (rule exchange_zone [OF x])
  from answer frame_receive [of x s w pf c k "Inr resp"] have f: "frame x s w (a', s', w')" by simp
  have "good pf Z T c (ex_phase x) resp" using g [OF answer(4)] i by simp
  then have "phase_zone pf Z T c p'" if "a' = Local p'" for p'
    using receive_zone [OF z(3,1,2), of "Inr resp" T k s w p' s' w'] answer that by simp
  from frame_net_aphase [OF f x this] answer coh show ?thesis by simp
next
  case (fail x k i err)
  with a have x: "net_exchange pf tok Z c x" by simp
  obtain j where z: "phase_job (ex_phase x) = Some j" "fst (wanted pf c) = jb_apex j" "phase_zone pf Z (\<lambda>k. False) c (ex_phase x)"
    by (rule exchange_zone [OF x])
  from fail frame_receive [of x s w pf c k "Inl err"] have f: "frame x s w (a', s', w')" by simp
  have "phase_zone pf Z T c p'" if "a' = Local p'" for p'
    using receive_zone [OF z(3,1,2), of "Inl err" T k s w p' s' w'] fail that by simp
  from frame_net_aphase [OF f x this] fail coh show ?thesis by simp
qed (use a coh in auto)

section \<open>Executions\<close>

text \<open>The record set of zone \<open>k\<close> holds what one of the calls \<open>C\<close> for it wanted.\<close>

definition touched :: "network platform \<Rightarrow> (string \<rightharpoonup> int64) \<Rightarrow> solver_call set \<Rightarrow> dns \<Rightarrow> int64 \<Rightarrow> bool" where
  "touched pf Z C D k \<longleftrightarrow> (\<exists>c \<in> C. Z (fst (wanted pf c)) = Some k \<and> D k = snd (wanted pf c))"

lemma told_touched:
  assumes "told pf Z c p resp D D'" and "c \<in> C"
  shows "touched pf Z C D k \<Longrightarrow> touched pf Z C D' k" and "D' k = D k \<or> touched pf Z C D' k"
    and "good pf Z (touched pf Z C D') c p resp"
proof -
  have upd: "touched pf Z C (D(k0 := snd (wanted pf c))) k0" if "Z (fst (wanted pf c)) = Some k0" for k0
    using that assms(2) by (auto simp: touched_def)
  have keep: "touched pf Z C (D(k0 := snd (wanted pf c))) k" if "touched pf Z C D k" "Z (fst (wanted pf c)) = Some k0" for k0 k
    using that upd by (cases "k = k0") (auto simp: touched_def)
  show "touched pf Z C D k \<Longrightarrow> touched pf Z C D' k"
    using assms(1) keep by (auto simp: told_def split: phase.splits)
  show "D' k = D k \<or> touched pf Z C D' k"
    using assms(1) upd by (auto simp: told_def split: phase.splits)
  show "good pf Z (touched pf Z C D') c p resp"
    using assms(1) upd by (cases p) (auto simp: told_def good_def)
qed

definition eff_inv ::
  "network platform \<Rightarrow> string \<Rightarrow> (string \<rightharpoonup> int64) \<Rightarrow> dns \<Rightarrow> network athread list \<Rightarrow> network Solver \<Rightarrow> network world \<Rightarrow> network wire \<Rightarrow> bool" where
  "eff_inv pf tok Z R ts s w n \<longleftrightarrow> (let T = touched pf Z (fst ` set ts) (dns_of w) in
     in_int64 (s_rrsetTTL s) \<and> coherent Z (s_zones s) \<and> server_ok tok Z w \<and>
     (\<forall>t \<in> set ts. net_aphase pf tok Z T (wr_sent n) (fst t) (snd t)) \<and>
     (\<forall>ev \<in> set (wr_sent n). ev_call ev \<in> fst ` set ts \<and> net_envelope pf tok Z ev) \<and>
     (\<forall>(i, resp) \<in> set (wr_answers n). i < length (wr_sent n) \<and> good pf Z T (ev_call (wr_sent n ! i)) (ev_phase (wr_sent n ! i)) resp) \<and>
     (\<forall>k. dns_of w k = R k \<or> T k))"

text \<open>More calls, more messages, and a world in which what was touched is touched.\<close>

lemma eff_inv_grow:
  assumes inv: "eff_inv pf tok Z R ts s w n" and C: "fst ` set ts \<subseteq> fst ` set ts'"
    and T: "\<And>k. touched pf Z (fst ` set ts') (dns_of w) k \<Longrightarrow> touched pf Z (fst ` set ts') (dns_of w') k"
      "\<And>k. dns_of w' k = dns_of w k \<or> touched pf Z (fst ` set ts') (dns_of w') k"
    and s: "in_int64 (s_rrsetTTL s')" "coherent Z (s_zones s')" "server_ok tok Z w'"
    and ts: "\<And>t. t \<in> set ts' \<Longrightarrow> t \<in> set ts \<or>
      net_aphase pf tok Z (touched pf Z (fst ` set ts') (dns_of w')) (wr_sent n') (fst t) (snd t)"
    and n: "wr_sent n' = wr_sent n @ E" "\<And>ev. ev \<in> set E \<Longrightarrow> ev_call ev \<in> fst ` set ts' \<and> net_envelope pf tok Z ev"
      "wr_answers n' = wr_answers n @ A" "\<And>i resp. (i, resp) \<in> set A \<Longrightarrow> i < length (wr_sent n) \<and>
        good pf Z (touched pf Z (fst ` set ts') (dns_of w')) (ev_call (wr_sent n ! i)) (ev_phase (wr_sent n ! i)) resp"
  shows "eff_inv pf tok Z R ts' s' w' n'"
proof -
  let ?T = "touched pf Z (fst ` set ts) (dns_of w)" and ?T' = "touched pf Z (fst ` set ts') (dns_of w')"
  have mono: "?T' k" if "?T k" for k
    by (rule T(1)) (use that C in \<open>unfold touched_def, blast\<close>)
  have "net_aphase pf tok Z ?T' (wr_sent n') (fst t) (snd t)" if "t \<in> set ts'" for t
    using ts [OF that] inv net_aphase_mono [of pf tok Z ?T "wr_sent n" "fst t" "snd t" ?T' E] mono
    by (auto simp: eff_inv_def Let_def n(1))
  moreover have "i < length (wr_sent n') \<and> good pf Z ?T' (ev_call (wr_sent n' ! i)) (ev_phase (wr_sent n' ! i)) resp"
    if "(i, resp) \<in> set (wr_answers n')" for i resp
  proof -
    have "i < length (wr_sent n) \<and> good pf Z ?T' (ev_call (wr_sent n ! i)) (ev_phase (wr_sent n ! i)) resp"
    proof (cases "(i, resp) \<in> set A")
      case False
      with that n(3) have "(i, resp) \<in> set (wr_answers n)" by simp
      with inv have "i < length (wr_sent n)" "good pf Z ?T (ev_call (wr_sent n ! i)) (ev_phase (wr_sent n ! i)) resp"
        by (auto simp: eff_inv_def Let_def)
      with good_mono [OF this(2) mono] show ?thesis by simp
    qed (use n(4) in simp)
    then show ?thesis by (simp add: n(1) nth_append)
  qed
  moreover have "dns_of w' k = R k \<or> ?T' k" for k
    using inv mono T(2) [of k] by (auto simp: eff_inv_def Let_def)
  moreover have "\<forall>ev \<in> set (wr_sent n'). ev_call ev \<in> fst ` set ts' \<and> net_envelope pf tok Z ev"
    using inv C n(1,2) by (auto simp: eff_inv_def Let_def)
  ultimately show ?thesis using s by (auto simp: eff_inv_def Let_def)
qed

text \<open>What a thread about to step knows, and what the server does with one of the requests sent.\<close>

lemma eff_inv_thread:
  assumes "eff_inv pf tok Z R ts s w n" and "(c, a) \<in> set ts" and "T = touched pf Z (fst ` set ts) (dns_of w)"
  shows "in_int64 (s_rrsetTTL s)" and "coherent Z (s_zones s)" and "net_aphase pf tok Z T (wr_sent n) c a"
    and "(i, resp) \<in> set (wr_answers n) \<Longrightarrow> good pf Z T (ev_call (wr_sent n ! i)) (ev_phase (wr_sent n ! i)) resp"
  using assms by (fastforce simp: eff_inv_def Let_def)+

lemma eff_inv_served:
  assumes dep: "deployed pf order" and inv: "eff_inv pf tok Z R ts s w n" and i: "i < length (wr_sent n)"
    and ch: "list_all (\<lambda>t. proper_challenge pf tok (challenge_of (fst t))) ts"
    and sv: "mock_serves pf order (ev_request (wr_sent n ! i)) (ext w) ro x"
  obtains e resp m where "ro = Some resp" and "x = (ext w)\<lparr>net_server := m\<rparr>" and "server_ok tok Z (w\<lparr>ext := x\<rparr>)"
    and "ev_call (wr_sent n ! i) \<in> fst ` set ts" and "ascii_challenge (challenge_of (ev_call (wr_sent n ! i)))"
    and "net_exchange pf tok Z (ev_call (wr_sent n ! i)) e" and "ev_phase (wr_sent n ! i) = ex_phase e"
    and "serve_request (pf_lib pf) order DefaultBaseURL (exchange_request e tok) (net_server (ext w)) = (Some resp, m)"
    and "told pf Z (ev_call (wr_sent n ! i)) (ev_phase (wr_sent n ! i)) resp (dns_of w) (dns_of (w\<lparr>ext := x\<rparr>))"
proof -
  let ?ev = "wr_sent n ! i"
  from inv i have ev: "ev_call ?ev \<in> fst ` set ts" "net_envelope pf tok Z ?ev" by (simp_all add: eff_inv_def Let_def)
  then obtain e where e: "net_exchange pf tok Z (ev_call ?ev) e" "ev_phase ?ev = ex_phase e" "ev_request ?ev = exchange_request e tok"
    by (auto simp: net_envelope_def)
  from sv obtain m where m: "serve_request (pf_lib pf) order DefaultBaseURL (exchange_request e tok) (net_server (ext w)) = (ro, m)"
      "x = (ext w)\<lparr>net_server := m\<rparr>"
    by (auto simp: mock_serves_def e(3))
  have asc: "ascii_challenge (challenge_of (ev_call ?ev))" using ch ev(1) by (auto simp: list_all_iff proper_challenge_def)
  have srv: "accepts tok (net_server (ext w))" "map_of (mk_zones (net_server (ext w))) = Z"
    using inv by (simp_all add: eff_inv_def Let_def server_ok_def)
  from exchange_served [OF dep asc e(1) srv m(1)] that [OF _ m(2) _ ev(1) asc e(1,2)] m srv(2) show thesis
    by (auto simp: e(2) dns_of_def server_ok_def)
qed

lemma async_effects:
  assumes "async pf (mock_serves pf order) s0 w0 ts s w n" and "deployed pf order" and "system_ok pf tok Z s0 w0"
    and "list_all (\<lambda>t. proper_challenge pf tok (challenge_of (fst t))) ts"
  shows "eff_inv pf tok Z (dns_of w0) ts s w n"
  using assms
proof (induction rule: async.induct)
  case start
  then show ?case by (auto simp: eff_inv_def Let_def system_ok_server)
next
  case (arrive ts s w n c)
  then have ih: "eff_inv pf tok Z (dns_of w0) ts s w n" by simp
  then have "in_int64 (s_rrsetTTL s)" "coherent Z (s_zones s)" "server_ok tok Z w" by (simp_all add: eff_inv_def Let_def)
  then show ?case
    by (intro eff_inv_grow [OF ih, where E = "[]" and A = "[]"]) (auto simp: phase_net_def)
next
  case (step ts s w n i c a a' s' w' n')
  have ts: "fst ` set (ts[i := (c, a')]) = fst ` set ts" by (rule calls_update(1) [OF step.hyps(2,3)])
  have proper: "proper_challenge pf tok (challenge_of c')" if "c' \<in> fst ` set ts" for c'
    using step.prems(3) that unfolding ts [symmetric] by (auto simp: list_all_iff)
  then have ih: "eff_inv pf tok Z (dns_of w0) ts s w n" using step.IH step.prems by (auto simp: list_all_iff)
  let ?T = "touched pf Z (fst ` set ts) (dns_of w)"
  have t: "(c, a) \<in> set ts" using step.hyps(2,3) by (metis nth_mem)
  have url: "url_ParseError (pf_lib pf) (DefaultBaseURL @ ''/v1/zones'') = None"
    using step.prems(1) by (simp add: deployed_def endpoint_urls_ok_def)
  have "solver_inv pf s0 w0" using step.prems(2) by (simp add: system_ok_def)
  then have inv: "solver_inv pf s w" by (rule async_ok(1) [OF step.hyps(1) _ url])
  note now = eff_inv_thread [OF ih t refl]
  have srv: "server_ok tok Z w" using ih by (simp add: eff_inv_def Let_def)
  have ch: "proper_challenge pf tok (challenge_of c)" by (rule proper [OF calls_update(2) [OF step.hyps(2,3)]])
  note eff = async_step_effects [OF step.prems(1) ch inv now step.hyps(4)]
  then obtain E where E: "wr_sent n' = wr_sent n @ E" "\<forall>ev \<in> set E. ev_call ev = c \<and> net_envelope pf tok Z ev" by blast
  from eff have same: "dns_of w' = dns_of w" "server_ok tok Z w'" using srv by (simp_all add: dns_of_def server_ok_def)
  show ?case
  proof (rule eff_inv_grow [OF ih, where E = E and A = "[]"])
    show "t \<in> set ts \<or> net_aphase pf tok Z (touched pf Z (fst ` set (ts[i := (c, a')])) (dns_of w')) (wr_sent n') (fst t) (snd t)"
      if "t \<in> set (ts[i := (c, a')])" for t
      using that eff unfolding ts same(1) by (auto dest!: set_update_subset_insert [THEN subsetD])
  qed (use eff E same now(1) calls_update(2) [OF step.hyps(2,3)] in \<open>auto simp: ts\<close>)
next
  case (serve ts s w n i ro x)
  then have ih: "eff_inv pf tok Z (dns_of w0) ts s w n" by simp
  from serve.prems(1) ih serve.hyps(2) serve.prems(3) serve.hyps(3) obtain resp where r: "ro = Some resp" "server_ok tok Z (w\<lparr>ext := x\<rparr>)"
      and told: "told pf Z (ev_call (wr_sent n ! i)) (ev_phase (wr_sent n ! i)) resp (dns_of w) (dns_of (w\<lparr>ext := x\<rparr>))"
      and ev: "ev_call (wr_sent n ! i) \<in> fst ` set ts"
    by (rule eff_inv_served)
  have "in_int64 (s_rrsetTTL s)" "coherent Z (s_zones s)" using ih by (simp_all add: eff_inv_def Let_def)
  with told_touched [OF told ev] r serve.hyps(2) show ?case
    by (intro eff_inv_grow [OF ih, where E = "[]" and A = "[(i, resp)]"]) auto
next
  case (later ts s w n t)
  then have ih: "eff_inv pf tok Z (dns_of w0) ts s w n" by simp
  moreover have "dns_of (w\<lparr>now := t\<rparr>) = dns_of w" "server_ok tok Z (w\<lparr>now := t\<rparr>) = server_ok tok Z w"
    by (simp_all add: dns_of_def server_ok_def)
  ultimately show ?case by (simp add: eff_inv_def)
qed

section \<open>A sample execution\<close>

lemma finish_once_reading:
  assumes "reading lib out zero resp = Some v" and "200 \<le> rs_StatusCode resp" and "rs_StatusCode resp < 300"
  shows "\<exists>w1. finish_once lib cl meth path out zero (Inr resp) w = (Inr v, w1) \<and> ext w1 = ext w"
  using assms by (auto simp: finish_once_def reading_def Let_def split: option.splits if_splits sum.splits)

text \<open>An exchange that is served and answered at once.\<close>

lemma net_round:
  assumes dep: "deployed pf order" and run: "async pf (mock_serves pf order) s0 w0 ts s w n" and i: "i < length ts" "ts ! i = (c, Local p)"
    and p: "phase_job p = Some j" "net_job pf tok c j" "phase_zone pf Z (\<lambda>k. False) c p" "phase_request pf c s p \<noteq> None"
    and ttl: "in_int64 (s_rrsetTTL s)" and asc: "ascii_challenge (challenge_of c)" and srv: "server_ok tok Z w"
  shows "\<exists>x resp w1 m. net_exchange pf tok Z c x \<and> ex_phase x = p \<and> phase_request pf c s p = Some (ex_meth x, ex_path x, ex_body x) \<and>
    (\<exists>lg. ex_client x = default_client (pf_http pf) (pf_pick pf) lg tok) \<and>
    serve_request (pf_lib pf) order DefaultBaseURL (exchange_request x tok) (net_server (ext w)) = (Some resp, m) \<and>
    net_server (ext w1) = m \<and> server_ok tok Z w1 \<and> told pf Z c p resp (dns_of w) (dns_of w1) \<and>
    (\<forall>a' s' w'. receive pf c x 0 (Inr resp) s w1 = (a', s', w') \<longrightarrow>
       (\<exists>n'. async pf (mock_serves pf order) s0 w0 (ts[i := (c, a')]) s' w' n'))"
proof -
  obtain lg where cl: "jb_client j = as_HCloudClient (pf_lib pf) (default_client (pf_http pf) (pf_pick pf) lg tok)"
    using p(2) by (auto simp: net_job_def)
  obtain x where x: "exchange_of pf c s p (default_client (pf_http pf) (pf_pick pf) lg tok) = Some x"
    using p(1,4) by (auto simp: exchange_of_def)
  note xs = exchange_of_Some [OF x]
  have ex: "net_exchange pf tok Z c x" unfolding net_exchange_def using ttl x xs(1) p by auto
  obtain r w1 where st: "start_once (pf_lib pf) (ex_client x) (ex_ctx x) (ex_meth x) (ex_path x) (ex_body x) w = (r, w1)" by force
  from exchange_sent [OF dep ex st] obtain rx where r: "r = Inr (exchange_request x tok, rx)" and w1: "ext w1 = ext w" by auto
  obtain ro m where sv: "serve_request (pf_lib pf) order DefaultBaseURL (exchange_request x tok) (net_server (ext w)) = (ro, m)" by force
  have acc: "accepts tok (net_server (ext w))" "map_of (mk_zones (net_server (ext w))) = Z" using srv by (simp_all add: server_ok_def)
  from exchange_served [OF dep asc ex acc sv] xs(1) obtain resp where ro: "ro = Some resp" "accepts tok m"
      "mk_zones m = mk_zones (net_server (ext w))" "told pf Z c p resp (mock_recs (net_server (ext w))) (mock_recs m)"
    by auto
  let ?y = "(ext w)\<lparr>net_server := m\<rparr>"
  have "mock_serves pf order (exchange_request x tok) (ext w1) (Some resp) ?y"
    using sv ro(1) w1 by (simp add: mock_serves_def)
  note go = async_round [OF run i x p(1) cl st [unfolded r] this]
  show ?thesis
    by (rule exI [of _ x], rule exI [of _ resp], rule exI [of _ "w1\<lparr>ext := ?y\<rparr>"], rule exI [of _ m])
      (use ex xs sv ro acc(2) go in \<open>auto simp: dns_of_def server_ok_def\<close>)
qed

text \<open>A listing of the zones, and the creation of a record set where there is none.\<close>

lemma list_round:
  assumes dep: "deployed pf order" and run: "async pf (mock_serves pf order) s0 w0 ts s w n" and i: "i < length ts" "ts ! i = (c, Local (Listing j))"
    and j: "net_job pf tok c j" and ttl: "in_int64 (s_rrsetTTL s)" and asc: "ascii_challenge (challenge_of c)"
    and srv: "server_ok tok Z w" and Z: "Z (jb_apex j) = Some k"
  shows "\<exists>w' n'. async pf (mock_serves pf order) s0 w0 (ts[i := (c, Local (Storing j k))]) s w' n' \<and> server_ok tok Z w' \<and> dns_of w' = dns_of w"
proof -
  from net_round [OF dep run i _ j _ _ ttl asc srv] obtain x resp w1 where x: "ex_phase x = Listing j" "server_ok tok Z w1"
      "dns_of w1 = dns_of w" "lists (pf_lib pf) Z resp"
    and go: "\<forall>a' s' w'. receive pf c x 0 (Inr resp) s w1 = (a', s', w') \<longrightarrow>
       (\<exists>n'. async pf (mock_serves pf order) s0 w0 (ts[i := (c, a')]) s' w' n')"
    by (auto simp: told_def)
  from x(4) obtain v where v: "reading (pf_lib pf) (Some (dec_listZonesResponse (pf_lib pf))) zero_listZonesResponse resp = Some v"
      "rs_StatusCode resp = 200" "\<forall>n. map_option zone_ID (find (\<lambda>z. zone_Name z = n) (lz_Zones v)) = Z n"
    unfolding lists_def by blast
  have "map_option zone_ID (find (\<lambda>z. zone_Name z = jb_apex j) (lz_Zones v)) = Some k" using v(3) Z by simp
  moreover obtain w2 where f: "finish_once (pf_lib pf) (ex_client x) (ex_meth x) (ex_path x) (Some (dec_listZonesResponse (pf_lib pf)))
      zero_listZonesResponse (Inr resp) w1 = (Inr v, w2)" "ext w2 = ext w1"
    using finish_once_reading [OF v(1), of "ex_client x" "ex_meth x" "ex_path x" w1] v(2) by auto
  ultimately have "receive pf c x 0 (Inr resp) s w1 = (Local (Storing j k), s, w2)"
    using x(1) by (auto simp: receive_def Let_def settle_def local_def after_list_def)
  with go f(2) x(2,3) show ?thesis by (metis dns_of_def server_ok_def)
qed

lemma create_round:
  assumes dep: "deployed pf order" and run: "async pf (mock_serves pf order) s0 w0 ts s w n"
    and i: "i < length ts" "ts ! i = (CallPresent ch, Local (Acting j k))"
    and j: "net_job pf tok (CallPresent ch) j" and ttl: "in_int64 (s_rrsetTTL s)" and asc: "ascii_challenge ch"
    and srv: "server_ok tok Z w" and Z: "Z (jb_apex j) = Some k" and free: "dns_of w k = None"
  shows "\<exists>w' n'. async pf (mock_serves pf order) s0 w0 (ts[i := (CallPresent ch, Local (Finished None))]) s w' n'"
proof -
  have r: "routed pf ch (jb_cred j) (jb_ref j) (jb_apex j)" using j by (simp add: net_job_def)
  let ?q = "create_request (pf_uc pf) s (relativeRecordName (pf_uc pf) (ch_ResolvedFQDN ch) (jb_apex j)) (ch_Key ch)"
  have q: "sendable ?q" by (rule writable_request(1) [OF ascii_writable [OF r asc ttl] refl])
  have "phase_zone pf Z (\<lambda>k. False) (CallPresent ch) (Acting j k)" using Z challenge_apex_routed [OF r] by simp
  from net_round [OF dep run i _ j this _ ttl _ srv] asc obtain x resp w1 m lg where x: "ex_phase x = Acting j k"
      "ex_meth x = ''POST''" "ex_path x = zone_path k" "ex_body x = Some (json_print (marshal_CreateRRSetRequest ?q))"
      "ex_client x = default_client (pf_http pf) (pf_pick pf) lg tok"
      "serve_request (pf_lib pf) order DefaultBaseURL (exchange_request x tok) (net_server (ext w)) = (Some resp, m)"
    and go: "\<forall>a' s' w'. receive pf (CallPresent ch) x 0 (Inr resp) s w1 = (a', s', w') \<longrightarrow>
       (\<exists>n'. async pf (mock_serves pf order) s0 w0 (ts[i := (CallPresent ch, a')]) s' w' n')"
    by auto
  note net = deployed_client [OF dep, of lg tok]
  have acc: "accepts tok (net_server (ext w))" using srv by (simp add: server_ok_def)
  have "cl_baseURL (ex_client x) = DefaultBaseURL" by (simp add: x(5) default_client_def)
  with x(2-6) have "net_client.serve (ex_client x) tok (pf_lib pf) order ''POST'' (zone_path k)
      (Some (json_print (marshal_CreateRRSetRequest ?q))) (net_server (ext w)) = (Some resp, m)"
    by (simp add: net_client.serve_def [OF net] exchange_request_def)
  from net_client.create_served [OF net acc q this [unfolded x(5)]] free
  have resp: "resp = writeJSON 201 (JObj [(''rrset'', marshal_RRSet (mock_rrset k ?q))])"
    by (auto simp: dns_of_def domIff)
  have "is_ok (json_Unmarshal (pf_lib pf) (dec_rrsetEnvelope (pf_lib pf)) zero_RRSet (rs_Body resp))"
    unfolding resp using q by (intro create_answer) (simp_all add: sendable_def create_ascii_def ascii_records_iff)
  moreover have "rs_Body resp \<noteq> []" "rs_StatusCode resp = 201" by (simp_all add: resp writeJSON_def)
  ultimately obtain v where v: "reading (pf_lib pf) (Some (dec_rrsetEnvelope (pf_lib pf))) zero_RRSet resp = Some v"
      "rs_StatusCode resp = 201"
    by (auto simp: reading_def is_ok_iff)
  obtain w2 where "finish_once (pf_lib pf) (ex_client x) (ex_meth x) (ex_path x) (Some (dec_rrsetEnvelope (pf_lib pf)))
      zero_RRSet (Inr resp) w1 = (Inr v, w2)"
    using finish_once_reading [OF v(1), of "ex_client x" "ex_meth x" "ex_path x" w1] v(2) by auto
  then obtain w' where "receive pf (CallPresent ch) x 0 (Inr resp) s w1 = (Local (Finished None), s, w')"
    using x(1) by (auto simp: receive_def Let_def settle_def local_def after_create_def)
  with go show ?thesis by blast
qed

text \<open>Two calls for the same challenge, one of which runs to its end.\<close>

lemma sample_completes:
  "\<exists>s w n. async (sample_platform sample_net_http) (mock_serves (sample_platform sample_net_http) rev)
     (sample_solver sample_net_http) sample_net_world
     [(CallPresent sample_challenge, Local (Finished None)), (CallPresent sample_challenge, Local Starting)] s w n"
proof -
  let ?pf = "sample_platform sample_net_http" and ?s = "sample_solver sample_net_http" and ?w = sample_net_world
  let ?c = "CallPresent sample_challenge" and ?j = "sample_job sample_net_http sample_net_world"
  let ?Z = "[''example.com'' \<mapsto> 7] :: string \<rightharpoonup> int64"
  let ?run = "\<lambda>a s w n. async ?pf (mock_serves ?pf rev) ?s ?w [(?c, a), (?c, Local Starting)] s w n"
  have lib: "pf_lib ?pf = sample_lib" "pf_http ?pf = sample_net_http" "pf_pick ?pf = (\<lambda>_. True)" by (simp_all add: sample_platform_def)
  have j: "net_job ?pf ''s3cret'' ?c ?j" "jb_apex ?j = ''example.com''"
    using sample_routed [of sample_net_http] by (auto simp: net_job_def sample_job_def lib)
  have asc: "ascii_challenge sample_challenge" using sample_proper by (simp add: proper_challenge_def)
  have srv: "server_ok ''s3cret'' ?Z (emit e ?w)" "dns_of (emit e ?w) = Map.empty" for e
    using sample_accepts
    by (simp_all add: server_ok_def dns_of_def mock_recs_def sample_net_world_def newMockHCloudServer_def fun_eq_iff)
  have "?run (Local Starting) ?s ?w \<lparr>wr_sent = [], wr_answers = []\<rparr>" using async.arrive [OF async.arrive [OF async.start]] by simp
  from async_local [OF this, of 0, OF _ _ _ sample_starting]
  have "?run (Local (Looking ?j)) ?s (emit (SecretRead ''ns'' ''tok'') ?w) \<lparr>wr_sent = [], wr_answers = []\<rparr>" by simp
  from async_local [OF this, of 0, OF _ _ _ sample_looking]
  have "?run (Local (Listing ?j)) ?s (emit (SecretRead ''ns'' ''tok'') ?w) \<lparr>wr_sent = [], wr_answers = []\<rparr>" by simp
  from list_round [OF sample_deployed this, of 0, OF _ _ j(1) sample_rrsetTTL _ srv(1), of 7] asc j(2) srv(2)
  obtain w1 n1 where l: "?run (Local (Storing ?j 7)) ?s w1 n1" "server_ok ''s3cret'' ?Z w1" "dns_of w1 = Map.empty" by auto
  let ?s1 = "?s\<lparr>s_zones := Store (SecretRef_String (jb_ref ?j)) (jb_apex ?j) 7 w1 (s_zones ?s)\<rparr>"
  from async_local [OF l(1), of 0] have a: "?run (Local (Acting ?j 7)) ?s1 w1 n1" by simp
  have ttl: "in_int64 (s_rrsetTTL ?s1)" using sample_rrsetTTL by simp
  from create_round [OF sample_deployed a, of 0, OF _ _ j(1) ttl asc l(2)] j(2) l(3) show ?thesis by auto
qed

section \<open>Properties\<close>

text \<open>
  C3: concurrent calls over an asynchronous network. Any number of calls, also for the same zone
  and for the same challenge, run on a freshly initialised solver against the test server; their
  steps, retries and sleeps interleave in any order, requests reach the server late, repeatedly or
  never, also after their sender has given up, and answers are delayed or lost. At every moment
  every record set is as it was before the calls, or exactly what one of the calls for its zone
  asked for; once a call has reported success, the latter. Nothing is merged, duplicated or left
  half done, a call reports success only for a zone the server has or a clean-up, and the server
  never sees an unexpected request.
\<close>

theorem async_records_from_calls:
  assumes "deployed pf order"
    and "\<forall>opt \<in> set opts. solver_opt opt" and "Initialize pf (solver_New pf opts) (Some rc) = (None, s0)"
    and "in_int64 (s_rrsetTTL s0)" and "accepts tok (net_server (ext w0))"
    and "Z = map_of (mk_zones (net_server (ext w0)))"
    and "async pf (mock_serves pf order) s0 w0 ts s w n"
    and "list_all (\<lambda>t. proper_challenge pf tok (challenge_of (fst t))) ts"
    and "asked = (\<lambda>k. {snd (wanted pf c) | c. c \<in> fst ` set ts \<and> Z (fst (wanted pf c)) = Some k})"
  shows "(\<forall>k. mock_recs (net_server (ext w)) k = mock_recs (net_server (ext w0)) k \<or> mock_recs (net_server (ext w)) k \<in> asked k) \<and>
    (\<forall>c. (c, Local (Finished None)) \<in> set ts \<longrightarrow>
      (case Z (fst (wanted pf c)) of
         None \<Rightarrow> snd (wanted pf c) = None
       | Some k \<Rightarrow> mock_recs (net_server (ext w)) k \<in> asked k)) \<and>
    \<not> mk_failed (net_server (ext w))"
proof -
  have "system_ok pf tok Z s0 w0" using fresh_system_ok [OF assms(2-5)] assms(6) by simp
  from async_effects [OF assms(7,1) this assms(8)] have inv: "eff_inv pf tok Z (dns_of w0) ts s w n" .
  have T: "touched pf Z (fst ` set ts) (dns_of w) k \<longleftrightarrow> mock_recs (net_server (ext w)) k \<in> asked k" for k
    unfolding assms(9) touched_def dns_of_def by blast
  then have T_fun: "touched pf Z (fst ` set ts) (dns_of w) = (\<lambda>k. mock_recs (net_server (ext w)) k \<in> asked k)" by (rule ext)
  have "phase_zone pf Z (touched pf Z (fst ` set ts) (dns_of w)) c (Finished None)" if "(c, Local (Finished None)) \<in> set ts" for c
    using inv that by (fastforce simp: eff_inv_def Let_def)
  then have "\<forall>c. (c, Local (Finished None)) \<in> set ts \<longrightarrow> (case Z (fst (wanted pf c)) of None \<Rightarrow> snd (wanted pf c) = None
      | Some k \<Rightarrow> mock_recs (net_server (ext w)) k \<in> asked k)"
    unfolding T_fun phase_zone.simps by blast
  moreover have "\<forall>k. mock_recs (net_server (ext w)) k = mock_recs (net_server (ext w0)) k \<or> mock_recs (net_server (ext w)) k \<in> asked k"
      "\<not> mk_failed (net_server (ext w))"
    using inv by (simp_all add: eff_inv_def Let_def T) (simp_all add: dns_of_def server_ok_def accepts_def)
  ultimately show ?thesis by blast
qed

theorem async_records_from_calls_witness:
  "\<exists>ts s w n. async (sample_platform sample_net_http) (mock_serves (sample_platform sample_net_http) rev)
     (sample_solver sample_net_http) sample_net_world ts s w n \<and>
     (CallPresent sample_challenge, Local (Finished None)) \<in> set ts \<and> length ts = 2 \<and>
     mock_recs (net_server (ext w)) 7 = Some (challenge_records sample_unicode sample_challenge) \<and>
     \<not> mk_failed (net_server (ext w))"
proof -
  let ?pf = "sample_platform sample_net_http" and ?c = "CallPresent sample_challenge"
  let ?ts = "[(?c, Local (Finished None)), (?c, Local Starting)]"
  obtain s w n where run: "async ?pf (mock_serves ?pf rev) (sample_solver sample_net_http) sample_net_world ?ts s w n"
    using sample_completes by blast
  have "map_of (mk_zones (net_server (ext sample_net_world))) = [''example.com'' \<mapsto> 7]"
    by (simp add: sample_net_world_def newMockHCloudServer_def)
  moreover have "challenge_apex ?pf sample_challenge = ''example.com''"
    by (rule challenge_apex_routed [OF sample_routed])
  moreover have "pf_uc ?pf = sample_unicode" by (simp add: sample_platform_def sample_lib_def)
  ultimately have "mock_recs (net_server (ext w)) 7 = Some (challenge_records sample_unicode sample_challenge) \<and>
      \<not> mk_failed (net_server (ext w))"
    using async_records_from_calls [OF sample_deployed _ sample_init sample_rrsetTTL sample_accepts refl run _ refl]
    by (auto simp: sample_proper)
  with run show ?thesis by fastforce
qed

end
