(* ===== verification/Async_Outcome.thy ===== *)
theory Async_Outcome
  imports Async_Effects
begin

text \<open>
  Why calls fail over the asynchronous network. The test server answers every request of the
  solver in a way the client understands, so an error a call reports comes from the network or
  from its context, with two exceptions: the zone does not exist, or a clean-up removed the
  record set between the conflict \<open>Present\<close> ran into and the replacement it made for it.
\<close>

section \<open>Causes\<close>

text \<open>The innermost error is a transport error, which has no status, or the error of a context.\<close>

fun network_failure :: "goerr \<Rightarrow> bool" where
  "network_failure (EAPI a) \<longleftrightarrow> StatusCode a = 0"
| "network_failure (EWrap pre e post) \<longleftrightarrow> network_failure e"
| "network_failure (ECtx e) \<longleftrightarrow> True"
| "network_failure e \<longleftrightarrow> False"

lemma network_failure_not_Is: "network_failure e \<Longrightarrow> \<not> errors_Is e s"
  by (induction e rule: network_failure.induct) (auto simp: APIError_Is_def split: sentinel.splits)

lemma network_failure_wrapError [simp]: "network_failure (wrapError u stage n z e) = network_failure e"
  by (simp add: wrapError_def)

section \<open>Answers\<close>

text \<open>The client reads a result from the answer.\<close>

definition succeeds :: "golib \<Rightarrow> 'a decoder \<Rightarrow> 'a \<Rightarrow> http_response \<Rightarrow> bool" where
  "succeeds lib decode zero resp \<longleftrightarrow> 200 \<le> rs_StatusCode resp \<and> rs_StatusCode resp < 300 \<and> reading lib (Some decode) zero resp \<noteq> None"

lemma succeedsI:
  "is_ok (json_Unmarshal lib decode zero (rs_Body (writeJSON 201 v))) \<Longrightarrow> succeeds lib decode zero (writeJSON 201 v)"
  unfolding succeeds_def reading_def is_ok_iff by (auto simp: writeJSON_def)

text \<open>What the server says, by whether the record set was there when the request arrived.\<close>

definition answers :: "network platform \<Rightarrow> (string \<rightharpoonup> int64) \<Rightarrow> dns \<Rightarrow> solver_call \<Rightarrow> network phase \<Rightarrow> http_response \<Rightarrow> bool" where
  "answers pf Z D c p resp \<longleftrightarrow> (case p of
     Listing j \<Rightarrow> lists (pf_lib pf) Z resp
   | Acting j k \<Rightarrow> (case c of
        CallPresent ch \<Rightarrow> if D k = None then succeeds (pf_lib pf) (dec_rrsetEnvelope (pf_lib pf)) zero_RRSet resp else rs_StatusCode resp = 409
      | CallCleanUp ch \<Rightarrow> rs_StatusCode resp = (if D k = None then 404 else 204))
   | Replacing j k \<Rightarrow> if D k = None then rs_StatusCode resp = 404 else succeeds (pf_lib pf) (dec_actionEnvelope (pf_lib pf)) zero_Action resp
   | _ \<Rightarrow> True)"

text \<open>
  What is known of an answer later on, when the record set may have changed: \<open>H k\<close> holds if the
  record set of zone \<open>k\<close> was there at some time, \<open>N k\<close> if it was not although it had been before.
\<close>

definition fits ::
  "network platform \<Rightarrow> (string \<rightharpoonup> int64) \<Rightarrow> (int64 \<Rightarrow> bool) \<Rightarrow> (int64 \<Rightarrow> bool) \<Rightarrow> solver_call \<Rightarrow> network phase \<Rightarrow> http_response \<Rightarrow> bool" where
  "fits pf Z H N c p resp \<longleftrightarrow> (case p of
     Listing j \<Rightarrow> lists (pf_lib pf) Z resp
   | Acting j k \<Rightarrow> (case c of
        CallPresent ch \<Rightarrow> succeeds (pf_lib pf) (dec_rrsetEnvelope (pf_lib pf)) zero_RRSet resp \<or> rs_StatusCode resp = 409 \<and> H k
      | CallCleanUp ch \<Rightarrow> rs_StatusCode resp = 204 \<or> rs_StatusCode resp = 404)
   | Replacing j k \<Rightarrow> succeeds (pf_lib pf) (dec_actionEnvelope (pf_lib pf)) zero_Action resp \<or> rs_StatusCode resp = 404 \<and> N k
   | _ \<Rightarrow> True)"

lemma fits_mono:
  "fits pf Z H N c p resp \<Longrightarrow> (\<And>k. H k \<Longrightarrow> H' k) \<Longrightarrow> (\<And>j k. p = Replacing j k \<Longrightarrow> N k \<Longrightarrow> N' k) \<Longrightarrow>
    fits pf Z H' N' c p resp"
  by (cases p; cases c) (auto simp: fits_def)

lemma answers_fits:
  "answers pf Z D c p resp \<Longrightarrow> (\<And>k. D k \<noteq> None \<Longrightarrow> H k) \<Longrightarrow> (\<And>j k. p = Replacing j k \<Longrightarrow> D k = None \<Longrightarrow> N k) \<Longrightarrow>
    fits pf Z H N c p resp"
  by (cases p; cases c) (auto simp: answers_def fits_def split: if_splits)

context net_client
begin

lemma set_answered:
  assumes "accepts tok m" and "ascii_records (srq_Records q)"
    and "serve ''POST'' (rrset_path i n t @ ''/actions/set_records'') (Some (json_print (marshal_SetRRSetRecordsRequest q))) m = (Some resp, m')"
  shows "if mock_recs m i = None then rs_StatusCode resp = 404 else succeeds lib (dec_actionEnvelope lib) zero_Action resp"
proof -
  obtain p b where "serve ''POST'' (rrset_path i n t @ ''/actions/set_records'') (Some (json_print (marshal_SetRRSetRecordsRequest q))) m =
      map_prod Some id (serveSetRecords i q (noted ''POST'' p b (''Bearer '' @ tok) m))"
    using serve_set [OF assms(1,2)] by blast
  then have "serveSetRecords i q (noted ''POST'' p b (''Bearer '' @ tok) m) = (resp, m')"
    using assms(3) by (cases "serveSetRecords i q (noted ''POST'' p b (''Bearer '' @ tok) m)") auto
  moreover have "succeeds lib (dec_actionEnvelope lib) zero_Action (writeJSON 201 (JObj [(''action'',
      JObj [(''command'', JStr ''set_rrset_records''), (''id'', JNum (Itoa 1509851)), (''status'', JStr ''running'')])]))"
    by (rule succeedsI [OF action_answer])
  ultimately show ?thesis
    by (auto simp: serveSetRecords_def writeError_def mock_recs_def noted_def writeJSON_def split: option.splits)
qed

lemma delete_answered:
  assumes "accepts tok m" and "serve ''DELETE'' (rrset_path i n t) None m = (Some resp, m')"
  shows "rs_StatusCode resp = (if mock_recs m i = None then 404 else 204)"
proof -
  obtain p where "serve ''DELETE'' (rrset_path i n t) None m = map_prod Some id (serveDelete i (noted ''DELETE'' p [] (''Bearer '' @ tok) m))"
    using serve_delete [OF assms(1)] by blast
  then have "serveDelete i (noted ''DELETE'' p [] (''Bearer '' @ tok) m) = (resp, m')"
    using assms(2) by (cases "serveDelete i (noted ''DELETE'' p [] (''Bearer '' @ tok) m)") auto
  then show ?thesis by (auto simp: serveDelete_def writeError_def writeJSON_def mock_recs_def noted_def split: option.splits)
qed

lemma create_answered:
  assumes "accepts tok m" and "sendable q"
    and "serve ''POST'' (zone_path i) (Some (json_print (marshal_CreateRRSetRequest q))) m = (Some resp, m')"
  shows "if mock_recs m i = None then succeeds lib (dec_rrsetEnvelope lib) zero_RRSet resp else rs_StatusCode resp = 409"
proof (cases "i \<in> dom (mock_recs m)")
  case False
  with create_served [OF assms] have resp: "resp = writeJSON 201 (JObj [(''rrset'', marshal_RRSet (mock_rrset i q))])" by simp
  have "is_ok (json_Unmarshal lib (dec_rrsetEnvelope lib) zero_RRSet (rs_Body resp))"
    unfolding resp using assms(2) by (intro create_answer) (simp_all add: sendable_def create_ascii_def ascii_records_iff)
  with False succeedsI resp show ?thesis by (auto simp: domIff)
qed (use create_served [OF assms] in \<open>auto simp: domIff\<close>)

end

lemma exchange_answered:
  assumes dep: "deployed pf order" and ch: "ascii_challenge (challenge_of c)" and x: "net_exchange pf tok Z c x"
    and m: "accepts tok m" "map_of (mk_zones m) = Z"
    and sv: "serve_request (pf_lib pf) order DefaultBaseURL (exchange_request x tok) m = (Some resp, m')"
  shows "answers pf Z (mock_recs m) c (ex_phase x) resp"
proof -
  obtain s j cl where rq: "phase_request pf c s (ex_phase x) = Some (ex_meth x, ex_path x, ex_body x)"
    and j: "phase_job (ex_phase x) = Some j" and net: "net_client cl tok (pf_lib pf) order"
    and serve: "net_client.serve cl tok (pf_lib pf) order (ex_meth x) (ex_path x) (ex_body x) m = (Some resp, m')"
    and wr: "sendable (create_request (pf_uc pf) s (relativeRecordName (pf_uc pf) (ch_ResolvedFQDN (challenge_of c)) (jb_apex j)) (ch_Key (challenge_of c)))"
      "ascii_records (challenge_records (pf_uc pf) (challenge_of c))"
    by (rule net_exchange_serve [OF dep ch x sv])
  show ?thesis
  proof (cases "ex_phase x")
    case (Listing k)
    with exchange_served [OF dep ch x m sv] show ?thesis by (simp add: told_def answers_def)
  next
    case (Acting k i)
    show ?thesis
    proof (cases c)
      case (CallPresent ch')
      with net_client.create_answered [OF net m(1) wr(1), of i resp m'] Acting rq serve j show ?thesis
        by (auto simp: answers_def)
    next
      case (CallCleanUp ch')
      with Acting rq have "''DELETE'' = ex_meth x" "None = ex_body x" "\<exists>n t. rrset_path i n t = ex_path x" by auto
      with net_client.delete_answered [OF net m(1)] serve have "rs_StatusCode resp = (if mock_recs m i = None then 404 else 204)" by metis
      with Acting CallCleanUp show ?thesis by (simp add: answers_def)
    qed
  next
    case (Replacing k i)
    let ?q = "\<lparr>srq_Records = challenge_records (pf_uc pf) (challenge_of c)\<rparr>"
    have asc: "ascii_records (srq_Records ?q)" using wr(2) by simp
    from Replacing rq obtain n t where "''POST'' = ex_meth x" "rrset_path i n t @ ''/actions/set_records'' = ex_path x"
        "ex_body x = Some (json_print (marshal_SetRRSetRecordsRequest ?q))"
      by (auto simp: challenge_records_def)
    with serve have "net_client.serve cl tok (pf_lib pf) order ''POST'' (rrset_path i n t @ ''/actions/set_records'')
        (Some (json_print (marshal_SetRRSetRecordsRequest ?q))) m = (Some resp, m')" by simp
    from net_client.set_answered [OF net m(1) asc this] Replacing show ?thesis by (auto simp: answers_def)
  qed (use rq in auto)
qed

section \<open>Steps of a thread\<close>

text \<open>
  \<open>N k\<close> says that a clean-up for zone \<open>k\<close> has been called, \<open>H k\<close> that one has or the record set of
  the zone exists. Neither ceases to hold.
\<close>

definition excused :: "network platform \<Rightarrow> (string \<rightharpoonup> int64) \<Rightarrow> (int64 \<Rightarrow> bool) \<Rightarrow> solver_call \<Rightarrow> goerr \<Rightarrow> bool" where
  "excused pf Z N c err \<longleftrightarrow> network_failure err \<or>
     (\<exists>ch. c = CallPresent ch) \<and> errors_Is err ErrNotFound \<and>
     (case Z (fst (wanted pf c)) of None \<Rightarrow> True | Some k \<Rightarrow> N k)"

fun stand :: "network platform \<Rightarrow> (string \<rightharpoonup> int64) \<Rightarrow> (int64 \<Rightarrow> bool) \<Rightarrow> (int64 \<Rightarrow> bool) \<Rightarrow> solver_call \<Rightarrow> network phase \<Rightarrow> bool" where
  "stand pf Z H N c (Replacing j k) \<longleftrightarrow> H k"
| "stand pf Z H N c (Forgetting j err) \<longleftrightarrow> False"
| "stand pf Z H N c (Finished (Some err)) \<longleftrightarrow> excused pf Z N c err"
| "stand pf Z H N c p \<longleftrightarrow> True"

primrec stand_aphase :: "network platform \<Rightarrow> (string \<rightharpoonup> int64) \<Rightarrow> (int64 \<Rightarrow> bool) \<Rightarrow> (int64 \<Rightarrow> bool) \<Rightarrow> solver_call \<Rightarrow> network aphase \<Rightarrow> bool" where
  "stand_aphase pf Z H N c (Local p) \<longleftrightarrow> stand pf Z H N c p"
| "stand_aphase pf Z H N c (Trying x k e) \<longleftrightarrow> stand pf Z H N c (ex_phase x) \<and> pred_option network_failure e"
| "stand_aphase pf Z H N c (Asleep x k t) \<longleftrightarrow> stand pf Z H N c (ex_phase x)"
| "stand_aphase pf Z H N c (Ready x k) \<longleftrightarrow> stand pf Z H N c (ex_phase x)"
| "stand_aphase pf Z H N c (Waiting x k i) \<longleftrightarrow> stand pf Z H N c (ex_phase x)"

lemma stand_mono:
  "stand pf Z H N c p \<Longrightarrow> (\<And>k. H k \<Longrightarrow> H' k) \<Longrightarrow> (\<And>k. N k \<Longrightarrow> N' k) \<Longrightarrow> stand pf Z H' N' c p"
  by (induction pf Z H N c p rule: stand.induct) (auto simp: excused_def split: option.splits)

lemma stand_aphase_mono:
  "stand_aphase pf Z H N c a \<Longrightarrow> (\<And>k. H k \<Longrightarrow> H' k) \<Longrightarrow> (\<And>k. N k \<Longrightarrow> N' k) \<Longrightarrow> stand_aphase pf Z H' N' c a"
  by (cases a) (auto intro: stand_mono)

lemma give_up_stand:
  assumes "network_failure err" and "local (give_up pf c x err s w) = (a', s', w')" and "stand pf Z H N c (ex_phase x)"
  shows "stand_aphase pf Z H N c a'"
  using assms network_failure_not_Is [OF assms(1)]
  by (cases "ex_phase x"; cases c)
    (auto simp: local_def give_up_def after_defs resolve_failed_def Let_def excused_def)

text \<open>After an attempt: a transport error leads to the next round, an answer to the code after the call.\<close>

lemma finish_stand:
  assumes fin: "(case finish_once lib cl meth path out zero res w of (r, w1) \<Rightarrow> settle x k r fin s w1) = (a', s', w')"
    and x: "stand pf Z H N c (ex_phase x)"
    and ans: "\<And>resp r w1. res = Inr resp \<Longrightarrow> answered lib out zero resp r \<Longrightarrow>
      (\<forall>e. r = Inl e \<longrightarrow> \<not> isRetryable e) \<and> stand pf Z H N c (fst (fin r s w1))"
  shows "stand_aphase pf Z H N c a'"
proof -
  obtain r w1 where f: "finish_once lib cl meth path out zero res w = (r, w1)" by force
  show ?thesis
  proof (cases res)
    case (Inl err)
    with f fin x show ?thesis by (auto simp: finish_once_def settle_def isRetryable_def)
  next
    case (Inr resp)
    note a = ans [OF Inr finish_once_answered [OF f [unfolded Inr]], of w1]
    with f fin show ?thesis by (cases r; cases "fin r s w1") (auto simp: settle_def local_def)
  qed
qed

lemma after_list_stand:
  assumes "lists (pf_lib pf) Z resp" and "fst (wanted pf c) = jb_apex j"
    and r: "answered (pf_lib pf) (Some (dec_listZonesResponse (pf_lib pf))) zero_listZonesResponse resp r"
  shows "(\<forall>e. r = Inl e \<longrightarrow> \<not> isRetryable e) \<and> stand pf Z H N c (fst (after_list pf c j (map_sum id lz_Zones r) s w))"
proof -
  obtain v where v: "r = Inr v" "\<forall>n. map_option zone_ID (find (\<lambda>z. zone_Name z = n) (lz_Zones v)) = Z n"
    using assms(1) r by (auto simp: lists_def answered_def)
  have "Z (jb_apex j) = None" if "find (\<lambda>z. zone_Name z = jb_apex j) (lz_Zones v) = None"
    using v(2) that by (metis option.map(1))
  with v(1) assms(2) show ?thesis
    by (cases c) (auto simp: after_list_def resolve_failed_def excused_def not_found_error_def APIError_Is_def split: option.split)
qed

lemma after_create_stand:
  assumes "succeeds lib (dec_rrsetEnvelope lib) zero_RRSet resp \<or> rs_StatusCode resp = 409 \<and> H i"
    and "answered lib (Some (dec_rrsetEnvelope lib)) zero_RRSet resp r"
  shows "(\<forall>e. r = Inl e \<longrightarrow> \<not> isRetryable e) \<and> stand pf Z H N c (fst (after_create pf ch j i r s w))"
  using assms by (auto simp: succeeds_def answered_def isRetryable_def after_create_def APIError_Is_def)

lemma after_delete_stand:
  assumes "rs_StatusCode resp = 204 \<or> rs_StatusCode resp = 404" and "answered lib None () resp r"
  shows "(\<forall>e. r = Inl e \<longrightarrow> \<not> isRetryable e) \<and> stand pf Z H N c (fst (after_delete pf ch j i r s w))"
  using assms by (auto simp: answered_def reading_def isRetryable_def after_delete_def Let_def APIError_Is_def)

lemma after_set_stand:
  assumes "succeeds lib (dec_actionEnvelope lib) zero_Action resp \<or> rs_StatusCode resp = 404 \<and> N i"
    and "answered lib (Some (dec_actionEnvelope lib)) zero_Action resp r" and "Z (fst (wanted pf (CallPresent ch))) = Some i"
  shows "(\<forall>e. r = Inl e \<longrightarrow> \<not> isRetryable e) \<and> stand pf Z H N (CallPresent ch) (fst (after_set pf ch j i r s w))"
  using assms by (auto simp: succeeds_def answered_def isRetryable_def after_set_def excused_def APIError_Is_def)

lemma receive_stand:
  assumes x: "stand pf Z H N c (ex_phase x)" and z: "phase_zone pf Z (\<lambda>k. False) c (ex_phase x)"
    and j: "phase_job (ex_phase x) = Some j" "fst (wanted pf c) = jb_apex j"
    and g: "\<And>resp. res = Inr resp \<Longrightarrow> fits pf Z H N c (ex_phase x) resp"
    and rc: "receive pf c x k res s w = (a', s', w')"
  shows "stand_aphase pf Z H N c a'"
proof (cases "ex_phase x")
  case (Listing j')
  show ?thesis
    by (rule finish_stand [OF rc [unfolded receive_def Let_def Listing phase.case] x])
      (use g Listing j in \<open>simp add: after_list_stand fits_def\<close>)
next
  case (Acting j' i)
  show ?thesis
  proof (cases c)
    case (CallPresent ch)
    show ?thesis
      by (rule finish_stand [OF rc [unfolded receive_def Let_def Acting phase.case CallPresent solver_call.case]
            x [unfolded CallPresent], folded CallPresent])
        (use g Acting CallPresent in \<open>simp add: after_create_stand fits_def\<close>)
  next
    case (CallCleanUp ch)
    show ?thesis
      by (rule finish_stand [OF rc [unfolded receive_def Let_def Acting phase.case CallCleanUp solver_call.case]
            x [unfolded CallCleanUp], folded CallCleanUp])
        (use g Acting CallCleanUp in \<open>simp add: after_delete_stand fits_def\<close>)
  qed
next
  case (Replacing j' i)
  with z obtain ch where k: "Z (fst (wanted pf c)) = Some i" "c = CallPresent ch" by auto
  show ?thesis
    by (rule finish_stand [OF rc [unfolded receive_def Let_def Replacing phase.case] x])
      (use g Replacing k in \<open>simp add: after_set_stand fits_def\<close>)
qed (use rc x in \<open>auto simp: receive_def Let_def\<close>)

lemma local_stand:
  assumes inv: "solver_inv pf s w" and ch: "proper_challenge pf tok (challenge_of c)" and p: "stand pf Z H N c p"
    and api: "phase_request pf c s p = None" and st: "thread_step pf c p s w = (p', s', w')"
  shows "stand pf Z H N c p'"
proof (cases p)
  case Starting
  obtain cr ref apex where r: "routed pf (challenge_of c) cr ref apex" and h: "hands_out pf tok ref"
    using ch by (auto simp: proper_challenge_def)
  have prod: "production pf s" using inv by (simp add: solver_inv_def)
  obtain lg w1 where "prepare pf s (contextFor s w) (challenge_of c) w = (Inr (cr, ref,
      as_HCloudClient (pf_lib pf) (default_client (pf_http pf) (pf_pick pf) lg tok), apex), w1)"
    by (rule deployed_prepare [OF prod r h])
  with Starting st show ?thesis by auto
next
  case (Acting j i)
  with api show ?thesis by (cases c) simp_all
qed (use p api st in \<open>auto split: prod.splits option.splits\<close>)

lemma async_step_stand:
  assumes dep: "deployed pf order" and ch: "proper_challenge pf tok (challenge_of c)" and inv: "solver_inv pf s w"
    and a: "net_aphase pf tok Z T (wr_sent n) c a" and p: "stand_aphase pf Z H N c a"
    and g: "\<And>i resp. (i, resp) \<in> set (wr_answers n) \<Longrightarrow> fits pf Z H N (ev_call (wr_sent n ! i)) (ev_phase (wr_sent n ! i)) resp"
    and st: "async_step pf c (a, s, w) n (a', s', w') n'"
  shows "stand_aphase pf Z H N c a' \<and> wr_answers n' = wr_answers n \<and>
    (\<exists>E. wr_sent n' = wr_sent n @ E \<and> (\<forall>ev \<in> set E. stand pf Z H N (ev_call ev) (ev_phase ev)))"
  using st
proof cases
  case (local q q')
  with p local_stand [OF inv ch _ local(4,5)] show ?thesis by simp
next
  case (begin_call cl lg tok' q x j)
  then have "exchange_of pf c s q cl = Some x" by simp
  from exchange_of_Some(1) [OF this] begin_call p show ?thesis by simp
next
  case (exhausted x k err)
  with p give_up_stand [of err pf c x s w a' s' w' Z H N] show ?thesis by simp
next
  case (interrupted x e k wake)
  with p give_up_stand [of "ECtx e" pf c x s w a' s' w' Z H N] show ?thesis by simp
next
  case (unsent x err w1 k)
  with a exchange_sent [OF dep _ unsent(4)] show ?thesis by auto
next
  case (answer i resp x k)
  with a have x: "net_exchange pf tok Z c x" and i: "ev_call (wr_sent n ! i) = c" "ev_phase (wr_sent n ! i) = ex_phase x" by simp_all
  obtain j where z: "phase_job (ex_phase x) = Some j" "fst (wanted pf c) = jb_apex j" "phase_zone pf Z (\<lambda>k. False) c (ex_phase x)"
    by (rule exchange_zone [OF x])
  have "fits pf Z H N c (ex_phase x) resp" using g [OF answer(4)] i by simp
  with receive_stand [OF _ z(3,1,2), of H N "Inr resp" k s w a' s' w'] answer p show ?thesis by simp
next
  case (fail x k i err)
  with a have x: "net_exchange pf tok Z c x" by simp
  obtain j where z: "phase_job (ex_phase x) = Some j" "fst (wanted pf c) = jb_apex j" "phase_zone pf Z (\<lambda>k. False) c (ex_phase x)"
    by (rule exchange_zone [OF x])
  from receive_stand [OF _ z(3,1,2), of H N "Inl err" k s w a' s' w'] fail p show ?thesis by simp
qed (use p in auto)

section \<open>Executions\<close>

definition removal :: "network platform \<Rightarrow> (string \<rightharpoonup> int64) \<Rightarrow> solver_call set \<Rightarrow> int64 \<Rightarrow> bool" where
  "removal pf Z C k \<longleftrightarrow> (\<exists>ch. CallCleanUp ch \<in> C \<and> Z (challenge_apex pf ch) = Some k)"

definition kept :: "network platform \<Rightarrow> (string \<rightharpoonup> int64) \<Rightarrow> solver_call set \<Rightarrow> dns \<Rightarrow> int64 \<Rightarrow> bool" where
  "kept pf Z C D k \<longleftrightarrow> removal pf Z C k \<or> D k \<noteq> None"

lemma removal_mono: "removal pf Z C k \<Longrightarrow> C \<subseteq> C' \<Longrightarrow> removal pf Z C' k"
  by (auto simp: removal_def)

lemma told_kept:
  assumes "told pf Z c p resp D D'" and "c \<in> C" and "kept pf Z C D k"
  shows "kept pf Z C D' k"
  using assms by (cases c) (auto simp: told_def kept_def removal_def split: phase.splits if_splits)

definition out_inv :: "network platform \<Rightarrow> (string \<rightharpoonup> int64) \<Rightarrow> network athread list \<Rightarrow> network world \<Rightarrow> network wire \<Rightarrow> bool" where
  "out_inv pf Z ts w n \<longleftrightarrow> (let N = removal pf Z (fst ` set ts); H = kept pf Z (fst ` set ts) (dns_of w) in
     (\<forall>t \<in> set ts. stand_aphase pf Z H N (fst t) (snd t)) \<and>
     (\<forall>ev \<in> set (wr_sent n). stand pf Z H N (ev_call ev) (ev_phase ev)) \<and>
     (\<forall>(i, resp) \<in> set (wr_answers n). i < length (wr_sent n) \<and> fits pf Z H N (ev_call (wr_sent n ! i)) (ev_phase (wr_sent n ! i)) resp))"

lemma out_inv_grow:
  assumes inv: "out_inv pf Z ts w n" and C: "fst ` set ts \<subseteq> fst ` set ts'"
    and H: "\<And>k. kept pf Z (fst ` set ts) (dns_of w) k \<Longrightarrow> kept pf Z (fst ` set ts') (dns_of w') k"
    and ts: "\<And>t. t \<in> set ts' \<Longrightarrow> t \<in> set ts \<or>
      stand_aphase pf Z (kept pf Z (fst ` set ts') (dns_of w')) (removal pf Z (fst ` set ts')) (fst t) (snd t)"
    and n: "wr_sent n' = wr_sent n @ E" "\<And>ev. ev \<in> set E \<Longrightarrow>
        stand pf Z (kept pf Z (fst ` set ts') (dns_of w')) (removal pf Z (fst ` set ts')) (ev_call ev) (ev_phase ev)"
      "wr_answers n' = wr_answers n @ A" "\<And>i resp. (i, resp) \<in> set A \<Longrightarrow> i < length (wr_sent n) \<and>
        fits pf Z (kept pf Z (fst ` set ts') (dns_of w')) (removal pf Z (fst ` set ts')) (ev_call (wr_sent n ! i)) (ev_phase (wr_sent n ! i)) resp"
  shows "out_inv pf Z ts' w' n'"
proof -
  let ?N = "removal pf Z (fst ` set ts)" and ?H = "kept pf Z (fst ` set ts) (dns_of w)"
  let ?N' = "removal pf Z (fst ` set ts')" and ?H' = "kept pf Z (fst ` set ts') (dns_of w')"
  have N: "?N' k" if "?N k" for k using removal_mono [OF that C] .
  have "stand_aphase pf Z ?H' ?N' (fst t) (snd t)" if "t \<in> set ts'" for t
    using ts [OF that] inv stand_aphase_mono [of pf Z ?H ?N "fst t" "snd t" ?H' ?N'] H N by (auto simp: out_inv_def Let_def)
  moreover have "stand pf Z ?H' ?N' (ev_call ev) (ev_phase ev)" if "ev \<in> set (wr_sent n')" for ev
    using that inv n(1,2) stand_mono [of pf Z ?H ?N "ev_call ev" "ev_phase ev" ?H' ?N'] H N by (auto simp: out_inv_def Let_def)
  moreover have "i < length (wr_sent n') \<and> fits pf Z ?H' ?N' (ev_call (wr_sent n' ! i)) (ev_phase (wr_sent n' ! i)) resp"
    if "(i, resp) \<in> set (wr_answers n')" for i resp
  proof -
    have "i < length (wr_sent n) \<and> fits pf Z ?H' ?N' (ev_call (wr_sent n ! i)) (ev_phase (wr_sent n ! i)) resp"
    proof (cases "(i, resp) \<in> set A")
      case False
      with that n(3) inv have "i < length (wr_sent n)" "fits pf Z ?H ?N (ev_call (wr_sent n ! i)) (ev_phase (wr_sent n ! i)) resp"
        by (auto simp: out_inv_def Let_def)
      with fits_mono [OF this(2) H N] show ?thesis by simp
    qed (use n(4) in simp)
    then show ?thesis by (simp add: n(1) nth_append)
  qed
  ultimately show ?thesis by (auto simp: out_inv_def Let_def)
qed

lemma out_inv_step:
  assumes dep: "deployed pf order" and ih: "out_inv pf Z ts w n" and eff: "eff_inv pf tok Z R ts s w n"
    and ch: "proper_challenge pf tok (challenge_of c)" and inv: "solver_inv pf s w"
    and i: "i < length ts" "ts ! i = (c, a)" and st: "async_step pf c (a, s, w) n (a', s', w') n'"
  shows "out_inv pf Z (ts[i := (c, a')]) w' n'"
proof -
  let ?N = "removal pf Z (fst ` set ts)" and ?H = "kept pf Z (fst ` set ts) (dns_of w)"
  have ts: "fst ` set (ts[i := (c, a')]) = fst ` set ts" by (rule calls_update(1) [OF i])
  have t: "(c, a) \<in> set ts" using i by (metis nth_mem)
  note now = eff_inv_thread [OF eff t refl]
  have out: "stand_aphase pf Z ?H ?N c a"
      "\<And>i resp. (i, resp) \<in> set (wr_answers n) \<Longrightarrow> fits pf Z ?H ?N (ev_call (wr_sent n ! i)) (ev_phase (wr_sent n ! i)) resp"
    using ih t by (fastforce simp: out_inv_def Let_def)+
  have D: "dns_of w' = dns_of w" using async_step_effects [OF dep ch inv now st] by (simp add: dns_of_def)
  obtain E where E: "stand_aphase pf Z ?H ?N c a'" "wr_answers n' = wr_answers n" "wr_sent n' = wr_sent n @ E"
      "\<forall>ev \<in> set E. stand pf Z ?H ?N (ev_call ev) (ev_phase ev)"
    using async_step_stand [OF dep ch inv now(3) out st] by blast
  show ?thesis
  proof (rule out_inv_grow [OF ih, where E = E and A = "[]"])
    show "t \<in> set ts \<or> stand_aphase pf Z (kept pf Z (fst ` set (ts[i := (c, a')])) (dns_of w'))
        (removal pf Z (fst ` set (ts[i := (c, a')]))) (fst t) (snd t)" if "t \<in> set (ts[i := (c, a')])" for t
      using that E(1) unfolding ts D by (auto dest!: set_update_subset_insert [THEN subsetD])
  qed (use E D in \<open>auto simp: ts\<close>)
qed

lemma out_inv_serve:
  assumes dep: "deployed pf order" and ih: "out_inv pf Z ts w n" and eff: "eff_inv pf tok Z R ts s w n"
    and i: "i < length (wr_sent n)" and ch: "list_all (\<lambda>t. proper_challenge pf tok (challenge_of (fst t))) ts"
    and sv: "mock_serves pf order (ev_request (wr_sent n ! i)) (ext w) ro x"
  shows "out_inv pf Z ts (w\<lparr>ext := x\<rparr>)
    (n\<lparr>wr_answers := wr_answers n @ (case ro of None \<Rightarrow> [] | Some resp \<Rightarrow> [(i, resp)])\<rparr>)"
proof -
  let ?ev = "wr_sent n ! i" and ?N = "removal pf Z (fst ` set ts)" and ?w = "w\<lparr>ext := x\<rparr>"
  let ?H = "kept pf Z (fst ` set ts) (dns_of w)" and ?H' = "kept pf Z (fst ` set ts) (dns_of ?w)"
  obtain e resp m where r: "ro = Some resp" and ev: "ev_call ?ev \<in> fst ` set ts" and asc: "ascii_challenge (challenge_of (ev_call ?ev))"
    and e: "net_exchange pf tok Z (ev_call ?ev) e" "ev_phase ?ev = ex_phase e"
    and m: "serve_request (pf_lib pf) order DefaultBaseURL (exchange_request e tok) (net_server (ext w)) = (Some resp, m)"
    and told: "told pf Z (ev_call ?ev) (ev_phase ?ev) resp (dns_of w) (dns_of ?w)"
    by (rule eff_inv_served [OF dep eff i ch sv])
  have srv: "accepts tok (net_server (ext w))" "map_of (mk_zones (net_server (ext w))) = Z"
    using eff by (simp_all add: eff_inv_def Let_def server_ok_def)
  have K: "?H' k" if "?H k" for k by (rule told_kept [OF told ev that])
  have st: "stand pf Z ?H ?N (ev_call ?ev) (ev_phase ?ev)" using ih i by (simp add: out_inv_def Let_def)
  have had: "?H k" if "mock_recs (net_server (ext w)) k \<noteq> None" for k using that by (simp add: kept_def dns_of_def)
  have "fits pf Z ?H' ?N (ev_call ?ev) (ev_phase ?ev) resp"
    by (rule answers_fits [OF exchange_answered [OF dep asc e(1) srv m, folded e(2)]])
      (use st K had in \<open>auto simp: kept_def dns_of_def\<close>)
  with K r i show ?thesis
    by (intro out_inv_grow [OF ih, where E = "[]" and A = "[(i, resp)]"]) auto
qed

lemma async_outcome:
  assumes "async pf (mock_serves pf order) s0 w0 ts s w n" and "deployed pf order" and "system_ok pf tok Z s0 w0"
    and "list_all (\<lambda>t. proper_challenge pf tok (challenge_of (fst t))) ts"
  shows "out_inv pf Z ts w n"
  using assms
proof (induction rule: async.induct)
  case start
  then show ?case by (simp add: out_inv_def)
next
  case (arrive ts s w n c)
  then have ih: "out_inv pf Z ts w n" by simp
  show ?case
    by (rule out_inv_grow [OF ih, where E = "[]" and A = "[]"]) (auto simp: kept_def removal_def)
next
  case (step ts s w n i c a a' s' w' n')
  have ts: "fst ` set (ts[i := (c, a')]) = fst ` set ts" by (rule calls_update(1) [OF step.hyps(2,3)])
  have proper: "proper_challenge pf tok (challenge_of c')" if "c' \<in> fst ` set ts" for c'
    using step.prems(3) that unfolding ts [symmetric] by (auto simp: list_all_iff)
  then have all: "list_all (\<lambda>t. proper_challenge pf tok (challenge_of (fst t))) ts" by (auto simp: list_all_iff)
  have url: "url_ParseError (pf_lib pf) (DefaultBaseURL @ ''/v1/zones'') = None"
    using step.prems(1) by (simp add: deployed_def endpoint_urls_ok_def)
  have "solver_inv pf s0 w0" using step.prems(2) by (simp add: system_ok_def)
  then have inv: "solver_inv pf s w" by (rule async_ok(1) [OF step.hyps(1) _ url])
  show ?case
    by (rule out_inv_step [OF step.prems(1) step.IH [OF step.prems(1,2) all] async_effects [OF step.hyps(1) step.prems(1,2) all]
          proper [OF calls_update(2) [OF step.hyps(2,3)]] inv step.hyps(2-4)])
next
  case (serve ts s w n i ro x)
  show ?case
    by (rule out_inv_serve [OF serve.prems(1) serve.IH [OF serve.prems] async_effects [OF serve.hyps(1) serve.prems]
          serve.hyps(2) serve.prems(3) serve.hyps(3)])
next
  case (later ts s w n t)
  then have "out_inv pf Z ts w n" by simp
  moreover have "dns_of (w\<lparr>now := t\<rparr>) = dns_of w" by (simp add: dns_of_def)
  ultimately show ?case by (simp add: out_inv_def)
qed

section \<open>A race\<close>

text \<open>An exchange that is served and answered at once, with what the answer says.\<close>

lemma answer_round:
  assumes dep: "deployed pf order" and run: "async pf (mock_serves pf order) s0 w0 ts s w n" and i: "i < length ts" "ts ! i = (c, Local p)"
    and p: "phase_job p = Some j" "net_job pf tok c j" "phase_zone pf Z (\<lambda>k. False) c p" "phase_request pf c s p \<noteq> None"
    and ttl: "in_int64 (s_rrsetTTL s)" and asc: "ascii_challenge (challenge_of c)" and srv: "server_ok tok Z w"
  obtains x resp w1 where "ex_phase x = p" and "server_ok tok Z w1" and "told pf Z c p resp (dns_of w) (dns_of w1)"
    and "answers pf Z (dns_of w) c p resp"
    and "\<And>a' s' w'. receive pf c x 0 (Inr resp) s w1 = (a', s', w') \<Longrightarrow> \<exists>n'. async pf (mock_serves pf order) s0 w0 (ts[i := (c, a')]) s' w' n'"
proof -
  from net_round [OF dep run i p ttl asc srv] obtain x resp w1 m where x: "net_exchange pf tok Z c x" "ex_phase x = p"
      "serve_request (pf_lib pf) order DefaultBaseURL (exchange_request x tok) (net_server (ext w)) = (Some resp, m)"
      "server_ok tok Z w1" "told pf Z c p resp (dns_of w) (dns_of w1)"
    and go: "\<forall>a' s' w'. receive pf c x 0 (Inr resp) s w1 = (a', s', w') \<longrightarrow>
       (\<exists>n'. async pf (mock_serves pf order) s0 w0 (ts[i := (c, a')]) s' w' n')"
    by blast
  have "accepts tok (net_server (ext w))" "map_of (mk_zones (net_server (ext w))) = Z" using srv by (simp_all add: server_ok_def)
  from exchange_answered [OF dep asc x(1) this x(3)] that [OF x(2,4,5)] go x(2) show thesis
    unfolding dns_of_def by blast
qed

lemma finish_once_status:
  assumes "\<not> (200 \<le> rs_StatusCode resp \<and> rs_StatusCode resp < 300)"
  obtains a w1 where "finish_once lib cl meth path out zero (Inr resp) w = (Inl (EAPI a), w1)"
    and "StatusCode a = rs_StatusCode resp" and "ext w1 = ext w"
proof -
  obtain r w1 where f: "finish_once lib cl meth path out zero (Inr resp) w = (r, w1)" by force
  from finish_once_answered [OF f] finish_once_frame(2) [OF f] assms that f show thesis
    by (auto simp: answered_def)
qed

text \<open>A creation that meets a record set, a deletion, and a replacement that meets none.\<close>

lemma conflict_round:
  assumes "deployed pf order" and "async pf (mock_serves pf order) s0 w0 ts s w n"
    and "i < length ts" "ts ! i = (CallPresent ch, Local (Acting j k))" and "net_job pf tok (CallPresent ch) j"
    and "in_int64 (s_rrsetTTL s)" and "ascii_challenge ch" and "server_ok tok Z w"
    and Z: "Z (challenge_apex pf ch) = Some k" and some: "dns_of w k \<noteq> None"
  shows "\<exists>w' n'. async pf (mock_serves pf order) s0 w0 (ts[i := (CallPresent ch, Local (Replacing j k))]) s w' n' \<and>
    server_ok tok Z w' \<and> dns_of w' k \<noteq> None"
proof (rule answer_round [OF assms(1-4) _ assms(5) _ _ assms(6) _ assms(8)])
  fix x resp w1
  assume x: "ex_phase x = Acting j k" "server_ok tok Z w1" and t: "told pf Z (CallPresent ch) (Acting j k) resp (dns_of w) (dns_of w1)"
    and "answers pf Z (dns_of w) (CallPresent ch) (Acting j k) resp"
    and go: "\<And>a' s' w'. receive pf (CallPresent ch) x 0 (Inr resp) s w1 = (a', s', w') \<Longrightarrow>
      \<exists>n'. async pf (mock_serves pf order) s0 w0 (ts[i := (CallPresent ch, a')]) s' w' n'"
  with some have resp: "rs_StatusCode resp = 409" by (simp add: answers_def)
  have there: "dns_of w1 k \<noteq> None" using t some by (auto simp: told_def)
  obtain a w2 where f: "finish_once (pf_lib pf) (ex_client x) (ex_meth x) (ex_path x) (Some (dec_rrsetEnvelope (pf_lib pf))) zero_RRSet
      (Inr resp) w1 = (Inl (EAPI a), w2)" "StatusCode a = rs_StatusCode resp" "ext w2 = ext w1"
    by (rule finish_once_status [of resp]) (use resp in simp)
  then have "receive pf (CallPresent ch) x 0 (Inr resp) s w1 = (Local (Replacing j k), s, w2)"
    using x(1) resp by (simp add: receive_def Let_def settle_def isRetryable_def local_def after_create_def APIError_Is_def)
  with go f(3) x(2) there show ?thesis by (metis dns_of_def server_ok_def)
qed (use assms(7) Z in simp_all)

lemma delete_round:
  assumes "deployed pf order" and "async pf (mock_serves pf order) s0 w0 ts s w n"
    and "i < length ts" "ts ! i = (CallCleanUp ch, Local (Acting j k))" and "net_job pf tok (CallCleanUp ch) j"
    and "in_int64 (s_rrsetTTL s)" and "ascii_challenge ch" and "server_ok tok Z w"
    and Z: "Z (challenge_apex pf ch) = Some k" and some: "dns_of w k \<noteq> None"
  shows "\<exists>w' n'. async pf (mock_serves pf order) s0 w0 (ts[i := (CallCleanUp ch, Local (Finished None))]) s w' n' \<and>
    server_ok tok Z w' \<and> dns_of w' k = None"
proof (rule answer_round [OF assms(1-4) _ assms(5) _ _ assms(6) _ assms(8)])
  fix x resp w1
  assume x: "ex_phase x = Acting j k" "server_ok tok Z w1" and t: "told pf Z (CallCleanUp ch) (Acting j k) resp (dns_of w) (dns_of w1)"
    and "answers pf Z (dns_of w) (CallCleanUp ch) (Acting j k) resp"
    and go: "\<And>a' s' w'. receive pf (CallCleanUp ch) x 0 (Inr resp) s w1 = (a', s', w') \<Longrightarrow>
      \<exists>n'. async pf (mock_serves pf order) s0 w0 (ts[i := (CallCleanUp ch, a')]) s' w' n'"
  with some have resp: "rs_StatusCode resp = 204" by (simp add: answers_def)
  then have gone: "dns_of w1 k = None" using t Z by (auto simp: told_def acks_def)
  obtain w2 where f: "finish_once (pf_lib pf) (ex_client x) (ex_meth x) (ex_path x) None () (Inr resp) w1 = (Inr (), w2)" "ext w2 = ext w1"
    using finish_once_reading [of "pf_lib pf" None "()" resp "()" "ex_client x" "ex_meth x" "ex_path x" w1] resp by (auto simp: reading_def)
  then obtain w3 where "receive pf (CallCleanUp ch) x 0 (Inr resp) s w1 = (Local (Finished None), s, w3)" "ext w3 = ext w1"
    using x(1) by (simp add: receive_def Let_def settle_def local_def after_delete_def)
  with go gone x(2) show ?thesis by (metis dns_of_def server_ok_def)
qed (use assms(7) Z in simp_all)

lemma vanished_round:
  assumes "deployed pf order" and "async pf (mock_serves pf order) s0 w0 ts s w n"
    and "i < length ts" "ts ! i = (CallPresent ch, Local (Replacing j k))" and "net_job pf tok (CallPresent ch) j"
    and "in_int64 (s_rrsetTTL s)" and "ascii_challenge ch" and "server_ok tok Z w"
    and Z: "Z (challenge_apex pf ch) = Some k" and none: "dns_of w k = None"
  shows "\<exists>e w' n'. async pf (mock_serves pf order) s0 w0 (ts[i := (CallPresent ch, Local (Finished (Some e)))]) s w' n' \<and>
    errors_Is e ErrNotFound"
proof (rule answer_round [OF assms(1-4) _ assms(5) _ _ assms(6) _ assms(8)])
  fix x resp w1
  assume x: "ex_phase x = Replacing j k" and "answers pf Z (dns_of w) (CallPresent ch) (Replacing j k) resp"
    and go: "\<And>a' s' w'. receive pf (CallPresent ch) x 0 (Inr resp) s w1 = (a', s', w') \<Longrightarrow>
      \<exists>n'. async pf (mock_serves pf order) s0 w0 (ts[i := (CallPresent ch, a')]) s' w' n'"
  with none have resp: "rs_StatusCode resp = 404" by (simp add: answers_def)
  obtain a w2 where f: "finish_once (pf_lib pf) (ex_client x) (ex_meth x) (ex_path x) (Some (dec_actionEnvelope (pf_lib pf))) zero_Action
      (Inr resp) w1 = (Inl (EAPI a), w2)" "StatusCode a = rs_StatusCode resp"
    by (rule finish_once_status [of resp]) (use resp in simp)
  then obtain e where "receive pf (CallPresent ch) x 0 (Inr resp) s w1 = (Local (Finished (Some e)), s, w2)" "errors_Is e ErrNotFound"
    using x resp by (simp add: receive_def Let_def settle_def isRetryable_def local_def after_set_def APIError_Is_def)
  with go show ?thesis by metis
qed (use assms(7) Z in simp_all)

text \<open>
  A \<open>Present\<close> and a \<open>CleanUp\<close> for the same challenge, while an old record set is in place: the
  deletion falls between the two requests of the \<open>Present\<close>, and nothing is lost or late.
\<close>

definition race_world :: "network world" where
  "race_world = \<lparr>now = 0, trace = [], ext = \<lparr>net_server = (newMockHCloudServer ''s3cret'' [(''example.com'', 7)])
     \<lparr>mk_rrsets := [7 \<mapsto> mock_rrset 7 zero_CreateRRSetRequest]\<rparr>, net_link = []\<rparr>\<rparr>"

lemma race_world_accepts: "accepts ''s3cret'' (net_server (ext race_world))"
  by (simp add: race_world_def newMockHCloudServer_def accepts_def)

lemma race_world_zones: "map_of (mk_zones (net_server (ext race_world))) = [''example.com'' \<mapsto> 7]"
  by (simp add: race_world_def newMockHCloudServer_def)

abbreviation race_run ::
  "network aphase \<Rightarrow> network aphase \<Rightarrow> network Solver \<Rightarrow> network world \<Rightarrow> network wire \<Rightarrow> bool" where
  "race_run a b s w n \<equiv> async (sample_platform sample_net_http) (mock_serves (sample_platform sample_net_http) rev)
     (sample_solver sample_net_http) race_world [(CallPresent sample_challenge, a), (CallCleanUp sample_challenge, b)] s w n"

lemma sample_net_job:
  assumes "challenge_of c = sample_challenge"
  shows "net_job (sample_platform sample_net_http) ''s3cret'' c (sample_job sample_net_http v)"
    and "jb_apex (sample_job sample_net_http v) = ''example.com''"
  using sample_routed [of sample_net_http] assms by (auto simp: net_job_def sample_job_def sample_platform_def)

lemma sample_ascii: "ascii_challenge sample_challenge"
  using sample_proper by (simp add: proper_challenge_def)

lemma race_reaches_listing:
  "\<exists>i j w n. race_run (Local (Listing (sample_job sample_net_http i))) (Local (Listing (sample_job sample_net_http j)))
     (sample_solver sample_net_http) w n \<and> ext w = ext race_world"
proof -
  let ?s = "sample_solver sample_net_http" and ?w = race_world and ?sec = "emit (SecretRead ''ns'' ''tok'')"
  let ?i = "sample_job sample_net_http ?w" and ?j = "sample_job sample_net_http (?sec ?w)" and ?n = "\<lparr>wr_sent = [], wr_answers = []\<rparr>"
  have "race_run (Local Starting) (Local Starting) ?s ?w ?n" using async.arrive [OF async.arrive [OF async.start]] by simp
  from async_local [OF this, of 0, OF _ _ _ sample_starting]
  have "race_run (Local (Looking ?i)) (Local Starting) ?s (?sec ?w) ?n" by simp
  from async_local [OF this, of 1, OF _ _ _ sample_starting]
  have "race_run (Local (Looking ?i)) (Local (Looking ?j)) ?s (?sec (?sec ?w)) ?n" by simp
  from async_local [OF this, of 0, OF _ _ _ sample_looking]
  have "race_run (Local (Listing ?i)) (Local (Looking ?j)) ?s (?sec (?sec ?w)) ?n" by simp
  from async_local [OF this, of 1, OF _ _ _ sample_looking]
  have "race_run (Local (Listing ?i)) (Local (Listing ?j)) ?s (?sec (?sec ?w)) ?n" by simp
  then show ?thesis by (intro exI) (rule conjI, assumption, simp)
qed

lemma sample_race:
  "\<exists>s w n e. race_run (Local (Finished (Some e))) (Local (Finished None)) s w n \<and> errors_Is e ErrNotFound"
proof -
  let ?pf = "sample_platform sample_net_http" and ?s = "sample_solver sample_net_http"
  define Z where "Z = [''example.com'' \<mapsto> 7 :: int64]"
  obtain i j w n where 0: "race_run (Local (Listing (sample_job sample_net_http i))) (Local (Listing (sample_job sample_net_http j))) ?s w n"
      "ext w = ext race_world"
    using race_reaches_listing by blast
  let ?i = "sample_job sample_net_http i" and ?j = "sample_job sample_net_http j"
  have ij: "net_job ?pf ''s3cret'' (CallPresent sample_challenge) ?i" "net_job ?pf ''s3cret'' (CallCleanUp sample_challenge) ?j"
      "Z (jb_apex ?i) = Some 7" "Z (jb_apex ?j) = Some 7"
    using sample_net_job [of "CallPresent sample_challenge"] sample_net_job [of "CallCleanUp sample_challenge"] by (simp_all add: Z_def)
  have Z: "Z (challenge_apex ?pf sample_challenge) = Some 7" using challenge_apex_routed [OF sample_routed] by (simp add: Z_def)
  have srv: "server_ok ''s3cret'' Z w" "dns_of w 7 \<noteq> None"
    using 0(2) race_world_accepts race_world_zones by (simp_all add: server_ok_def dns_of_def mock_recs_def race_world_def Z_def)
  from list_round [OF sample_deployed 0(1), of 0, OF _ _ ij(1) sample_rrsetTTL _ srv(1), of 7] sample_ascii ij(3) srv(2) obtain w1 n1 where
    1: "race_run (Local (Storing ?i 7)) (Local (Listing ?j)) ?s w1 n1" "server_ok ''s3cret'' Z w1" "dns_of w1 7 \<noteq> None" by auto
  from list_round [OF sample_deployed 1(1), of 1, OF _ _ ij(2) sample_rrsetTTL _ 1(2), of 7] sample_ascii ij(4) 1(3) obtain w2 n2 where
    2: "race_run (Local (Storing ?i 7)) (Local (Storing ?j 7)) ?s w2 n2" "server_ok ''s3cret'' Z w2" "dns_of w2 7 \<noteq> None" by auto
  let ?s1 = "?s\<lparr>s_zones := Store (SecretRef_String (jb_ref ?i)) (jb_apex ?i) 7 w2 (s_zones ?s)\<rparr>"
  let ?s2 = "?s1\<lparr>s_zones := Store (SecretRef_String (jb_ref ?j)) (jb_apex ?j) 7 w2 (s_zones ?s1)\<rparr>"
  from async_local [OF 2(1), of 0] have "race_run (Local (Acting ?i 7)) (Local (Storing ?j 7)) ?s1 w2 n2" by simp
  from async_local [OF this, of 1] have 3: "race_run (Local (Acting ?i 7)) (Local (Acting ?j 7)) ?s2 w2 n2" by simp
  have ttl: "in_int64 (s_rrsetTTL ?s2)" using sample_rrsetTTL by simp
  from conflict_round [OF sample_deployed 3, of 0, OF _ _ ij(1) ttl sample_ascii 2(2) Z 2(3)] obtain w4 n4 where
    4: "race_run (Local (Replacing ?i 7)) (Local (Acting ?j 7)) ?s2 w4 n4" "server_ok ''s3cret'' Z w4" "dns_of w4 7 \<noteq> None" by auto
  from delete_round [OF sample_deployed 4(1), of 1, OF _ _ ij(2) ttl sample_ascii 4(2) Z 4(3)] obtain w5 n5 where
    5: "race_run (Local (Replacing ?i 7)) (Local (Finished None)) ?s2 w5 n5" "server_ok ''s3cret'' Z w5" "dns_of w5 7 = None" by auto
  from vanished_round [OF sample_deployed 5(1), of 0, OF _ _ ij(1) ttl sample_ascii 5(2) Z 5(3)] show ?thesis by auto
qed

section \<open>Properties\<close>

text \<open>
  C5: why concurrent calls fail. Calls in any number, for any zones, run on a freshly initialised
  solver against the test server over an asynchronous network. If a call reports an error, its
  cause is a failed transport or the end of its context, with one exception: a \<open>Present\<close> may
  report a 404, but only when the server does not have its zone, or when a \<open>CleanUp\<close> for the same
  zone is among the calls. So no answer of the server is misread and no cached zone id leads
  astray, a \<open>CleanUp\<close> fails for the network only, and \<open>Present\<close> calls never fail one another.
\<close>

theorem async_failures_explained:
  assumes "deployed pf order"
    and "\<forall>opt \<in> set opts. solver_opt opt" and "Initialize pf (solver_New pf opts) (Some rc) = (None, s0)"
    and "in_int64 (s_rrsetTTL s0)" and "accepts tok (net_server (ext w0))"
    and "Z = map_of (mk_zones (net_server (ext w0)))"
    and "async pf (mock_serves pf order) s0 w0 ts s w n"
    and "list_all (\<lambda>t. proper_challenge pf tok (challenge_of (fst t))) ts"
    and "(c, Local (Finished (Some err))) \<in> set ts"
  shows "network_failure err \<or>
    (\<exists>ch. c = CallPresent ch) \<and> errors_Is err ErrNotFound \<and>
    (case Z (fst (wanted pf c)) of
       None \<Rightarrow> True
     | Some k \<Rightarrow> \<exists>ch. CallCleanUp ch \<in> fst ` set ts \<and> Z (challenge_apex pf ch) = Some k)"
proof -
  have "system_ok pf tok Z s0 w0" using fresh_system_ok [OF assms(2-5)] assms(6) by simp
  from async_outcome [OF assms(7,1) this assms(8)] assms(9)
  have "excused pf Z (removal pf Z (fst ` set ts)) c err" by (fastforce simp: out_inv_def Let_def)
  then show ?thesis unfolding excused_def removal_def .
qed

theorem async_failures_explained_witness:
  "\<exists>ts s w n e. async (sample_platform sample_net_http) (mock_serves (sample_platform sample_net_http) rev)
     (sample_solver sample_net_http) race_world ts s w n \<and>
     (CallPresent sample_challenge, Local (Finished (Some e))) \<in> set ts \<and> \<not> network_failure e \<and>
     (\<exists>ch. CallCleanUp ch \<in> fst ` set ts \<and> challenge_apex (sample_platform sample_net_http) ch = ''example.com'')"
proof -
  let ?pf = "sample_platform sample_net_http"
  obtain s w n e where run: "race_run (Local (Finished (Some e))) (Local (Finished None)) s w n" "errors_Is e ErrNotFound"
    using sample_race by blast
  have net: "\<not> network_failure e" using run(2) network_failure_not_Is by blast
  have ap: "challenge_apex ?pf sample_challenge = ''example.com''" by (rule challenge_apex_routed [OF sample_routed])
  from async_failures_explained [OF sample_deployed _ sample_init sample_rrsetTTL race_world_accepts refl run(1),
      of "CallPresent sample_challenge" e] net ap
  have "\<exists>ch. CallCleanUp ch \<in> {CallPresent sample_challenge, CallCleanUp sample_challenge} \<and> challenge_apex ?pf ch = ''example.com''"
    by (auto simp: sample_proper race_world_zones split: if_splits)
  with run net show ?thesis by fastforce
qed

end
