(* ===== verification/Async_Progress.thy ===== *)
theory Async_Progress
  imports Async
begin

text \<open>
  Progress over the asynchronous network. A measure on the state of a thread falls with every
  step the thread takes, and a thread that has not finished can always take one when time
  passes: no schedule, no answer and no silence of the server keeps a call from returning.
\<close>

section \<open>The work left\<close>

text \<open>
  An exchange takes at most 31 steps: its start, and seven attempts of at most four steps each. A
  call has at most three of them: listing, creating, replacing.
\<close>

primrec phase_work :: "'e phase \<Rightarrow> nat" where
  "phase_work Starting = 96"
| "phase_work (Looking j) = 95"
| "phase_work (Listing j) = 94"
| "phase_work (Storing j i) = 63"
| "phase_work (Acting j i) = 62"
| "phase_work (Replacing j i) = 31"
| "phase_work (Forgetting j e) = 1"
| "phase_work (Finished r) = 0"

definition rest :: "'e exchange \<Rightarrow> nat" where
  "rest x = phase_work (ex_phase x) - 31"

primrec work :: "'e aphase \<Rightarrow> nat" where
  "work (Local p) = phase_work p"
| "work (Trying x k e) = rest x + 4 * nat (7 - k) + 2"
| "work (Asleep x k t) = rest x + 4 * nat (7 - k) + 1"
| "work (Ready x k) = rest x + 4 * nat (7 - k)"
| "work (Waiting x k i) = rest x + 4 * nat (7 - k) - 1"

section \<open>Bounds\<close>

fun is_exchange :: "'e phase \<Rightarrow> bool" where
  "is_exchange (Listing j) = True"
| "is_exchange (Acting j i) = True"
| "is_exchange (Replacing j i) = True"
| "is_exchange p = False"

lemma is_exchange_iff: "is_exchange p \<longleftrightarrow> phase_request pf c s p \<noteq> None"
  by (cases p; cases c) simp_all

definition six :: "'e exchange \<Rightarrow> bool" where
  "six x \<longleftrightarrow> is_exchange (ex_phase x) \<and> cl_maxRetries (ex_client x) = 6"

primrec bounded :: "'e aphase \<Rightarrow> bool" where
  "bounded (Local p) \<longleftrightarrow> True"
| "bounded (Trying x k e) \<longleftrightarrow> six x \<and> 0 \<le> k \<and> k \<le> 7 \<and> (k = 0) = (e = None)"
| "bounded (Asleep x k t) \<longleftrightarrow> six x \<and> 0 \<le> k \<and> k \<le> 6"
| "bounded (Ready x k) \<longleftrightarrow> six x \<and> 0 \<le> k \<and> k \<le> 6"
| "bounded (Waiting x k i) \<longleftrightarrow> six x \<and> 0 \<le> k \<and> k \<le> 6"

lemma work_bound: "bounded a \<Longrightarrow> work a \<le> 96"
proof (cases a)
  case (Local p)
  then show ?thesis by (cases p) simp_all
qed (auto simp: rest_def six_def elim: is_exchange.elims)

text \<open>After an exchange the work left is that of the phases that follow; after an attempt it is less by an attempt.\<close>

definition eases :: "'e exchange \<Rightarrow> int \<Rightarrow> 'e astate \<Rightarrow> bool" where
  "eases x k y \<longleftrightarrow> (case fst y of
     Local p \<Rightarrow> phase_work p \<le> rest x
   | Trying x' k' e \<Rightarrow> x' = x \<and> k' = k + 1 \<and> e \<noteq> None
   | _ \<Rightarrow> False)"

lemma eases_after:
  shows "ex_phase x = Listing j \<Longrightarrow> eases x k (local (after_list pf c j rl s w))"
    and "ex_phase x = Acting j i \<Longrightarrow> eases x k (local (after_create pf ch j i rc s w))"
    and "ex_phase x = Replacing j i \<Longrightarrow> eases x k (local (after_set pf ch j i rs s w))"
    and "ex_phase x = Acting j i \<Longrightarrow> eases x k (local (after_delete pf ch j i rd s w))"
  by (auto simp: eases_def local_def after_defs resolve_failed_def rest_def Let_def
      split: sum.split option.split solver_call.split)

lemma eases_give_up: "six x \<Longrightarrow> eases x k (local (give_up pf c x err s w))"
  by (auto simp: six_def give_up_def eases_after split: phase.split solver_call.split)

lemma eases_finish:
  assumes "\<And>r w1. eases x k (local (fin r s w1))"
  shows "eases x k (case finish_once lib cl meth path out zero res w of (r, w1) \<Rightarrow> settle x k r fin s w1)"
  using assms by (auto simp: settle_def eases_def split: prod.split sum.split)

lemma eases_receive: "six x \<Longrightarrow> eases x k (receive pf c x k res s w)"
  by (auto simp: six_def receive_def Let_def intro!: eases_finish eases_after split: phase.split solver_call.split)

lemma eases_send_failed: "six x \<Longrightarrow> eases x k (send_failed pf c x k err s w)"
  using eases_give_up [of x k pf c err s w] by (simp add: send_failed_def eases_def)

lemma eases_step:
  assumes "eases x k (a', s', w')" and "six x" and "0 \<le> k" and "k \<le> 6"
  shows "bounded a' \<and> work a' < rest x + 4 * nat (7 - k) - 1"
  using assms by (cases a') (auto simp: eases_def nat_diff_distrib)

lemma local_work:
  assumes "phase_request pf c s p = None" and "thread_step pf c p s w = (p', s', w')" and "\<And>r. p \<noteq> Finished r"
  shows "phase_work p' < phase_work p"
  using assms by (cases p; cases c) (auto split: prod.splits sum.splits option.splits)

lemma give_up_work: "six x \<Longrightarrow> local (give_up pf c x err s w) = (a', s', w') \<Longrightarrow> bounded a' \<and> work a' \<le> rest x"
  using eases_give_up [of x 0 pf c err s w] by (auto simp: eases_def local_def split: prod.splits)

lemma async_step_work:
  assumes st: "async_step pf c (a, s, w) n (a', s', w') n'" and b: "bounded a" and u: "\<And>r. a \<noteq> Local (Finished r)"
  shows "bounded a' \<and> work a' < work a"
  using st
proof cases
  case (local p p')
  with local_work [OF local(4,5)] u show ?thesis by auto
next
  case (begin_call cl lg tok p x j)
  from begin_call have "exchange_of pf c s p cl = Some x" by simp
  note x = exchange_of_Some [OF this]
  have e: "is_exchange p" using x(3) is_exchange_iff [of p pf c s] by simp
  then have "phase_work p = rest x + 31" using x(1) by (auto simp: rest_def elim: is_exchange.elims)
  with begin_call e x show ?thesis by (simp add: six_def default_client_def client_default_defs)
next
  case (exhausted x k err)
  with b give_up_work [of x pf c err s w a' s' w'] show ?thesis by auto
next
  case (interrupted x e k wake)
  with b give_up_work [of x pf c "ECtx e" s w a' s' w'] show ?thesis by auto
next
  case (unsent x err w1 k)
  with b eases_send_failed [of x k pf c err s w1] eases_step [of x k a' s' w'] show ?thesis by fastforce
next
  case (answer i resp x k)
  with b eases_receive [of x k pf c "Inr resp" s w] eases_step [of x k a' s' w'] show ?thesis by auto
next
  case (fail x k i err)
  with b eases_receive [of x k pf c "Inl err" s w] eases_step [of x k a' s' w'] show ?thesis by auto
qed (use b in \<open>auto simp: six_def\<close>)

section \<open>Steps are possible\<close>

lemma async_bounded:
  assumes "async pf Serve s0 w0 ts s w n" and "(c, a) \<in> set ts"
  shows "bounded a"
proof -
  have "\<forall>t \<in> set ts. bounded (snd t)"
    using assms(1)
  proof (induction rule: async.induct)
    case (step ts s w n i c a a' s' w' n')
    then have "bounded a" by (metis nth_mem snd_conv)
    moreover have "bounded a'"
    proof (cases "\<exists>r. a = Local (Finished r)")
      case True
      with step.hyps(4) show ?thesis by (auto elim: async_step.cases simp: exchange_of_def)
    qed (use async_step_work [OF step.hyps(4) \<open>bounded a\<close>] in blast)
    ultimately show ?case using step.IH by (auto dest!: set_update_subset_insert [THEN subsetD])
  qed auto
  with assms(2) show ?thesis by auto
qed

text \<open>A thread that has not finished has a step: at once, unless it sleeps.\<close>

lemma local_enabled:
  assumes "thread_ok pf R (c, p)"
  shows "\<exists>y m. async_step pf c (Local p, s, w) n y m"
proof (cases "phase_request pf c s p")
  case None
  obtain p' s' w' where "thread_step pf c p s w = (p', s', w')" by (metis prod_cases3)
  with None show ?thesis by (blast intro: async_step.local)
next
  case (Some q)
  have "is_exchange p" using Some is_exchange_iff by (metis option.discI)
  then obtain j where j: "phase_job p = Some j" by (auto elim: is_exchange.elims)
  with assms obtain tok where own: "own_client pf R c tok j" by (auto simp: thread_ok_def)
  then obtain lg where cl: "jb_client j = as_HCloudClient (pf_lib pf) (default_client (pf_http pf) (pf_pick pf) lg tok)"
    by (auto simp: own_client_def)
  obtain x where "exchange_of pf c s p (default_client (pf_http pf) (pf_pick pf) lg tok) = Some x"
    using Some j by (cases q) (auto simp: exchange_of_def)
  from async_step.begin_call [OF refl this j cl] show ?thesis by blast
qed

lemma trying_enabled:
  assumes "bounded (Trying x k e)"
  shows "\<exists>y m. async_step pf c (Trying x k e, s, w) n y m"
proof -
  consider "k = 0" "e = None" | "0 < k" "k \<le> 6" | err where "k = 7" "e = Some err"
    using assms by (cases e) fastforce+
  then show ?thesis
  proof cases
    case 1
    with async_step.first show ?thesis by blast
  next
    case 2
    with assms have "k \<le> cl_maxRetries (ex_client x)" by (simp add: six_def)
    with async_step.backoff [OF 2(1) this refl] show ?thesis by blast
  next
    case 3
    with assms have "cl_maxRetries (ex_client x) < k" by (simp add: six_def)
    with 3 async_step.exhausted [OF this] show ?thesis by blast
  qed
qed

lemma ready_enabled: "\<exists>y m. async_step pf c (Ready x k, s, w) n y m"
proof -
  obtain r w1 where st: "start_once (pf_lib pf) (ex_client x) (ex_ctx x) (ex_meth x) (ex_path x) (ex_body x) w = (r, w1)" by force
  show ?thesis
  proof (cases r)
    case (Inl e)
    with async_step.unsent [of pf x w e w1] st show ?thesis by blast
  next
    case (Inr q)
    with async_step.send [of pf x w _ _ w1] st show ?thesis by (cases q) blast
  qed
qed

lemma async_step_enabled:
  assumes ok: "aphase_ok pf R c a" and b: "bounded a" and u: "\<And>r. a \<noteq> Local (Finished r)"
  shows "\<exists>t a' s' w' n'. now w \<le> t \<and> async_step pf c (a, s, w\<lparr>now := t\<rparr>) n (a', s', w') n'"
proof (cases "\<exists>x k wake. a = Asleep x k wake")
  case True
  then obtain x k wake where a: "a = Asleep x k wake" by blast
  let ?t = "max (now w) wake"
  have "async_step pf c (Asleep x k wake, s, w\<lparr>now := ?t\<rparr>) n (Ready x k, s, w\<lparr>now := ?t\<rparr>) n"
    by (rule async_step.wake) simp
  with a show ?thesis by (intro exI [of _ ?t]) auto
next
  case False
  have "\<exists>y m. async_step pf c (a, s, w) n y m"
  proof (cases a)
    case (Waiting x k i)
    with async_step.fail show ?thesis by blast
  qed (use False ok b in \<open>simp_all only: local_enabled trying_enabled ready_enabled aphase_ok.simps, blast\<close>)
  then obtain a' s' w' m where "async_step pf c (a, s, w\<lparr>now := now w\<rparr>) n (a', s', w') m" by auto
  then show ?thesis by blast
qed

text \<open>So a thread can be run to its end from wherever it is.\<close>

lemma async_run_out:
  assumes "solver_inv pf s0 w0" and "url_ParseError (pf_lib pf) (DefaultBaseURL @ ''/v1/zones'') = None"
    and "async pf Serve s0 w0 ts s w n" and "i < length ts" and "ts ! i = (c, a)"
  shows "\<exists>r s' w' n'. async pf Serve s0 w0 (ts[i := (c, Local (Finished r))]) s' w' n'"
  using assms(3-5)
proof (induction "work a" arbitrary: ts s w n a rule: less_induct)
  case less
  show ?case
  proof (cases "\<exists>r. a = Local (Finished r)")
    case True
    then obtain r where "ts[i := (c, Local (Finished r))] = ts" using less.prems(2,3) by (metis list_update_id)
    with less.prems(1) show ?thesis by metis
  next
    case False
    then have u: "a \<noteq> Local (Finished r)" for r by blast
    have t: "(c, a) \<in> set ts" using less.prems(2,3) by (metis nth_mem)
    have b: "bounded a" by (rule async_bounded [OF less.prems(1) t])
    have "aphase_ok pf UNIV c a" by (rule async_ok(2) [OF less.prems(1) assms(1,2) t])
    from async_step_enabled [OF this b u] obtain t' a' s' w' n' where
      st: "now w \<le> t'" "async_step pf c (a, s, w\<lparr>now := t'\<rparr>) n (a', s', w') n'" by blast
    have "async pf Serve s0 w0 (ts[i := (c, a')]) s' w' n'"
      using async.step [OF async.later [OF less.prems(1) st(1)] less.prems(2,3) st(2)] .
    from less.hyps [OF _ this, of a'] async_step_work [OF st(2) b u] less.prems(2) show ?thesis by simp
  qed
qed

section \<open>Properties\<close>

text \<open>
  C6: a call returns over an asynchronous network. In every execution of concurrent calls on one
  solver, whatever the server answers or withholds, at most 96 units of work are left to each
  call and each step the call takes uses some, wherever the other calls are; the call is never
  stuck, since it can be run on alone to its end, after which its thread holds its result and all
  other threads are where they were.
\<close>

theorem async_calls_return:
  assumes "lifecycle pf s0 w0" and "url_ParseError (pf_lib pf) (DefaultBaseURL @ ''/v1/zones'') = None"
    and "async pf Serve s0 w0 ts s w n" and "i < length ts" and "ts ! i = (c, a)"
  shows "work a \<le> 96 \<and>
    (\<forall>m a' s' w' m'. async_step pf c (a, s, w) m (a', s', w') m' \<longrightarrow> (\<exists>r. a = Local (Finished r)) \<or> work a' < work a) \<and>
    (\<exists>r s' w' n'. async pf Serve s0 w0 (ts[i := (c, Local (Finished r))]) s' w' n')"
proof (intro conjI)
  have b: "bounded a" using async_bounded [OF assms(3)] assms(4,5) by (metis nth_mem)
  then show "work a \<le> 96" by (rule work_bound)
  show "\<forall>m a' s' w' m'. async_step pf c (a, s, w) m (a', s', w') m' \<longrightarrow> (\<exists>r. a = Local (Finished r)) \<or> work a' < work a"
    using async_step_work [OF _ b] by blast
  show "\<exists>r s' w' n'. async pf Serve s0 w0 (ts[i := (c, Local (Finished r))]) s' w' n'"
    by (rule async_run_out [OF lifecycle_inv [OF assms(1)] assms(2-5)])
qed

theorem async_calls_return_witness:
  "\<exists>r s w n. async (sample_platform (answering 503)) (\<lambda>rq x ro y. False) (sample_solver (answering 503)) sample_world
     [(CallPresent sample_challenge, Local (Finished r)), (CallCleanUp sample_challenge, Local Starting)] s w n"
proof -
  let ?pf = "sample_platform (answering 503)" and ?S = "\<lambda>rq x ro y. False"
  have "url_ParseError (pf_lib ?pf) (DefaultBaseURL @ ''/v1/zones'') = None" by (simp add: sample_platform_def)
  note ret = async_calls_return [OF sample_lifecycle this]
  have "challenge_of (CallPresent sample_challenge) = sample_challenge" by simp
  from ret [OF sample_async [OF this, of "answering 503" ?S sample_world "CallCleanUp sample_challenge"], of 0]
  show ?thesis by simp
qed

end
