(* ===== verification/Test_Tables.thy ===== *)
theory Test_Tables
  imports Sample_Deployment "HOL-Library.Code_Target_Nat"
begin

text \<open>
  The tables of the repository's own tests, run on the model. They are how the model was compared
  with the program on the inputs its authors thought of; each table has the rows of the test it is
  named after, and each lemma is the body of the test's loop.
\<close>

section \<open>Routing\<close>

definition test_cred :: "string \<Rightarrow> string list \<Rightarrow> string \<Rightarrow> Credential" where
  "test_cred name zones ref = \<lparr>cred_Name = name, cred_Zones = zones, cred_APITokenSecretRef = ref\<rparr>"

text \<open>\<open>TestResolve\<close>: credential and zone found, and texts the error has to contain.\<close>

definition TestResolve_projects :: "(Credential list \<times> string \<times> string \<times> string) list" where
  "TestResolve_projects =
    [([test_cred ''project-a'' [''example.com''] ''tok-a''], ''_acme-challenge.example.com'', ''project-a'', ''example.com''),
     ([test_cred ''project-a'' [''example.com'', ''example.net''] ''tok-a''], ''_acme-challenge.app.example.net'', ''project-a'', ''example.net''),
     ([test_cred ''project-a'' [''example.com''] ''tok-a'', test_cred ''project-b'' [''example.org''] ''tok-b''], ''_acme-challenge.app.example.org'', ''project-b'', ''example.org''),
     ([test_cred ''project-a'' [''example.com'', ''example.net''] ''tok-a'', test_cred ''project-b'' [''example.org'', ''example.de''] ''tok-b''], ''_acme-challenge.deep.nested.example.de'', ''project-b'', ''example.de'')]"

definition TestResolve_forms :: "(Credential list \<times> string \<times> string \<times> string) list" where
  "TestResolve_forms =
    [([test_cred ''project-a'' [''example.com''] ''tok-a''], ''_acme-challenge.app.foo.example.com'', ''project-a'', ''example.com''),
     ([test_cred ''project-a'' [''example.com''] ''tok-a''], ''app.example.com'', ''project-a'', ''example.com''),
     ([test_cred ''project-a'' [''example.com''] ''tok-a''], ''_acme-challenge.example.com'', ''project-a'', ''example.com''),
     ([test_cred ''project-a'' [''example.com''] ''tok-a''], ''_acme-challenge.app.example.com.'', ''project-a'', ''example.com''),
     ([test_cred ''project-a'' [''example.com''] ''tok-a''], ''_acme-challenge.APP.EXAMPLE.COM'', ''project-a'', ''example.com'')]"

definition TestResolve_errors :: "(Credential list \<times> string \<times> string) list" where
  "TestResolve_errors =
    [([test_cred ''project-a'' [''example.com''] ''tok-a'', test_cred ''project-b'' [''example.org''] ''tok-b''], ''_acme-challenge.app.unknown.tld'', ''example.com, example.org''),
     ([test_cred ''project-a'' [''example.com''] ''tok-a''], ''_acme-challenge.foo.example.net'', ''\"foo.example.net\"''),
     ([test_cred ''project-a'' [''example.com''] ''tok-a''], '''', '''')]"

definition resolves_to :: "Credential list \<times> string \<times> string \<times> string \<Rightarrow> bool" where
  "resolves_to = (\<lambda>(creds, fqdn, wantCred, wantZone).
     map_sum id (\<lambda>(c, z). (cred_Name c, z)) (Resolve sample_unicode (Some \<lparr>Credentials = creds\<rparr>) fqdn) = Inr (wantCred, wantZone))"

lemma TestResolve_projects_passes: "list_all resolves_to TestResolve_projects"
  by code_simp

lemma TestResolve_forms_passes: "list_all resolves_to TestResolve_forms"
  by code_simp

lemma TestResolve_errors_passes:
  "list_all (\<lambda>(creds, fqdn, wantErrText). case Resolve sample_unicode (Some \<lparr>Credentials = creds\<rparr>) fqdn of
     Inl err \<Rightarrow> errors_Is err ErrNoMatch \<and> Contains (Error sample_unicode err) wantErrText | Inr _ \<Rightarrow> False)
   TestResolve_errors"
  by code_simp

text \<open>\<open>TestResolveNilReceiver\<close>, \<open>TestResolveDoesNotMatchSubLabelSubstring\<close>.\<close>

lemma TestResolveNilReceiver_passes:
  "case Resolve sample_unicode None ''_acme-challenge.example.com'' of Inl err \<Rightarrow> errors_Is err ErrNoMatch | Inr _ \<Rightarrow> False"
  by code_simp

lemma TestResolveDoesNotMatchSubLabelSubstring_passes:
  "case Resolve sample_unicode (Some \<lparr>Credentials = [test_cred ''project-a'' [''example.com''] ''tok-a'']\<rparr>) ''_acme-challenge.notexample.com'' of
     Inl err \<Rightarrow> errors_Is err ErrNoMatch | Inr _ \<Rightarrow> False"
  by code_simp

text \<open>\<open>TestValidateConfig\<close>: no text stands for no error.\<close>

definition TestValidateConfig_basic :: "(Credential list option \<times> string) list" where
  "TestValidateConfig_basic =
    [(Some [test_cred ''a'' [''example.com''] ''tok-a''], ''''),
     (Some [test_cred ''a'' [''example.co.uk''] ''tok-a''], ''''),
     (Some [test_cred ''a'' [''example.com.au''] ''tok-a''], ''''),
     (Some [test_cred ''a'' [''example.com'', ''example.net''] ''tok-a'', test_cred ''b'' [''example.org''] ''tok-b''], ''''),
     (None, ''config is nil''),
     (Some [], ''no credentials'')]"

definition TestValidateConfig_duplicates :: "(Credential list option \<times> string) list" where
  "TestValidateConfig_duplicates =
    [(Some [test_cred ''a'' [''example.com''] ''tok-a'', test_cred ''b'' [''example.com''] ''tok-b''], ''\"a\"''),
     (Some [test_cred ''a'' [''example.com'', ''example.com''] ''tok-a''], ''more than once''),
     (Some [test_cred ''a'' [''Example.COM''] ''tok-a'', test_cred ''b'' [''example.com''] ''tok-b''], ''each zone-apex must appear in exactly one credential'')]"

definition TestValidateConfig_subdomains :: "(Credential list option \<times> string) list" where
  "TestValidateConfig_subdomains =
    [(Some [test_cred ''a'' [''app.example.com''] ''tok-a''], ''subdomain of a registrable domain''),
     (Some [test_cred ''a'' [''app.example.co.uk''] ''tok-a''], ''subdomain of a registrable domain'')]"

definition TestValidateConfig_credentials :: "(Credential list option \<times> string) list" where
  "TestValidateConfig_credentials =
    [(Some [test_cred '''' [''example.com''] ''tok-a''], ''empty name''),
     (Some [test_cred ''   '' [''example.com''] ''tok-a''], ''empty name''),
     (Some [test_cred ''a'' [''example.com''] ''tok-a'', test_cred ''a'' [''example.org''] ''tok-b''], ''duplicate credential name''),
     (Some [test_cred ''a'' [] ''tok-a''], ''no zones'')]"

definition TestValidateConfig_dots :: "(Credential list option \<times> string) list" where
  "TestValidateConfig_dots =
    [(Some [test_cred ''a'' [''''] ''tok-a''], ''empty zone string''),
     (Some [test_cred ''a'' [''.example.com''] ''tok-a''], ''leading dot''),
     (Some [test_cred ''a'' [''example.com.''] ''tok-a''], ''trailing dot''),
     (Some [test_cred ''a'' [''*.example.com''] ''tok-a''], ''wildcard'')]"

definition TestValidateConfig_zones :: "(Credential list option \<times> string) list" where
  "TestValidateConfig_zones =
    [(Some [test_cred ''a'' [''example..com''] ''tok-a''], ''empty label''),
     (Some [test_cred ''a'' [''exa_mple.com''] ''tok-a''], ''invalid character''),
     (Some [test_cred ''a'' ['' example.com''] ''tok-a''], ''whitespace''),
     (Some [test_cred ''a'' [''example.com''] ''''], ''empty apiTokenSecretRef'')]"

definition validates_to :: "Credential list option \<times> string \<Rightarrow> bool" where
  "validates_to = (\<lambda>(creds, wantErrText). case ValidateConfig sample_unicode (map_option (\<lambda>cs. \<lparr>Credentials = cs\<rparr>) creds) of
     None \<Rightarrow> wantErrText = [] | Some err \<Rightarrow> wantErrText \<noteq> [] \<and> Contains (Error sample_unicode err) wantErrText)"

lemma TestValidateConfig_basic_passes: "list_all validates_to TestValidateConfig_basic"
  by code_simp

lemma TestValidateConfig_duplicates_passes: "list_all validates_to TestValidateConfig_duplicates"
  by code_simp

lemma TestValidateConfig_subdomains_passes: "list_all validates_to TestValidateConfig_subdomains"
  by code_simp

lemma TestValidateConfig_credentials_passes: "list_all validates_to TestValidateConfig_credentials"
  by code_simp

lemma TestValidateConfig_dots_passes: "list_all validates_to TestValidateConfig_dots"
  by code_simp

lemma TestValidateConfig_zones_passes: "list_all validates_to TestValidateConfig_zones"
  by code_simp

lemma TestValidateConfigDuplicateZoneNamesBothCredentials_passes:
  "case ValidateConfig sample_unicode (Some \<lparr>Credentials =
      [test_cred ''alpha'' [''example.com''] ''tok-a'', test_cred ''beta'' [''example.com''] ''tok-b'']\<rparr>) of
     None \<Rightarrow> False
   | Some err \<Rightarrow> Contains (Error sample_unicode err) ''alpha'' \<and> Contains (Error sample_unicode err) ''beta''"
  by code_simp

section \<open>Record names\<close>

text \<open>\<open>TestRelativeRecordName_Cases\<close>, \<open>_RouterInvariantBroken\<close> and \<open>_BareApex\<close>.\<close>

definition TestRelativeRecordName_table :: "(string \<times> string \<times> string) list" where
  "TestRelativeRecordName_table =
    [(''_acme-challenge.example.com.'', ''example.com'', ''_acme-challenge''),
     (''_acme-challenge.app.example.com.'', ''example.com'', ''_acme-challenge.app''),
     (''_acme-challenge.foo.bar.example.com.'', ''example.com'', ''_acme-challenge.foo.bar''),
     (''_acme-challenge.app-a-20260526t124657-56b45f.xmv-example.com.'', ''xmv-example.com'', ''_acme-challenge.app-a-20260526t124657-56b45f''),
     (''_acme-challenge.app.example.com'', ''example.com'', ''_acme-challenge.app''),
     (''_acme-challenge.App.Example.COM.'', ''example.com'', ''_acme-challenge.app''),
     (''_acme-challenge.app.example.com.'', ''EXAMPLE.COM'', ''_acme-challenge.app''),
     (''_acme-challenge.app-a-20260526.harness.xmv-solutions.de.'', ''harness.xmv-solutions.de'', ''_acme-challenge.app-a-20260526'')]"

lemma TestRelativeRecordName_passes:
  "list_all (\<lambda>(resolvedFQDN, zoneApex, want). relativeRecordName sample_unicode resolvedFQDN zoneApex = want)
   TestRelativeRecordName_table"
  by code_simp

lemma TestRelativeRecordName_edges_pass:
  "relativeRecordName sample_unicode ''_acme-challenge.other.tld.'' ''example.com'' = defaultChallengeLabel"
  "relativeRecordName sample_unicode ''example.com.'' ''example.com'' = ''@''"
  by code_simp+

section \<open>The API client\<close>

text \<open>\<open>TestAPIError_Is_SentinelMatching\<close>.\<close>

definition TestAPIError_table :: "(int \<times> sentinel) list" where
  "TestAPIError_table = [(401, ErrInvalidToken), (403, ErrForbidden), (404, ErrNotFound), (409, ErrConflict),
     (422, ErrInvalidZoneName), (429, ErrRateLimited), (500, ErrServer), (502, ErrServer), (503, ErrServer)]"

lemma TestAPIError_passes:
  "list_all (\<lambda>(status, want). errors_Is (EAPI \<lparr>StatusCode = status, Code = [], Message = [], RetryAfter = 0\<rparr>) want) TestAPIError_table"
  by code_simp

text \<open>
  \<open>TestParseRetryAfter_Table\<close>, with a \<open>http.ParseTime\<close> that knows the two dates of the table: 15
  seconds after the reference time, and an hour before it.
\<close>

definition TestParseRetryAfter_lib :: "time \<Rightarrow> golib" where
  "TestParseRetryAfter_lib ref = sample_lib\<lparr>http_ParseTime := (\<lambda>s.
     if s = ''Mon, 25 May 2026 12:00:15 GMT'' then Some (ref + 15000000000)
     else if s = ''Mon, 25 May 2026 11:00:00 GMT'' then Some (ref - 3600000000000) else None)\<rparr>"

definition TestParseRetryAfter_table :: "(string \<times> duration) list" where
  "TestParseRetryAfter_table = [([], 0), (''0'', 0), (''5'', 5 * second), (''-3'', 0), (''Mon, 25 May 2026 12:00:15 GMT'', 15 * second),
     (''Mon, 25 May 2026 11:00:00 GMT'', 0), (''soon'' @ map char_of [226, 132, 162 :: nat], 0)]"

lemma TestParseRetryAfter_passes:
  "list_all (\<lambda>(header, want). parseRetryAfter (TestParseRetryAfter_lib 1779710400000000000) header 1779710400000000000 = want)
   TestParseRetryAfter_table"
  by code_simp

text \<open>The delays of \<open>TestClient_ExponentialBackoff_On5xx\<close> and \<open>TestClient_ExponentialBackoff_Capped\<close>.\<close>

lemma TestClient_ExponentialBackoff_passes:
  "map (\<lambda>k. backoff_loop k (10 * millisecond) second) [0, 1, 2] = [10 * millisecond, 20 * millisecond, 40 * millisecond]"
  "map (\<lambda>k. backoff_loop k (100 * millisecond) (250 * millisecond)) [0, 1, 2, 3, 4, 5] =
     [100 * millisecond, 200 * millisecond, 250 * millisecond, 250 * millisecond, 250 * millisecond, 250 * millisecond]"
  by code_simp+

text \<open>\<open>TestClient_PathEscaping\<close>.\<close>

lemma TestClient_PathEscaping_passes:
  "Contains (rrset_path 42 ''weird name/with slash'' ''TXT'') ''weird%20name''"
  "\<not> Contains (rrset_path 42 ''weird name/with slash'' ''TXT'') ''weird name''"
  by code_simp+

end
