(* ===== verification/Spec2Isabelle.thy ===== *)
theory Spec2Isabelle
  imports Net_Liveness Json_Fuel Concurrent_Effects Async_Outcome Async_Progress Test_Tables
begin

text \<open>
  Verification of \<open>cert-manager-webhook-hcloud-zones\<close>, a DNS-01 webhook for cert-manager that
  writes ACME challenge records into zones of the Hetzner Cloud API, with one API token per
  Hetzner project. The development models the whole of the program's own code: the packages
  under \<open>src/internal\<close> and the entry point under \<open>src/cmd\<close>.

  \<^bold>\<open>The program.\<close> cert-manager calls \<open>Solver.Present\<close> and \<open>Solver.CleanUp\<close> with a challenge: an
  FQDN, a key and the issuer's configuration block. The solver decodes and validates the
  configuration (\<open>solver/config.go\<close>, \<open>routing/routing.go\<close>), finds the credential whose zone
  covers the FQDN (\<open>routing.Resolve\<close>), reads that credential's token from a Kubernetes Secret
  (\<open>solver/secrets.go\<close>), builds an API client for it (\<open>hcloud/client.go\<close>), resolves the id of
  the zone through a cache (\<open>solver/zonecache.go\<close>), and creates, replaces or deletes the TXT
  record set. The client retries transient failures with exponential backoff.

  \<^bold>\<open>Go in HOL.\<close> A Go string is a list of bytes; \<open>int64\<close> and \<open>time.Duration\<close> are 64-bit
  words, and their arithmetic wraps. An error is a value of \<open>goerr\<close>, a fallible function
  returns \<open>goerr + 'a\<close>. Effects go through an explicit \<open>world\<close>: the instant, the trace of
  log lines, HTTP requests and their answers, Secret reads and sleeps, and a component for
  everything outside. A response body is the bytes that can be read and the error that ends them.
  The HTTP transport, the Kubernetes API, the JSON decoder of cert-manager's
  \<open>SecretKeySelector\<close>, Unicode tables, date parsing and error texts of the Go library are
  parameters (\<open>golib\<close>, \<open>platform\<close>). What is assumed of them is named: \<open>honours_ctx\<close> and
  \<open>kube_honours_ctx\<close> say that a request does not outlast its context.

  \<^bold>\<open>Theories that model.\<close>
  \<^item> \<open>Prelude\<close>: word and option lemmas, the collections of simplification rules.
  \<^item> \<open>Go_Strings\<close>, \<open>Go_Strconv\<close>: the functions of \<open>strings\<close>, \<open>unicode/utf8\<close>, \<open>strconv\<close> and
    \<open>net/url\<close> the code calls, on bytes, with the laws used later (round trips of \<open>Itoa\<close> and
    \<open>PathEscape\<close> among them).
  \<^item> \<open>Errors\<close>: error chains, \<open>errors.Is\<close>, \<open>errors.As\<close>, and \<open>hcloud/errors.go\<close>.
  \<^item> \<open>Routing\<close>: \<open>routing/routing.go\<close>, every function.
  \<^item> \<open>Runtime\<close>: the world, contexts, logging, and \<open>hcloud/clock.go\<close> with the contract of
    \<open>Clock\<close> as the locale \<open>clock_contract\<close>.
  \<^item> \<open>Json\<close>, \<open>Wire\<close>: the part of \<open>encoding/json\<close> the code relies on, and \<open>hcloud/types.go\<close>.
    The parser takes fuel, one unit per call; \<open>Json_Fuel\<close> shows that \<open>2 * length + 2\<close> is enough.
  \<^item> \<open>Client\<close>: \<open>hcloud/client.go\<close>. The retry loop \<open>do_loop\<close> terminates by the remaining attempts.
  \<^item> \<open>Config\<close>, \<open>Secrets\<close>, \<open>Zone_Cache\<close>, \<open>Solver\<close>: the files of \<open>internal/solver\<close> and \<open>main.go\<close>.

  \<^bold>\<open>Theories that prove.\<close>
  \<^item> \<open>Routing_Config\<close>, \<open>Routing_Correct\<close>: validation accepts exactly the declaratively stated
    configurations; \<open>Resolve\<close> returns exactly the most specific configured zone; fail-closed;
    order independence. The interface of the package is the locale \<open>routing_layer\<close>.
  \<^item> \<open>Client_Correct\<close>, \<open>Client_Guarantees\<close>: the backoff as a closed formula, the requests, answers
    and sleeps of a call and how its result follows from them, deadlines, error classification, request paths, and confidentiality of
    the token (a non-interference theorem). Clients are instances of the locale \<open>client_env\<close>.
  \<^item> \<open>Config_Correct\<close>, \<open>Record_Name\<close>: what \<open>parseConfig\<close> accepts and returns, and that routing
    and record naming agree on the challenge name.
  \<^item> \<open>Zone_Cache_Correct\<close>: the locale \<open>ttl_cache\<close>; the cache refines its history.
  \<^item> \<open>Zone_Api\<close>, \<open>Solver_Correct\<close>, \<open>Lifecycle\<close>: the contracts of \<open>SecretGetter\<close> (locale
    \<open>secret_getter\<close>, in \<open>Secrets\<close>) and \<open>HCloudClient\<close> (locale \<open>zone_client\<close>), their fulfilment by
    the production code, the exchanges behind every success of \<open>Present\<close> and \<open>CleanUp\<close>, their
    failures, and the reachable states of a solver as an inductive step relation with its invariant.
  \<^item> \<open>Json_Correct\<close>, \<open>Json_Fuel\<close>, \<open>Wire_Correct\<close>: what is printed is parsed back, the parser's fuel is
    enough for every input, and request bodies decode to the requests they were made from; the
    exact JSON of the two writing requests is stated in this theory.
  \<^item> \<open>Mock_Server\<close>, \<open>Mock_Correct\<close>: the in-memory server the repository's tests run against
    (\<open>solver_test.go\<close>), a network that delays and loses requests and responses, and what the
    server answers to the client's requests.
  \<^item> \<open>Rrset_Service\<close>, \<open>Net_Client\<close>, \<open>End_To_End\<close>, \<open>Net_Liveness\<close>: the contract of a DNS service behind
    an \<open>HCloudClient\<close> (locale \<open>rrset_service\<close>, extended by \<open>live_service\<close>), fulfilled by client, network
    and server together (\<open>net_client\<close>, \<open>net_live\<close>); over it, sequences of calls refine assignments to
    record sets, and calls succeed although messages are lost. \<open>Sample_Deployment\<close> holds the
    configuration the witnesses use.
  \<^item> \<open>Concurrency\<close>, \<open>Concurrent_Effects\<close>: calls that run concurrently on one solver. A call is a
    thread of atomic steps (preparation, one cache operation, one call of the API client); run
    alone it is the call, in any interleaving the invariant of the solver holds, and calls for
    different zones do not disturb each other's record sets.
  \<^item> \<open>Attempts\<close>, \<open>Async\<close>, \<open>Async_Effects\<close>, \<open>Async_Outcome\<close>, \<open>Async_Progress\<close>: the same
    calls at a finer grain, over an asynchronous network. An API call is taken apart into its
    attempts and each attempt into sending and receiving; put together again, the parts are the
    call. Threads sleep while others run; requests reach the server late, repeatedly or never,
    also after their sender has given up. An execution has a history of the moments at which the
    calls read their Secrets; requests carry the token their own call read at its moment, and every
    record set is as it was or what one of the calls for its zone asked for. A call has at
    most 96 steps (preparation, cache operations, and up to three API calls of up to seven
    attempts) and is never stuck. It fails for the network or its context, or, if it is a
    \<open>Present\<close>, because the server lacks the zone or a concurrent \<open>CleanUp\<close> removed the record set
    between a conflict and the replacement.
  \<^item> \<open>Test_Tables\<close>: the table tests of the repository, which the model passes.
  \<^item> This theory: the properties of \<open>Present\<close> and \<open>CleanUp\<close> that span all components.

  \<^bold>\<open>Findings.\<close> Where the code does not do what its comments say, a theorem states what it does:
  overlapping zones are accepted, surrounding white space in an FQDN misplaces the record,
  \<open>Retry-After\<close> overflows, the first backoff delay is not capped, \<open>CleanUp\<close> trusts a stale
  zone id, a listing that breaks off passes for what was read of it, and challenges with
  different keys at one name (a domain and its wildcard) overwrite and remove each other's record.

  \<^bold>\<open>Not modelled.\<close> The webhook server of cert-manager (\<open>cmd.RunWebhookServer\<close>), the Kubernetes and HTTP
  clients, TLS, the Helm chart, CI and test harness. Cancellation by \<open>defer cancel()\<close> has no
  effect after the last use of a context and is left out. Data races on the solver's fields
  cannot arise: after \<open>Initialize\<close> no code writes to them, and the cache holds a mutex. In the
  asynchronous model the reading of a Secret, which touches nothing the calls share, is one step,
  and an attempt may fail at any time, not only when its context ends, so that it has all the
  executions of the code and more. The attempt counter of the retry loop and \<open>maxRetries\<close> are
  unbounded integers: Go's \<open>int\<close> would wrap for a limit of \<open>2 ^ 63 - 1\<close> retries. An array under a
  key that occurs twice in one JSON object is decoded into fresh elements; \<open>encoding/json\<close> decodes
  the second occurrence into the elements left by the first. The options of the solver that replace
  the client factory, the secret getter or the clock, which only tests use, are modelled but not
  part of the reachable states.

  \<^bold>\<open>Coverage.\<close> Every function, type and constant of the program's packages has a definition
  here. What the tests check with a running HTTP server is proved for all inputs instead; their
  tables are in \<open>Test_Tables\<close>.
\<close>

section \<open>A sample server\<close>

text \<open>A server with one zone that lists it and answers every other request with the given status, at once.\<close>

definition zones_body :: string where
  "zones_body = ''{\"zones\":[{\"id\":7,\"name\":\"example.com\"}]}''"

definition zone_response :: "int \<Rightarrow> string \<Rightarrow> http_response" where
  "zone_response st meth =
     \<lparr>rs_StatusCode = (if meth = ''GET'' then 200 else st), rs_Header = [],
      rs_Body = (if meth = ''GET'' then zones_body else []), rs_BodyErr = None\<rparr>"

definition zone_server :: "int \<Rightarrow> unit transport" where
  "zone_server st cx rq t x = (Inr (zone_response st (rq_method rq)), 0, x)"

lemma zones_body_decoded:
  "json_Unmarshal sample_lib (dec_listZonesResponse sample_lib) zero_listZonesResponse zones_body =
     Inr (zero_listZonesResponse\<lparr>lz_Zones := [zero_Zone\<lparr>zone_ID := 7, zone_Name := ''example.com''\<rparr>]\<rparr>)"
  by code_simp

abbreviation server_client :: "int \<Rightarrow> unit Client" where
  "server_client st \<equiv> default_client (zone_server st) (\<lambda>_. True) slog_Default ''s3cret''"

definition server_reply :: "int \<Rightarrow> string \<Rightarrow> string \<Rightarrow> string option \<Rightarrow> unit world \<Rightarrow> unit world" where
  "server_reply st meth path body w = note_answer (server_client st) (Inr (zone_response st meth))
     (emit (HttpSent (make_request (server_client st) meth path body ''s3cret'')) w)"

lemma server_doOnce:
  "doOnce sample_lib (server_client st) cx meth path body out zero w =
     ((if meth = ''GET'' then
         (case out of None \<Rightarrow> Inr zero
          | Some decode \<Rightarrow>
              (case json_Unmarshal sample_lib decode zero zones_body of
                 Inl e \<Rightarrow> Inl (EWrap (''hcloud: decode '' @ meth @ '' '' @ path @ '': '') (EExt e) [])
               | Inr v \<Rightarrow> Inr v))
       else if 200 \<le> st \<and> st < 300 then Inr zero
       else Inl (EAPI (parseAPIError sample_lib (zone_response st meth) [] (now w)))),
      server_reply st meth path body w)"
proof -
  have log: "LogAttrs slog_Default LevelDebug msg at v = v" for msg at and v :: "unit world"
    by (simp add: LogAttrs_def slog_Default_def less_eq_level_def)
  have fields: "cl_token (server_client st) = StaticToken ''s3cret''" "cl_logger (server_client st) = slog_Default"
    "cl_httpClient (server_client st) = zone_server st" "clock_Now (cl_clock (server_client st)) = now"
    by (simp_all add: default_client_def realClock_def realClock_Now_def fun_eq_iff)
  have "zones_body \<noteq> []" by (simp add: zones_body_def)
  moreover have "call_out (zone_server st c (make_request (server_client st) meth path b t)) v = (Inr (zone_response st meth), v)"
    for b c t and v :: "unit world"
    by (simp add: call_out_def zone_server_def make_request_def)
  ultimately show ?thesis
    by (simp add: doOnce_def StaticToken_def fields log Let_def server_reply_def zone_response_def split: option.split sum.split)
qed

lemma server_client_do:
  assumes "200 \<le> st" and "st < 500" and "st \<noteq> 429"
  shows "client_do sample_lib (server_client st) cx meth path body out zero w =
     doOnce sample_lib (server_client st) cx meth path (map_option json_print body) out zero w"
proof -
  have "\<not> isRetryable (EWrap a (EExt b) [])" for a b by (simp add: isRetryable_def)
  moreover have "meth \<noteq> ''GET'' \<Longrightarrow> \<not> isRetryable (EAPI (parseAPIError sample_lib (zone_response st meth) [] t))" for t
    using assms by (simp add: isRetryable_def zone_response_def)
  moreover have "cl_maxRetries (server_client st) = 6" by (simp add: default_client_def defaultMaxRetries_def)
  ultimately show ?thesis
    by (simp add: client_do_def do_loop.simps [of _ _ _ _ _ _ _ _ 0] before_attempt_def server_doOnce
        split: option.split sum.split)
qed

lemma sample_ListZones:
  assumes "200 \<le> st" and "st < 500" and "st \<noteq> 429"
  shows "ListZones sample_lib (server_client st) cx w =
     (Inr [zero_Zone\<lparr>zone_ID := 7, zone_Name := ''example.com''\<rparr>], server_reply st ''GET'' ''/v1/zones'' None w)"
  by (simp add: ListZones_def server_client_do [OF assms] server_doOnce zones_body_decoded)

lemma sample_resolve:
  assumes "200 \<le> st" and "st < 500" and "st \<noteq> 429"
  shows "\<exists>s' w'. resolveZoneID u (sample_solver (zone_server st)) cx (as_HCloudClient sample_lib (server_client st)) k
    ''example.com'' w = (Inr 7, s', w')"
  by (simp add: resolveZoneID_def sample_solver_def solver_New_def newZoneCache_def Lookup_def
      as_HCloudClient_def sample_ListZones [OF assms] Let_def)

lemma sample_present:
  "\<exists>s' w'. Present (sample_platform (zone_server 200)) (sample_solver (zone_server 200)) (Some sample_challenge) w = (None, s', w')"
proof -
  obtain s2 w2 where "resolveZoneID (pf_uc (sample_platform (zone_server 200))) (sample_solver (zone_server 200))
    (contextFor (sample_solver (zone_server 200)) w) (as_HCloudClient sample_lib (server_client 200))
    (SecretRef_String sample_ref) ''example.com'' (emit (SecretRead ''ns'' ''tok'') w) = (Inr 7, s2, w2)"
    using sample_resolve [of 200] by force
  then show ?thesis
    by (simp add: Present_def Let_def sample_prepare as_HCloudClient_def [THEN arg_cong, of hc_CreateRRSet]
        CreateRRSet_def server_client_do server_doOnce)
qed

text \<open>If the zone is gone by the time the record is created, \<open>Present\<close> fails there.\<close>

lemma sample_present_vanished:
  "\<exists>a s' w'. Present (sample_platform (zone_server 404)) (sample_solver (zone_server 404)) (Some sample_challenge) w =
    (Some (wrapError sample_unicode ''create RRSet'' ''a'' ''example.com'' (EAPI a)), s', w') \<and> StatusCode a = 404"
proof -
  obtain s2 w2 where "resolveZoneID (pf_uc (sample_platform (zone_server 404))) (sample_solver (zone_server 404))
    (contextFor (sample_solver (zone_server 404)) w) (as_HCloudClient sample_lib (server_client 404))
    (SecretRef_String sample_ref) ''example.com'' (emit (SecretRead ''ns'' ''tok'') w) = (Inr 7, s2, w2)"
    using sample_resolve [of 404] by force
  moreover have "pf_uc (sample_platform (zone_server 404)) = sample_unicode" "cred_Name (hd (Credentials sample_conf)) = ''a''"
    by (simp_all add: sample_platform_def sample_lib_def sample_conf_def)
  moreover have "rs_StatusCode (zone_response 404 ''POST'') = 404" by (simp add: zone_response_def)
  ultimately show ?thesis
    by (simp add: Present_def Let_def sample_prepare as_HCloudClient_def [THEN arg_cong, of hc_CreateRRSet]
        CreateRRSet_def server_client_do server_doOnce APIError_Is_def)
      (metis parseAPIError_fields(1))
qed

lemma sample_cleanup:
  "\<exists>s' w'. CleanUp (sample_platform (zone_server 200)) (sample_solver (zone_server 200)) (Some sample_challenge) w = (None, s', w')"
proof -
  obtain s2 w2 where "resolveZoneID (pf_uc (sample_platform (zone_server 200))) (sample_solver (zone_server 200))
    (contextFor (sample_solver (zone_server 200)) w) (as_HCloudClient sample_lib (server_client 200))
    (SecretRef_String sample_ref) ''example.com'' (emit (SecretRead ''ns'' ''tok'') w) = (Inr 7, s2, w2)"
    using sample_resolve [of 200] by force
  then show ?thesis
    by (simp add: CleanUp_def Let_def sample_prepare as_HCloudClient_def [THEN arg_cong, of hc_DeleteRRSet]
        DeleteRRSet_def server_client_do server_doOnce)
qed

text \<open>A server that rejects every request with a status that is not retried.\<close>

lemma rejecting_do:
  assumes "400 \<le> st" and "st < 500" and "st \<noteq> 429"
  shows "\<exists>a w'. client_do sample_lib (default_client (answering st) (\<lambda>_. True) slog_Default tok)
    cx meth path body out zero w = (Inl (EAPI a), w') \<and> StatusCode a = st"
proof -
  let ?c = "default_client (answering st) (\<lambda>_. True) slog_Default tok"
  have fields: "cl_token ?c = StaticToken tok" "cl_httpClient ?c = answering st" "cl_maxRetries ?c = 6"
    by (simp_all add: default_client_def defaultMaxRetries_def)
  have "\<exists>resp v'. call_out (answering st d rq) v = (Inr resp, v') \<and> rs_StatusCode resp = st" for d rq v
    by (simp add: call_out_def answering_def)
  then obtain resp v' where call: "call_out (answering st (WithTimeout cx (cl_requestTimeout ?c) (now w))
      (make_request ?c meth path (map_option json_print body) tok))
      (emit (HttpSent (make_request ?c meth path (map_option json_print body) tok))
        (LogAttrs (cl_logger ?c) LevelDebug ''hcloud: request''
          [AStr ''method'' meth, AStr ''url'' (cl_baseURL ?c @ path),
           AStr ''authorization'' (''Bearer '' @ redactedToken)] w)) = (Inr resp, v')"
    and st: "rs_StatusCode resp = st" by blast
  have "\<exists>a w'. doOnce sample_lib ?c cx meth path (map_option json_print body) out zero w = (Inl (EAPI a), w') \<and>
      StatusCode a = st"
    unfolding doOnce_def fields StaticToken_def prod.case sum.case sample_url option.case Let_def call
    using st assms by simp
  then obtain a w' where "doOnce sample_lib ?c cx meth path (map_option json_print body) out zero w = (Inl (EAPI a), w')"
    and "StatusCode a = st" by blast
  with assms show ?thesis
    by (simp add: client_do_def do_loop.simps [of _ _ _ _ _ _ _ _ 0] before_attempt_def fields isRetryable_def)
qed

lemma rejecting_resolve:
  assumes "400 \<le> st" and "st < 500" and "st \<noteq> 429"
  shows "\<exists>a s' w'. resolveZoneID u (sample_solver (answering st)) cx
    (as_HCloudClient sample_lib (default_client (answering st) (\<lambda>_. True) slog_Default ''s3cret'')) k apex w =
      (Inl (EAPI a), s', w') \<and> StatusCode a = st"
proof -
  obtain a w' where "client_do sample_lib (default_client (answering st) (\<lambda>_. True) slog_Default ''s3cret'') cx
      ''GET'' ''/v1/zones'' None (Some (dec_listZonesResponse sample_lib)) zero_listZonesResponse w = (Inl (EAPI a), w')"
    and "StatusCode a = st"
    using rejecting_do [OF assms] by metis
  then show ?thesis
    by (simp add: resolveZoneID_def sample_solver_def solver_New_def newZoneCache_def Lookup_def
        as_HCloudClient_def ListZones_def Let_def)
qed

section \<open>Present and CleanUp\<close>

text \<open>
  C15: the webhook fails closed. If the configuration is not accepted or no configured zone
  covers the FQDN, \<open>Present\<close> and \<open>CleanUp\<close> return an error and do nothing: no Secret is
  read, no request is sent, no log line is written and the solver is unchanged.
\<close>

theorem unrouted_challenge_rejected:
  assumes "\<nexists>cr ref apex. routed pf ch cr ref apex"
  shows "\<exists>e. Present pf s (Some ch) w = (Some e, s, w) \<and> CleanUp pf s (Some ch) w = (Some e, s, w)"
  using not_routed_prepare [OF assms, of s "contextFor s w" w]
  by (auto simp: Present_def CleanUp_def Let_def)

theorem unrouted_challenge_rejected_witness:
  "\<exists>e. Present (sample_platform (answering 200)) (sample_solver (answering 200))
     (Some (sample_challenge\<lparr>ch_Config := None\<rparr>)) sample_world = (Some e, sample_solver (answering 200), sample_world)"
proof -
  have "\<nexists>cr ref apex. routed (sample_platform (answering 200)) (sample_challenge\<lparr>ch_Config := None\<rparr>) cr ref apex"
    by (simp add: routed_def parseConfig_def)
  from unrouted_challenge_rejected [OF this] show ?thesis by blast
qed

text \<open>
  C1: tenants are isolated. In every reachable state, a call for a routed challenge reads
  exactly one Secret, that of the credential owning the zone of the FQDN, on every call anew;
  and every request it sends carries as bearer the token this read returned, never the token
  of another credential or of an earlier call.
\<close>

theorem tenant_isolation:
  assumes "lifecycle pf s w" and "routed pf ch cr ref apex"
    and "Present pf s (Some ch) w = (r, s', w') \<or> CleanUp pf s (Some ch) w = (r, s', w')"
  shows "cred_APITokenSecretRef cr = SecretRef_String ref \<and>
    secrets_read (trace w') = secrets_read (trace w) @ [(sr_Namespace ref, sr_Name ref)] \<and>
    (case the (s_secrets s) (contextFor s w) ref w of
       (Inl e, w1) \<Rightarrow> http_sent (trace w') = http_sent (trace w)
     | (Inr tok, w1) \<Rightarrow>
         \<exists>rs. http_sent (trace w') = http_sent (trace w) @ rs \<and> list_all (bearer tok) rs)"
proof -
  have "production pf s" using lifecycle_inv [OF assms(1)] by (simp add: solver_inv_def)
  then have "acted_for pf s (contextFor s w) ref w w'"
    using assms(2,3) Present_acts CleanUp_acts by blast
  with routed_valid(2) [OF assms(2)] show ?thesis by (simp add: acted_for_def)
qed

theorem tenant_isolation_witness:
  "secrets_read (trace (snd (snd (Present (sample_platform (answering 503)) (sample_solver (answering 503))
     (Some sample_challenge) sample_world)))) = [(''ns'', ''tok'')]"
proof -
  let ?p = "Present (sample_platform (answering 503)) (sample_solver (answering 503)) (Some sample_challenge) sample_world"
  obtain r s' w' where p: "?p = (r, s', w')" by (cases ?p)
  from tenant_isolation [OF sample_lifecycle sample_routed disjI1, OF p] p show ?thesis
    by (simp add: sample_world_def sample_ref_def)
qed

text \<open>
  C12: a call ends within the request budget (two minutes unless configured otherwise),
  whatever the servers do, retries and waiting included, if the HTTP and Kubernetes clients
  honour contexts as documented.
\<close>

theorem call_within_budget:
  assumes "lifecycle pf s w" and "routed pf ch cr ref apex"
    and "kube_honours_ctx (pf_kube pf)" and "honours_ctx (pf_http pf)"
    and "Present pf s (Some ch) w = (r, s', w') \<or> CleanUp pf s (Some ch) w = (r, s', w')"
  shows "now w \<le> now w' \<and> now w' \<le> now w + sint (s_requestBudget s)"
proof -
  have "production pf s" and "0 < sint (s_requestBudget s)"
    using lifecycle_inv [OF assms(1)] by (simp_all add: solver_inv_def settings_ok_def)
  moreover have "acted_for pf s (contextFor s w) ref w w'"
    using calculation(1) assms(2,5) Present_acts CleanUp_acts by blast
  ultimately show ?thesis using assms(3,4)
    by (simp add: acted_for_def contextFor_def by_deadline_def WithTimeout_def Background_def)
qed

theorem call_within_budget_witness:
  "now (snd (snd (CleanUp (sample_platform (answering 503)) (sample_solver (answering 503))
     (Some sample_challenge) sample_world))) \<le> 120000000000"
proof -
  let ?p = "CleanUp (sample_platform (answering 503)) (sample_solver (answering 503)) (Some sample_challenge) sample_world"
  obtain r s' w' where p: "?p = (r, s', w')" by (cases ?p)
  have "kube_honours_ctx (pf_kube (sample_platform (answering 503)))"
    by (auto simp: kube_honours_ctx_def sample_platform_def sample_kube_def split: option.splits)
  moreover have "honours_ctx (pf_http (sample_platform (answering 503)))"
    by (simp add: sample_platform_def answering_honours_ctx)
  ultimately show ?thesis
    using call_within_budget [OF sample_lifecycle sample_routed _ _ disjI2, OF _ _ p] p
    by (simp add: sample_world_def sample_solver_def solver_New_def defaultRequestBudget_def second_def Let_def)
qed

text \<open>
  C7: success means the record was written. If \<open>Present\<close> returns nil, its exchanges with the API,
  all with the token of the owning credential, are: the listing of the zones (none, if the id was
  cached); then the creation of the TXT record set of the challenge name with the quoted key as its
  only value, in the zone whose id was resolved for the apex. That creation was answered 2xx and
  ended the call, or it was answered 409 and followed by the replacement of the records of that set
  by this value, which was answered 2xx.
\<close>

theorem present_writes_record:
  assumes "lifecycle pf s w" and "Present pf s (Some ch) w = (None, s', w')"
  shows "\<exists>cr ref apex lg tok c request i s2 w1 w2 name.
    routed pf ch cr ref apex \<and> the (s_secrets s) (contextFor s w) ref w = (Inr tok, w1) \<and>
    c = default_client (pf_http pf) (pf_pick pf) lg tok \<and> request = (\<lambda>m p b. make_request c m p b tok) \<and>
    resolveZoneID (pf_uc pf) s (contextFor s w) (as_HCloudClient (pf_lib pf) c) (SecretRef_String ref) apex w1 =
      (Inr i, s2, w2) \<and>
    name = relativeRecordName (pf_uc pf) (ch_ResolvedFQDN ch) apex \<and>
    wrote_record (list_rq request) (create_rq request (pf_uc pf) s2 i name (ch_Key ch))
      (set_rq request (pf_uc pf) i name (ch_Key ch)) w w'"
proof (cases "\<exists>cr ref apex. routed pf ch cr ref apex")
  case False
  with not_routed_prepare [OF False, of s "contextFor s w" w] assms(2) show ?thesis
    by (auto simp: Present_def Let_def)
next
  case True
  then obtain cr ref apex where routed: "routed pf ch cr ref apex" by auto
  have prod: "production pf s" using lifecycle_inv [OF assms(1)] by (simp add: solver_inv_def)
  show ?thesis
  proof (rule production_prepare [OF prod routed, of "contextFor s w" w], goal_cases NoToken Ready)
    case (NoToken e w1)
    with assms(2) show ?case by (simp add: Present_def Let_def)
  next
    case (Ready lg tok w1)
    have "wrote_record x y z w1 = wrote_record x y z w" for x y z
      unfolding wrote_record_def production_token_log [OF prod Ready(2)] ..
    then show ?case
      using production_api.Present_ok [OF Ready(4) assms(2)] Ready(2) routed by metis
  qed
qed

theorem present_writes_record_witness:
  "\<exists>s' w' listing create replace. Present (sample_platform (zone_server 200)) (sample_solver (zone_server 200))
     (Some sample_challenge) sample_world = (None, s', w') \<and> wrote_record listing create replace sample_world w'"
proof -
  obtain s' w' where p: "Present (sample_platform (zone_server 200)) (sample_solver (zone_server 200))
      (Some sample_challenge) sample_world = (None, s', w')"
    using sample_present by blast
  from present_writes_record [OF sample_lifecycle p] p show ?thesis by blast
qed

text \<open>
  C19: what success of \<open>CleanUp\<close> means, answer by answer. It exchanged either nothing but the
  listing of the zones, answered 404, or 2xx with a listing in which the apex does not occur; or, as
  its last call, the deletion of the challenge's TXT record set, under the id the cache held or the
  listing gave for the apex, answered 2xx or 404. No other answer of the API counts as success. All
  requests carry the token of the owning credential.
\<close>

theorem cleanup_success:
  assumes "lifecycle pf s w" and "CleanUp pf s (Some ch) w = (None, s', w')"
  shows "\<exists>cr ref apex lg tok c request w1 name.
    routed pf ch cr ref apex \<and> the (s_secrets s) (contextFor s w) ref w = (Inr tok, w1) \<and>
    c = default_client (pf_http pf) (pf_pick pf) lg tok \<and> request = (\<lambda>m p b. make_request c m p b tok) \<and>
    name = relativeRecordName (pf_uc pf) (ch_ResolvedFQDN ch) apex \<and>
    removed_record (list_rq request) (\<lambda>i. delete_rq request i name) (ListZones (pf_lib pf) c (contextFor s w) w1)
      (fst (Lookup (SecretRef_String ref) apex w1 (s_zones s))) apex w w'"
proof (cases "\<exists>cr ref apex. routed pf ch cr ref apex")
  case False
  with not_routed_prepare [OF False, of s "contextFor s w" w] assms(2) show ?thesis
    by (auto simp: CleanUp_def Let_def)
next
  case True
  then obtain cr ref apex where routed: "routed pf ch cr ref apex" by auto
  have prod: "production pf s" using lifecycle_inv [OF assms(1)] by (simp add: solver_inv_def)
  have hc: "hc_ListZones (as_HCloudClient lib c) = ListZones lib c" for lib and c :: "'a Client"
    by (simp add: as_HCloudClient_def)
  show ?thesis
  proof (rule production_prepare [OF prod routed, of "contextFor s w" w], goal_cases NoToken Ready)
    case (NoToken e w1)
    with assms(2) show ?case by (simp add: CleanUp_def Let_def)
  next
    case (Ready lg tok w1)
    have "removed_record a b l k x w1 = removed_record a b l k x w" for a b l k x
      unfolding removed_record_def production_token_log [OF prod Ready(2)] ..
    then show ?case
      using production_api.CleanUp_ok [OF Ready(4) assms(2), unfolded hc] Ready(2) routed by metis
  qed
qed

theorem cleanup_success_witness:
  "\<exists>s' w' listing delete listed cached apex.
     CleanUp (sample_platform (zone_server 200)) (sample_solver (zone_server 200)) (Some sample_challenge) sample_world =
       (None, s', w') \<and> removed_record listing delete listed cached apex sample_world w'"
proof -
  obtain s' w' where p: "CleanUp (sample_platform (zone_server 200)) (sample_solver (zone_server 200))
      (Some sample_challenge) sample_world = (None, s', w')"
    using sample_cleanup by blast
  from cleanup_success [OF sample_lifecycle p] p show ?thesis by blast
qed

text \<open>
  C32: a vanished zone is not remembered, with one exception. When \<open>Present\<close> fails with a 404, the
  error names the stage, the credential and the zone. Unless the 404 answered the replacement of an
  existing record set (the stage after a conflict), the cache holds no id for the zone any more, and
  the next resolution, through whatever client, is a listing of the zones; after that one stage the
  id stays cached.
\<close>

theorem not_found_forgets_zone:
  assumes "lifecycle pf s w" and "routed pf ch cr ref apex"
    and "Present pf s (Some ch) w = (Some e, s', w')" and "errors_Is e ErrNotFound"
  shows "\<exists>stage cause. e = wrapError (pf_uc pf) stage (cred_Name cr) apex cause \<and>
    (if stage = ''set existing RRSet records (conflict path)''
     then zc_store (s_zones s') (cache_key (SecretRef_String ref) apex) \<noteq> None
     else zc_store (s_zones s') (cache_key (SecretRef_String ref) apex) = None \<and>
       (\<forall>u cx client w''. snd (snd (resolveZoneID u s' cx client (SecretRef_String ref) apex w'')) =
          snd (hc_ListZones client cx w'')))"
proof -
  have prod: "production pf s" using lifecycle_inv [OF assms(1)] by (simp add: solver_inv_def)
  show ?thesis
  proof (rule production_prepare [OF prod assms(2), of "contextFor s w" w], goal_cases NoToken Ready)
    case (NoToken e0 w1)
    with assms(3,4) production_token_error [OF prod] show ?case by (auto simp: Present_def Let_def)
  next
    case (Ready lg tok w1)
    from Present_failure [OF Ready(4) assms(3)] show ?case
    proof (elim exE conjE)
      fix stage cause
      assume e: "e = wrapError (pf_uc pf) stage (cred_Name cr) apex cause"
        and zc: "errors_Is cause ErrNotFound \<longrightarrow> (zc_store (s_zones s') (cache_key (SecretRef_String ref) apex) = None \<longleftrightarrow>
           stage \<noteq> ''set existing RRSet records (conflict path)'')"
      have "errors_Is cause ErrNotFound" using assms(4) unfolding e errors_Is_wrapError .
      then have zc: "zc_store (s_zones s') (cache_key (SecretRef_String ref) apex) = None \<longleftrightarrow>
          stage \<noteq> ''set existing RRSet records (conflict path)''" by (rule mp [OF zc])
      show ?case
      proof (intro exI [of _ stage] exI [of _ cause] conjI e, split if_split, intro conjI impI allI)
        assume c: "stage \<noteq> ''set existing RRSet records (conflict path)''"
        then show "zc_store (s_zones s') (cache_key (SecretRef_String ref) apex) = None" by (rule iffD2 [OF zc])
        then show "snd (snd (resolveZoneID u s' cx client (SecretRef_String ref) apex w'')) = snd (hc_ListZones client cx w'')"
          for u cx client w'' by (rule resolveZoneID_lists)
      qed (simp only: zc not_True_eq_False not_False_eq_True)
    qed
  qed
qed

theorem not_found_forgets_zone_witness:
  "\<exists>e s' w'. Present (sample_platform (zone_server 404)) (sample_solver (zone_server 404)) (Some sample_challenge) sample_world =
     (Some e, s', w') \<and> errors_Is e ErrNotFound \<and>
   zc_store (s_zones s') (cache_key (SecretRef_String sample_ref) ''example.com'') = None"
proof -
  let ?pf = "sample_platform (zone_server 404)"
  obtain a s' w' where p: "Present ?pf (sample_solver (zone_server 404)) (Some sample_challenge) sample_world =
      (Some (wrapError sample_unicode ''create RRSet'' ''a'' ''example.com'' (EAPI a)), s', w')" and a: "StatusCode a = 404"
    using sample_present_vanished by blast
  have nf: "errors_Is (wrapError sample_unicode ''create RRSet'' ''a'' ''example.com'' (EAPI a)) ErrNotFound"
    using a by (simp add: APIError_Is_def)
  have stage: "wrapError u ''create RRSet'' n x c \<noteq> wrapError v ''set existing RRSet records (conflict path)'' m y d" for u v n m x y c d
    by (simp add: wrapError_def)
  obtain st cause where st: "wrapError sample_unicode ''create RRSet'' ''a'' ''example.com'' (EAPI a) =
        wrapError (pf_uc ?pf) st (cred_Name (hd (Credentials sample_conf))) ''example.com'' cause"
      "if st = ''set existing RRSet records (conflict path)''
       then zc_store (s_zones s') (cache_key (SecretRef_String sample_ref) ''example.com'') \<noteq> None
       else zc_store (s_zones s') (cache_key (SecretRef_String sample_ref) ''example.com'') = None"
    using not_found_forgets_zone [OF sample_lifecycle sample_routed p nf] by metis
  with stage have "st \<noteq> ''set existing RRSet records (conflict path)''" by metis
  with st(2) p nf show ?thesis by metis
qed

text \<open>
  C33: the two writing requests on the wire. For an ASCII record name and a key of printable ASCII
  without quotes and backslashes (the keys of ACME are base64url), the request by which \<open>Present\<close>
  creates the record set is a \<open>POST\<close> to the zone's \<open>rrsets\<close> whose body is, read back by a JSON
  parser, exactly the object with the members \<open>name\<close>, \<open>type\<close> (TXT), \<open>ttl\<close> and \<open>records\<close>, and the
  latter the one record whose \<open>value\<close> is the key in double quotes; the request that replaces the
  records is a \<open>POST\<close> to the \<open>set_records\<close> action of the record set with just these \<open>records\<close>.
\<close>

theorem request_bodies_on_wire:
  assumes "ascii name" and "list_all plain_char key"
  shows "let value = JArr [JObj [(''value'', JStr (dquote # key @ [dquote]))]];
      create = create_rq (\<lambda>m p b. make_request c m p b tok) u s i name key;
      replace = set_rq (\<lambda>m p b. make_request c m p b tok) u i name key in
    rq_method create = ''POST'' \<and> rq_url create = cl_baseURL c @ ''/v1/zones/'' @ Itoa (sint i) @ ''/rrsets'' \<and>
    (\<exists>body. rq_body create = Some body \<and> json_Parse lib body = Inr (JObj [(''name'', JStr name), (''type'', JStr ''TXT''),
       (''ttl'', JNum (Itoa (s_rrsetTTL s))), (''records'', value)])) \<and>
    rq_method replace = ''POST'' \<and> rq_url replace = cl_baseURL c @ ''/v1/zones/'' @ Itoa (sint i) @ ''/rrsets/'' @
      PathEscape name @ ''/'' @ PathEscape ''TXT'' @ ''/actions/set_records'' \<and>
    (\<exists>body. rq_body replace = Some body \<and> json_Parse lib body = Inr (JObj [(''records'', value)]))"
proof -
  let ?r = "\<lparr>rec_Value = quoteTXT u key, rec_Comment = []\<rparr>"
  let ?q = "create_request u s name key" and ?p = "\<lparr>srq_Records = [?r]\<rparr>"
  have quoted: "quoteTXT u key = dquote # key @ [dquote]" by (simp add: quoteTXT_def Quote_plain [OF assms(2)])
  have "ascii key" using assms(2) by (auto simp: ascii_def list_all_iff plain_char_def)
  then have r: "record_ascii ?r" by (simp add: record_ascii_def quoted ascii_def dquote_def)
  then have q: "create_ascii ?q" using assms(1) by (simp add: create_ascii_def create_request_def defaultRRSetType_def ascii_def)
  have "json_Parse lib (json_print (marshal_CreateRRSetRequest ?q)) = Inr (marshal_CreateRRSetRequest ?q)"
    using marshal_Create_plain(2) [of ?q]
    by (intro json_roundtrip_plain marshal_Create_plain(1) q) (simp add: maxNestingDepth_def)
  moreover have "json_Parse lib (json_print (marshal_SetRRSetRecordsRequest ?p)) = Inr (marshal_SetRRSetRecordsRequest ?p)"
    using marshal_Set_plain(2) [of ?p] r
    by (intro json_roundtrip_plain marshal_Set_plain(1)) (simp_all add: maxNestingDepth_def)
  moreover have "marshal_CreateRRSetRequest ?q = JObj [(''name'', JStr name), (''type'', JStr ''TXT''),
       (''ttl'', JNum (Itoa (s_rrsetTTL s))), (''records'', JArr [JObj [(''value'', JStr (dquote # key @ [dquote]))]])]"
    by (simp add: marshal_CreateRRSetRequest_def create_request_def defaultRRSetType_def marshal_Record_def quoted)
  moreover have "marshal_SetRRSetRecordsRequest ?p = JObj [(''records'', JArr [JObj [(''value'', JStr (dquote # key @ [dquote]))]])]"
    by (simp add: marshal_SetRRSetRecordsRequest_def marshal_Record_def quoted)
  ultimately show ?thesis
    unfolding Let_def by (simp add: create_rq_def set_rq_def make_request_def zone_path_def rrset_path_def)
qed

theorem request_bodies_on_wire_witness:
  "\<exists>body. rq_body (create_rq (\<lambda>m p b. make_request (server_client 200) m p b ''s3cret'') sample_unicode
      (sample_solver (zone_server 200)) 7 ''_acme-challenge.www'' ''Zm9v_YmFy-x'') = Some body \<and>
    json_Parse sample_lib body = Inr (JObj [(''name'', JStr ''_acme-challenge.www''), (''type'', JStr ''TXT''),
      (''ttl'', JNum (Itoa 60)), (''records'', JArr [JObj [(''value'', JStr (dquote # ''Zm9v_YmFy-x'' @ [dquote]))]])])"
proof -
  have "ascii ''_acme-challenge.www''" "list_all plain_char ''Zm9v_YmFy-x''"
    by (simp_all add: ascii_def plain_char_def)
  moreover have "s_rrsetTTL (sample_solver (zone_server 200)) = 60"
    by (simp add: sample_solver_def solver_New_def defaultRRSetTTL_def)
  ultimately show ?thesis
    using request_bodies_on_wire [of "''_acme-challenge.www''" "''Zm9v_YmFy-x''" "server_client 200" "''s3cret''" sample_unicode
        "sample_solver (zone_server 200)" 7 sample_lib]
    unfolding Let_def by metis
qed

text \<open>
  C31: \<open>CleanUp\<close> is idempotent with respect to missing zones and records: for a routed challenge
  it never reports a 404, and any error it reports past reading the token names the stage, the
  credential and the zone and keeps the cause.
\<close>

theorem cleanup_never_not_found:
  assumes "lifecycle pf s w" and "routed pf ch cr ref apex"
    and "CleanUp pf s (Some ch) w = (Some e, s', w')"
  shows "\<not> errors_Is e ErrNotFound \<and>
    ((\<exists>w1. the (s_secrets s) (contextFor s w) ref w = (Inl e, w1)) \<or>
     (\<exists>stage cause. e = wrapError (pf_uc pf) stage (cred_Name cr) apex cause))"
proof -
  have prod: "production pf s" using lifecycle_inv [OF assms(1)] by (simp add: solver_inv_def)
  show ?thesis
  proof (rule production_prepare [OF prod assms(2), of "contextFor s w" w], goal_cases NoToken Ready)
    case (NoToken e0 w1)
    with assms(3) production_token_error [OF prod NoToken(2)] show ?case by (auto simp: CleanUp_def Let_def)
  next
    case (Ready lg tok w1)
    from CleanUp_failure [OF Ready(4) assms(3)] show ?case by auto
  qed
qed

theorem cleanup_never_not_found_witness:
  "\<exists>e. fst (CleanUp (sample_platform (answering 403)) (sample_solver (answering 403)) (Some sample_challenge)
      sample_world) = Some e \<and> \<not> errors_Is e ErrNotFound"
proof -
  let ?p = "CleanUp (sample_platform (answering 403)) (sample_solver (answering 403)) (Some sample_challenge) sample_world"
  obtain e s' w' where p: "?p = (Some e, s', w')"
    using rejecting_resolve [of 403 "pf_uc (sample_platform (answering 403))"
        "contextFor (sample_solver (answering 403)) sample_world" "SecretRef_String sample_ref" "''example.com''"
        "emit (SecretRead ''ns'' ''tok'') sample_world"]
    by (auto simp: CleanUp_def Let_def sample_prepare APIError_Is_def)
  with cleanup_never_not_found [OF sample_lifecycle sample_routed p] show ?thesis by simp
qed

section \<open>Reachable states\<close>

text \<open>
  C20: in every state a solver can reach, by any sequence of \<open>Initialize\<close>, \<open>Present\<close> and
  \<open>CleanUp\<close> calls from construction with any of the options \<open>WithLogger\<close>, \<open>WithZoneCacheTTL\<close>,
  \<open>WithRRSetTTL\<close> and \<open>WithRequestBudget\<close> (not those that replace the client factory, the secret
  getter or the clock, which tests use) while time passes, the record TTL, the
  request budget and the cache TTL are positive, the secret getter and client factory are the
  production ones, and no cached zone id outlives the instant by more than the cache TTL.
\<close>

theorem reachable_states_sound:
  assumes "lifecycle pf s w"
  shows "0 < s_rrsetTTL s \<and> 0 < sint (s_requestBudget s) \<and> 0 < sint (zc_ttl (s_zones s)) \<and>
    production pf s \<and>
    (\<forall>k e. zc_store (s_zones s) k = Some e \<longrightarrow> ze_expiresAt e \<le> now w + sint (zc_ttl (s_zones s)))"
  using lifecycle_inv [OF assms] by (auto simp: solver_inv_def settings_ok_def cache_ok_def)

theorem reachable_states_sound_witness:
  "0 < s_rrsetTTL (sample_solver (answering 200))"
  using reachable_states_sound [OF sample_lifecycle [of "answering 200" sample_world]] by simp

text \<open>
  C23: one listing serves every call within the cache TTL. Once a zone id was resolved by
  listing the zones, resolving it again up to and including the last instant of its life
  returns the same id, sends nothing and changes nothing, whatever client is used.
\<close>

theorem zone_id_cached:
  assumes "lifecycle pf s w0" and "fst (Lookup key apex w (s_zones s)) = None"
    and "resolveZoneID u s cx client key apex w = (Inr i, s', w')"
    and "now w'' \<le> now w' + sint (zc_ttl (s_zones s))"
  shows "resolveZoneID u s' cx' client' key apex w'' = (Inr i, s', w'')"
proof -
  have clk: "zc_now (s_zones s) = now"
    using lifecycle_inv [OF assms(1)] by (simp add: solver_inv_def cache_ok_def)
  obtain zc where l: "Lookup key apex w (s_zones s) = (None, zc)"
    using assms(2) by (cases "Lookup key apex w (s_zones s)") simp
  then have zc: "zc_now zc = now" "zc_ttl zc = zc_ttl (s_zones s)"
    using clk by (auto simp: Lookup_def split: option.splits if_splits)
  have "s' = s\<lparr>s_zones := Store key apex i w' zc\<rparr>"
    using assms(3) l by (auto simp: resolveZoneID_def Let_def split: prod.splits sum.splits option.splits)
  with zc assms(4) show ?thesis
    by (simp add: resolveZoneID_def Lookup_def Store_def)
qed

theorem zone_id_cached_witness:
  "\<exists>s' w'. resolveZoneID sample_unicode s' Background (as_HCloudClient sample_lib (server_client 200)) ''k'' ''example.com''
      w' = (Inr 7, s', w')"
proof -
  let ?s = "sample_solver (zone_server 200)"
  let ?z = "resolveZoneID sample_unicode ?s Background (as_HCloudClient sample_lib (server_client 200)) ''k''
    ''example.com'' sample_world"
  obtain s' w' where z: "?z = (Inr 7, s', w')"
    using sample_resolve [of 200] by force
  have miss: "fst (Lookup ''k'' ''example.com'' sample_world (s_zones ?s)) = None"
    by (simp add: sample_solver_def solver_New_def newZoneCache_def Lookup_def Let_def)
  have "now w' \<le> now w' + sint (zc_ttl (s_zones ?s))"
    using lifecycle_inv [OF sample_lifecycle [of "zone_server 200" sample_world]]
    by (simp add: solver_inv_def cache_ok_def)
  from zone_id_cached [OF sample_lifecycle [of "zone_server 200" sample_world] miss z this] show ?thesis by blast
qed

text \<open>A transport on which the listing breaks off: its answers to \<open>GET\<close> arrive with status 200, and
  reading their body fails after the bytes \<open>b\<close>.\<close>

definition cut_listing :: "string \<Rightarrow> 'e transport \<Rightarrow> bool" where
  "cut_listing b http \<longleftrightarrow> (\<forall>cx rq t x. rq_method rq = ''GET'' \<longrightarrow>
     (\<exists>resp dt y. http cx rq t x = (Inr resp, dt, y) \<and> rs_StatusCode resp = 200 \<and>
        (\<exists>err. io_ReadAll resp = (b, Some err))))"

text \<open>What the client makes of the bytes.\<close>

definition cut_zones :: "golib \<Rightarrow> string \<Rightarrow> Zone list result" where
  "cut_zones lib b =
     (if b = [] then Inr []
      else (case json_Unmarshal lib (dec_listZonesResponse lib) zero_listZonesResponse b of
              Inl e \<Rightarrow> Inl (EWrap ''hcloud: decode GET /v1/zones: '' (EExt e) [])
            | Inr v \<Rightarrow> Inr (lz_Zones v)))"

lemma cut_ListZones:
  assumes "cut_listing b http" and "url_ParseError lib (DefaultBaseURL @ ''/v1/zones'') = None"
  shows "\<exists>w' rq. ListZones lib (default_client http pick lg tok) cx w = (cut_zones lib b, w') \<and> rq_method rq = ''GET'' \<and>
    http_sent (trace w') = http_sent (trace w) @ [rq]"
proof -
  let ?c = "default_client http pick lg tok" and ?rx = "WithTimeout cx defaultRequestTimeout (now w)"
  let ?rq = "make_request ?c ''GET'' ''/v1/zones'' None tok"
  let ?w2 = "emit (HttpSent ?rq) (LogAttrs lg LevelDebug ''hcloud: request''
    [AStr ''method'' ''GET'', AStr ''url'' (DefaultBaseURL @ ''/v1/zones''), AStr ''authorization'' (''Bearer '' @ redactedToken)] w)"
  have m: "rq_method ?rq = ''GET''" by (simp add: make_request_def)
  with assms(1) obtain resp dt y where r: "http ?rx ?rq (now ?w2) (ext ?w2) = (Inr resp, dt, y)"
      "rs_StatusCode resp = 200" "rs_Body resp = b"
    unfolding cut_listing_def io_ReadAll_def by blast
  then obtain w3 where o: "call_out (http ?rx ?rq) ?w2 = (Inr resp, w3)" "trace w3 = trace ?w2"
    by (simp add: call_out_def)
  have f: "cl_token ?c = StaticToken tok" "cl_httpClient ?c = http" "cl_logger ?c = lg" "cl_baseURL ?c = DefaultBaseURL"
      "cl_requestTimeout ?c = defaultRequestTimeout" "0 \<le> cl_maxRetries ?c"
    by (simp_all add: default_client_def client_default_defs)
  let ?w4 = "note_answer ?c (Inr resp) (LogAttrs lg LevelDebug ''hcloud: response''
    [AStr ''method'' ''GET'', AStr ''path'' ''/v1/zones'', AInt ''status'' 200] w3)"
  have "\<not> isRetryable (EWrap p (EExt e) [])" for p e by (simp add: isRetryable_def)
  then have "ListZones lib ?c cx w = (cut_zones lib b, ?w4)"
    using o(1) r(2,3) assms(2) f
    by (simp add: ListZones_def client_do_def do_loop.simps [of _ _ _ _ _ _ _ _ 0] before_attempt_def doOnce_def
        StaticToken_def Let_def cut_zones_def zero_listZonesResponse_def split: sum.split)
  with m o(2) show ?thesis by (intro exI [of _ ?w4] exI [of _ ?rq]) simp
qed

text \<open>
  C35: a listing that breaks off is never asked for again. The error of reading a response body is
  dropped, and what was read before it stands for the body. If the listing of the zones breaks off
  before its first byte, it passes for an empty one: \<open>CleanUp\<close> returns nil after this single
  request, although nothing was deleted, and \<open>Present\<close> fails with a 404. If it breaks off later, at
  bytes that do not decode, both fail at once with the decoding error. Neither is retried, as a
  connection that breaks before the status line is.
\<close>

theorem unread_listing_ends_call:
  assumes "lifecycle pf s w" and "routed pf ch cr ref apex"
    and "the (s_secrets s) (contextFor s w) ref w = (Inr tok, w1)"
    and "fst (Lookup (SecretRef_String ref) apex w1 (s_zones s)) = None"
    and "cut_listing b (pf_http pf)" and "url_ParseError (pf_lib pf) (DefaultBaseURL @ ''/v1/zones'') = None"
    and "b = [] \<or> \<not> is_ok (cut_zones (pf_lib pf) b)"
  shows "\<exists>rc sc wc rp sp wp rq1 rq2.
    CleanUp pf s (Some ch) w = (rc, sc, wc) \<and> http_sent (trace wc) = http_sent (trace w) @ [rq1] \<and> rq_method rq1 = ''GET'' \<and>
    Present pf s (Some ch) w = (rp, sp, wp) \<and> http_sent (trace wp) = http_sent (trace w) @ [rq2] \<and> rq_method rq2 = ''GET'' \<and>
    (if b = [] then rc = None \<and> (\<exists>e. rp = Some e \<and> errors_Is e ErrNotFound)
     else \<exists>e. cut_zones (pf_lib pf) b = Inl e \<and>
       rc = Some (wrapError (pf_uc pf) ''resolve zone'' (cred_Name cr) apex e) \<and> rp = rc)"
proof -
  have prod: "production pf s" using lifecycle_inv [OF assms(1)] by (simp add: solver_inv_def)
  then obtain rc where rc: "the (s_secrets s) = GetToken (pf_uc pf) \<lparr>kg_api = pf_kube pf, kg_config = rc\<rparr>"
    by (auto simp: production_def)
  have sent: "http_sent (trace w1) = http_sent (trace w)"
    using kube.get_frame(2) [of _ _ "contextFor s w" ref w "Inr tok" w1] assms(3) rc by simp
  obtain lg where prep: "prepare pf s (contextFor s w) ch w = (Inr (cr, ref,
      as_HCloudClient (pf_lib pf) (default_client (pf_http pf) (pf_pick pf) lg tok), apex), w1)"
    by (rule production_prepare [OF prod assms(2), of "contextFor s w" w]) (use assms(3) in auto)
  let ?api = "as_HCloudClient (pf_lib pf) (default_client (pf_http pf) (pf_pick pf) lg tok)"
  obtain w2 rq where l: "hc_ListZones ?api (contextFor s w) w1 = (cut_zones (pf_lib pf) b, w2)" and rq: "rq_method rq = ''GET''"
      "http_sent (trace w2) = http_sent (trace w) @ [rq]"
    using cut_ListZones [OF assms(5,6), of "pf_pick pf" lg tok "contextFor s w" w1] sent
    by (auto simp: as_HCloudClient_def)
  obtain zc where lk: "Lookup (SecretRef_String ref) apex w1 (s_zones s) = (None, zc)"
    using assms(4) by (cases "Lookup (SecretRef_String ref) apex w1 (s_zones s)") simp
  have nf: "errors_Is (not_found_error (pf_uc pf) apex) ErrNotFound" by (simp add: not_found_error_def APIError_Is_def)
  show ?thesis
  proof (cases "b = []")
    case True
    with l lk have "resolveZoneID (pf_uc pf) s (contextFor s w) ?api (SecretRef_String ref) apex w1 =
        (Inl (not_found_error (pf_uc pf) apex), s\<lparr>s_zones := zc\<rparr>, w2)"
      by (simp add: resolveZoneID_def cut_zones_def)
    with True prep nf rq show ?thesis by (simp add: CleanUp_def Present_def Let_def errors_Is_wrapError)
  next
    case False
    then obtain e where e: "cut_zones (pf_lib pf) b = Inl e" "\<not> errors_Is e ErrNotFound"
      using assms(7) by (auto simp: cut_zones_def is_ok_def split: sum.splits)
    with l lk have "resolveZoneID (pf_uc pf) s (contextFor s w) ?api (SecretRef_String ref) apex w1 =
        (Inl e, s\<lparr>s_zones := zc\<rparr>, w2)"
      by (simp add: resolveZoneID_def)
    with False e prep rq show ?thesis by (simp add: CleanUp_def Present_def Let_def)
  qed
qed

text \<open>A server whose connection breaks right after the status line.\<close>

definition breaking_server :: "unit transport" where
  "breaking_server cx rq t x = (Inr \<lparr>rs_StatusCode = 200, rs_Header = [], rs_Body = [], rs_BodyErr = Some ''unexpected EOF''\<rparr>, 0, x)"

theorem unread_listing_ends_call_witness:
  "\<exists>s' w' rq. CleanUp (sample_platform breaking_server) (sample_solver breaking_server) (Some sample_challenge) sample_world =
      (None, s', w') \<and> http_sent (trace w') = [rq] \<and> rq_method rq = ''GET''"
proof -
  let ?pf = "sample_platform breaking_server" and ?s = "sample_solver breaking_server"
  have tok: "the (s_secrets ?s) (contextFor ?s sample_world) sample_ref sample_world =
      (Inr ''s3cret'', emit (SecretRead ''ns'' ''tok'') sample_world)"
    by (simp add: sample_solver_def sample_token)
  have miss: "fst (Lookup k a w (s_zones ?s)) = None" for k a w
    by (simp add: sample_solver_def solver_New_def newZoneCache_def Lookup_def Let_def)
  have "cut_listing [] (pf_http ?pf)" "url_ParseError (pf_lib ?pf) (DefaultBaseURL @ ''/v1/zones'') = None"
    by (simp_all add: cut_listing_def sample_platform_def breaking_server_def)
  from unread_listing_ends_call [OF sample_lifecycle sample_routed tok miss this disjI1] show ?thesis
    by (auto simp: sample_world_def)
qed

end
